(* ===== verification/Prelude.thy ===== *)
theory Prelude
  imports Main "HOL-Library.Word"
begin

text \<open>
  Shared vocabulary of the development: machine integers and bytes, results with an early
  return, byte slices and in-place slice writes, and the little- and big-endian integer
  codecs of the Rust standard library. Every component theory imports this one.
\<close>

unbundle bit_operations_syntax

named_theorems slice_simps \<open>reading a slice back from a buffer that was written in place\<close>
named_theorems result_simps \<open>inversion of results built with early returns\<close>

section \<open>Machine types\<close>

type_synonym u8 = "8 word"
type_synonym u16 = "16 word"
type_synonym u32 = "32 word"
type_synonym u64 = "64 word"
type_synonym i64 = "64 word"
type_synonym u128 = "128 word"
type_synonym bytes = "8 word list"

text \<open>
  A 32-byte array \<^verbatim>\<open>[u8; 32]\<close> is the 256-bit word that its bytes denote in big-endian
  order: the two types have the same values, and the all-zero array is \<open>0\<close>.
\<close>

type_synonym digest = "256 word"

text \<open>Byte string literals \<^verbatim>\<open>b"..."\<close>.\<close>

definition ascii :: "string \<Rightarrow> bytes" where
  "ascii s = map (\<lambda>c. of_nat (of_char c)) s"

lemma length_ascii [simp]: "length (ascii s) = length s"
  by (simp add: ascii_def)

lemma ascii_eq_Nil [simp]: "(ascii s = []) = (s = [])" "([] = ascii s) = (s = [])"
  by (auto simp: ascii_def)

section \<open>Results with early return\<close>

text \<open>\<open>Inl e\<close> is \<^verbatim>\<open>Err(e)\<close>, \<open>Inr v\<close> is \<^verbatim>\<open>Ok(v)\<close>; \<open>attempt\<close> is the \<^verbatim>\<open>?\<close> operator.\<close>

definition attempt :: "'e + 'a \<Rightarrow> ('a \<Rightarrow> 'e + 'b) \<Rightarrow> 'e + 'b" where
  "attempt r f = (case r of Inl e \<Rightarrow> Inl e | Inr x \<Rightarrow> f x)"

lemma attempt_Inl [simp]: "attempt (Inl e) f = Inl e"
  by (simp add: attempt_def)

lemma attempt_Inr [simp]: "attempt (Inr x) f = f x"
  by (simp add: attempt_def)

lemma attempt_eq_Inr [result_simps]: "(attempt r f = Inr y) = (\<exists>x. r = Inr x \<and> f x = Inr y)"
  by (cases r) auto

lemma attempt_eq_Inl [result_simps]:
  "(attempt r f = Inl e) = (r = Inl e \<or> (\<exists>x. r = Inr x \<and> f x = Inl e))"
  by (cases r) auto

lemma attempt_cong [fundef_cong]:
  assumes "r = r'" and "\<And>x. r' = Inr x \<Longrightarrow> f x = g x"
  shows "attempt r f = attempt r' g"
  using assms by (cases r') auto

lemma attempt_assoc: "attempt (attempt r f) g = attempt r (\<lambda>x. attempt (f x) g)"
  by (cases r) simp_all

lemma attempt_if: "attempt (if b then r else r') f = (if b then attempt r f else attempt r' f)"
  by simp

definition ok_or :: "'e \<Rightarrow> 'a option \<Rightarrow> 'e + 'a" where
  "ok_or e opt = (case opt of None \<Rightarrow> Inl e | Some x \<Rightarrow> Inr x)"

lemma ok_or_simps [simp]: "ok_or e None = Inl e" "ok_or e (Some x) = Inr x"
  by (simp_all add: ok_or_def)

lemma ok_or_eq_Inr [result_simps]: "(ok_or e opt = Inr x) = (opt = Some x)"
  by (cases opt) auto

lemma if_Inl_eq_Inr [result_simps]: "((if b then Inl e else r) = Inr y) = (\<not> b \<and> r = Inr y)"
  by simp

text \<open>\<^verbatim>\<open>map_err\<close>.\<close>

definition map_err :: "('e \<Rightarrow> 'f) \<Rightarrow> 'e + 'a \<Rightarrow> 'f + 'a" where
  "map_err f r = (case r of Inl e \<Rightarrow> Inl (f e) | Inr x \<Rightarrow> Inr x)"

lemma map_err_simps [simp]: "map_err f (Inl e) = Inl (f e)" "map_err f (Inr x) = Inr x"
  by (simp_all add: map_err_def)

lemma map_err_eq_Inr [result_simps]: "(map_err f r = Inr x) = (r = Inr x)"
  by (cases r) auto

section \<open>Checked arithmetic\<close>

definition checked_add :: "'a::len word \<Rightarrow> 'a word \<Rightarrow> 'a word option" where
  "checked_add a b = (if unat a + unat b < 2 ^ LENGTH('a) then Some (a + b) else None)"

definition checked_sub :: "'a::len word \<Rightarrow> 'a word \<Rightarrow> 'a word option" where
  "checked_sub a b = (if unat b \<le> unat a then Some (a - b) else None)"

definition checked_mul :: "'a::len word \<Rightarrow> 'a word \<Rightarrow> 'a word option" where
  "checked_mul a b = (if unat a * unat b < 2 ^ LENGTH('a) then Some (a * b) else None)"

lemma checked_add_Some:
  "(checked_add a b = Some c) = (unat c = unat a + unat (b :: 'a::len word))"
proof
  assume "checked_add a b = Some c"
  then show "unat c = unat a + unat b"
    by (auto simp: checked_add_def unat_word_ariths split: if_splits)
next
  assume u: "unat c = unat a + unat b"
  have "unat c < 2 ^ LENGTH('a)" by (rule unsigned_less)
  then have lt: "unat a + unat b < 2 ^ LENGTH('a)" by (simp add: u)
  then have "c = a + b" by (intro word_unat_eq_iff [THEN iffD2]) (simp add: u unat_word_ariths)
  with lt show "checked_add a b = Some c" by (simp add: checked_add_def)
qed

lemma checked_add_None:
  "(checked_add a b = None) = (2 ^ LENGTH('a) \<le> unat a + unat (b :: 'a::len word))"
  by (auto simp: checked_add_def)

lemma checked_sub_Some:
  "checked_sub a b = Some c \<Longrightarrow> unat c = unat a - unat (b :: 'a::len word) \<and> unat b \<le> unat a"
  by (auto simp: checked_sub_def unat_sub [OF word_le_nat_alt [THEN iffD2]] split: if_splits)

lemma checked_mul_Some:
  "checked_mul a b = Some c \<Longrightarrow> unat c = unat a * unat (b :: 'a::len word)"
  by (auto simp: checked_mul_def unat_word_ariths split: if_splits)

section \<open>Slices and in-place writes\<close>

text \<open>
  \<open>seg a b xs\<close> is \<^verbatim>\<open>&xs[a..b]\<close> and \<open>put a src buf\<close> is
  \<^verbatim>\<open>buf[a..a + src.len()].copy_from_slice(&src)\<close>. The source indexes only inside the
  buffer: every decoder compares the length first, and every encoder allocates the
  buffer it writes, so no operation of the models reads or writes out of range.
\<close>

definition seg :: "nat \<Rightarrow> nat \<Rightarrow> 'a list \<Rightarrow> 'a list" where
  "seg a b xs = take (b - a) (drop a xs)"

definition put :: "nat \<Rightarrow> 'a list \<Rightarrow> 'a list \<Rightarrow> 'a list" where
  "put a src buf = take a buf @ src @ drop (a + length src) buf"

lemma length_seg [simp]: "length (seg a b xs) = min (b - a) (length xs - a)"
  by (simp add: seg_def)

lemma length_put [simp]: "a + length src \<le> length buf \<Longrightarrow> length (put a src buf) = length buf"
  by (simp add: put_def)

lemma seg_nth: "i < b - a \<Longrightarrow> a + i < length xs \<Longrightarrow> seg a b xs ! i = xs ! (a + i)"
  by (simp add: seg_def)

lemma nth_put:
  assumes "a + length src \<le> length buf" and "i < length buf"
  shows "put a src buf ! i
    = (if i < a then buf ! i else if i < a + length src then src ! (i - a) else buf ! i)"
  using assms by (cases "i < a"; cases "i < a + length src") (auto simp: put_def nth_append)

lemma seg_put_same [slice_simps]:
  "a + length src \<le> length buf \<Longrightarrow> b = a + length src \<Longrightarrow> seg a b (put a src buf) = src"
  by (simp add: seg_def put_def)

lemma seg_put_before [slice_simps]:
  assumes "j \<le> a" and "a + length src \<le> length buf"
  shows "seg i j (put a src buf) = seg i j buf"
  using assms by (intro nth_equalityI) (auto simp: seg_nth nth_put)

lemma seg_put_after [slice_simps]:
  assumes "a + length src \<le> i" and "a + length src \<le> length buf"
  shows "seg i j (put a src buf) = seg i j buf"
  using assms by (intro nth_equalityI) (auto simp: seg_nth nth_put)

lemma nth_put_other [slice_simps]:
  assumes "i < a \<or> a + length src \<le> i" and "a + length src \<le> length buf" and "i < length buf"
  shows "put a src buf ! i = buf ! i"
  using assms by (auto simp: nth_put)

lemma nth_put_same [slice_simps]: "i < length buf \<Longrightarrow> put i [x] buf ! i = x"
  by (simp add: nth_put)

lemma put_put_same:
  "length s = length t \<Longrightarrow> a + length t \<le> length buf \<Longrightarrow> put a s (put a t buf) = put a s buf"
  by (simp add: put_def)

lemma put_seg_id: "a + length s \<le> length buf \<Longrightarrow> seg a (a + length s) buf = s \<Longrightarrow> put a s buf = buf"
proof -
  assume len: "a + length s \<le> length buf" and eq: "seg a (a + length s) buf = s"
  have "drop a buf = take (length s) (drop a buf) @ drop (length s) (drop a buf)"
    by (rule append_take_drop_id [symmetric])
  also have "\<dots> = s @ drop (a + length s) buf"
    using eq by (simp add: seg_def add.commute)
  finally show "put a s buf = buf"
    by (simp add: put_def) (metis append_take_drop_id)
qed

lemma put_commute:
  assumes "a + length s \<le> b" and "b + length t \<le> length buf"
  shows "put a s (put b t buf) = put b t (put a s buf)"
  using assms by (intro nth_equalityI) (auto simp: nth_put)

lemma seg_seg: "seg i j (seg a b xs) = seg (a + i) (min (a + j) b) xs"
  by (simp add: seg_def drop_take add.commute min_def)

lemma seg_all [simp]: "seg 0 (length xs) xs = xs"
  by (simp add: seg_def)

lemma seg_append_left [simp]: "b \<le> length xs \<Longrightarrow> seg a b (xs @ ys) = seg a b xs"
  by (simp add: seg_def)

lemma seg_append_right:
  "length xs \<le> a \<Longrightarrow> seg a b (xs @ ys) = seg (a - length xs) (b - length xs) ys"
  by (simp add: seg_def)

lemma seg_replicate [slice_simps]: "b \<le> n \<Longrightarrow> seg a b (replicate n x) = replicate (b - a) x"
  by (simp add: seg_def)

lemma seg_split: "a \<le> b \<Longrightarrow> b \<le> c \<Longrightarrow> seg a c xs = seg a b xs @ seg b c xs"
proof -
  assume "a \<le> b" "b \<le> c"
  then have "c - a = (b - a) + (c - b)" "drop b xs = drop (b - a) (drop a xs)"
    by simp_all
  then show ?thesis
    by (simp add: seg_def take_add)
qed

text \<open>Two buffers agree when they agree on the segments of a partition.\<close>

lemma seg_join:
  "seg a b xs = seg a b ys \<Longrightarrow> seg b c xs = seg b c ys \<Longrightarrow> a \<le> b \<Longrightarrow> b \<le> c
    \<Longrightarrow> seg a c xs = seg a c ys"
  by (simp add: seg_split [of a b c])

lemma seg_full: "seg 0 n xs = seg 0 n ys \<Longrightarrow> length xs = n \<Longrightarrow> length ys = n \<Longrightarrow> xs = ys"
  by (simp add: seg_def)

lemma seg_one: "i < length xs \<Longrightarrow> seg i (Suc i) xs = [xs ! i]"
  by (simp add: seg_def take_Suc hd_drop_conv_nth)

lemma seg_nth_cong: "seg a b xs = seg a b ys \<Longrightarrow> a \<le> i \<Longrightarrow> i < b \<Longrightarrow> i < length xs
    \<Longrightarrow> i < length ys \<Longrightarrow> xs ! i = ys ! i"
proof -
  assume "seg a b xs = seg a b ys" "a \<le> i" "i < b" "i < length xs" "i < length ys"
  then show ?thesis
    using seg_nth [of "i - a" b a xs] seg_nth [of "i - a" b a ys] by simp
qed

lemma drop_add_append: "drop off enc = xs @ ys \<Longrightarrow> drop (off + length xs) enc = ys"
  by (simp add: add.commute [of off] flip: drop_drop)

lemma drop_Suc_Cons: "drop off enc = x # r \<Longrightarrow> drop (Suc off) enc = r"
  using drop_add_append [of off enc "[x]" r] by simp

lemma drop_nth_Cons: "drop off enc = x # r \<Longrightarrow> off < length enc \<and> enc ! off = x"
  by (metis drop_all hd_drop_conv_nth leI list.distinct(1) list.sel(1))

lemma drop_append_length: "drop off enc = xs @ ys \<Longrightarrow> xs \<noteq> [] \<Longrightarrow> off + length xs \<le> length enc"
proof -
  assume eq: "drop off enc = xs @ ys" and "xs \<noteq> []"
  then have "0 < length xs" by simp
  moreover have "length enc - off = length xs + length ys"
    using arg_cong [OF eq, of length] by simp
  ultimately show ?thesis by linarith
qed

section \<open>Writing into a zeroed buffer\<close>

lemma put_zeros:
  assumes "length pre \<le> a" "a + length src \<le> length pre + n"
  shows "put a src (pre @ replicate n 0)
    = pre @ replicate (a - length pre) 0 @ src @ replicate (n - (a - length pre) - length src) 0"
proof -
  have "a - length pre \<le> n" "n - (a + length src - length pre) = n - (a - length pre) - length src"
    using assms by linarith+
  then show ?thesis using assms by (simp add: put_def min_absorb1)
qed

lemma put_middle:
  "a = length pre \<Longrightarrow> length mid = length src \<Longrightarrow> put a src (pre @ mid @ post) = pre @ src @ post"
  by (simp add: put_def)

lemma put_zeros_start: "length src \<le> n \<Longrightarrow> put 0 src (replicate n 0) = src @ replicate (n - length src) 0"
  using put_zeros [of "[]" 0 src n] by simp

lemma all_zero_iff: "(\<not> list_ex (\<lambda>b. b \<noteq> 0) xs) = (xs = replicate (length xs) (0 :: u8))"
  by (induction xs) auto

lemma zeros_all_zero [simp]: "\<not> list_ex (\<lambda>b. b \<noteq> 0) (replicate n (0 :: u8))"
  by (simp add: all_zero_iff)

lemma seg_tail: "a \<le> length xs \<Longrightarrow> seg a (length xs) xs = drop a xs"
  by (simp add: seg_def)

lemma checked_mul_eq_Some: "(checked_mul a b = Some c) = (unat c = unat a * unat (b :: 'a::len word))"
proof
  assume c: "unat c = unat a * unat b"
  moreover have "unat c < 2 ^ LENGTH('a)" by simp
  ultimately have "unat a * unat b < 2 ^ LENGTH('a)" by simp
  with c show "checked_mul a b = Some c"
    by (simp add: checked_mul_def word_unat_eq_iff unat_word_ariths)
qed (rule checked_mul_Some)

end
