(* ===== verification/Endian.thy ===== *)
theory Endian
  imports Prelude "HOL-Library.List_Lexorder"
begin

text \<open>
  The integer codecs of the Rust standard library (\<^verbatim>\<open>to_le_bytes\<close>, \<^verbatim>\<open>from_le_bytes\<close>,
  \<^verbatim>\<open>to_be_bytes\<close>, \<^verbatim>\<open>from_be_bytes\<close>) at every width that is a whole number of bytes, and the
  byte-wise comparison of slices (\<^verbatim>\<open>Ord for [u8]\<close>), which is the lexicographic order of
  \<open>HOL-Library.List_Lexorder\<close>.
\<close>

section \<open>Unsigned values\<close>

lemma unat_add_small: "unat a + unat b < 2 ^ LENGTH('a) \<Longrightarrow> unat (a + b) = unat a + unat (b :: 'a::len word)"
  by (simp add: unat_word_ariths)
lemma unat_sub_small: "unat b \<le> unat a \<Longrightarrow> unat (a - b) = unat a - unat (b :: 'a::len word)"
  by (rule unat_sub) (simp add: word_le_nat_alt)

lemma word_ge_one: "(1 \<le> (p :: 'a::len word)) = (p \<noteq> 0)"
  by (metis word_gt_0 word_le_less_eq word_less_1 linorder_not_less)

section \<open>Digits in base 256\<close>

primrec le_digits :: "nat \<Rightarrow> nat \<Rightarrow> bytes" where
  "le_digits 0 v = []"
| "le_digits (Suc n) v = word_of_nat (v mod 256) # le_digits n (v div 256)"

fun of_le_digits :: "bytes \<Rightarrow> nat" where
  "of_le_digits [] = 0"
| "of_le_digits (b # bs) = unat b + 256 * of_le_digits bs"

lemma le_digits_numeral [simp]:
  "le_digits (numeral k) v = word_of_nat (v mod 256) # le_digits (pred_numeral k) (v div 256)"
  by (simp only: numeral_eq_Suc [of k] le_digits.simps)

lemma length_le_digits [simp]: "length (le_digits n v) = n"
  by (induction n arbitrary: v) auto

lemma unat_byte_less: "unat (b :: u8) < 256"
  using unsigned_less [of b] by simp

lemma unat_u16_less: "unat (w :: u16) < 65536"
  using unsigned_less [of w] by simp

lemma unat_u32_less: "unat (w :: u32) < 4294967296"
  using unsigned_less [of w] by simp

lemma unat_u64_less: "unat (w :: u64) < 18446744073709551616"
  using unsigned_less [of w] by simp

lemma word_of_nat_unat: "word_of_nat (unat w) = (w :: 'a::len word)"
  by simp

lemma unat_mod_self: "unat w mod 2 ^ LENGTH('a) = unat (w :: 'a::len word)"
  by (rule mod_less) (rule unsigned_less)

lemma unat_word_of_nat: "n < 2 ^ LENGTH('a) \<Longrightarrow> unat (word_of_nat n :: 'a::len word) = n"
  by (simp add: unat_of_nat)

lemma of_le_digits_le_digits: "of_le_digits (le_digits n v) = v mod 256 ^ n"
proof (induction n arbitrary: v)
  case 0
  show ?case by simp
next
  case (Suc n)
  have "unat (word_of_nat (v mod 256) :: u8) = v mod 256"
    by (simp add: unat_of_nat)
  then show ?case
    using Suc.IH [of "v div 256"] by (simp add: mod_mult2_eq add.commute)
qed

lemma of_le_digits_less: "of_le_digits bs < 256 ^ length bs"
proof (induction bs)
  case Nil
  show ?case by simp
next
  case (Cons b bs)
  have "unat b < 256" by (rule unat_byte_less)
  with Cons have "unat b + 256 * of_le_digits bs < 256 * 256 ^ length bs" by linarith
  then show ?case by simp
qed

lemma le_digits_of_le_digits: "length bs = n \<Longrightarrow> le_digits n (of_le_digits bs) = bs"
proof (induction bs arbitrary: n)
  case Nil
  then show ?case by simp
next
  case (Cons b bs)
  then obtain m where m: "n = Suc m" "length bs = m" by auto
  have "(unat b + 256 * of_le_digits bs) mod 256 = unat b"
    "(unat b + 256 * of_le_digits bs) div 256 = of_le_digits bs"
    using unat_byte_less [of b] by simp_all
  with Cons.IH [OF m(2)] m show ?case by simp
qed

lemma le_digits_zero: "le_digits n 0 = replicate n 0"
  by (induction n) auto

lemma of_le_digits_append: "of_le_digits (xs @ ys) = of_le_digits xs + 256 ^ length xs * of_le_digits ys"
  by (induction xs) (auto simp: algebra_simps)

section \<open>Words as bytes\<close>

definition to_le_bytes :: "'a::len word \<Rightarrow> bytes" where
  "to_le_bytes w = le_digits (LENGTH('a) div 8) (unat w)"

definition from_le_bytes :: "bytes \<Rightarrow> 'a::len word" where
  "from_le_bytes bs = word_of_nat (of_le_digits bs)"

definition to_be_bytes :: "'a::len word \<Rightarrow> bytes" where
  "to_be_bytes w = rev (to_le_bytes w)"

definition from_be_bytes :: "bytes \<Rightarrow> 'a::len word" where
  "from_be_bytes bs = from_le_bytes (rev bs)"

lemma length_to_le_bytes [simp]: "length (to_le_bytes (w :: 'a::len word)) = LENGTH('a) div 8"
  by (simp add: to_le_bytes_def)

lemma length_to_be_bytes [simp]: "length (to_be_bytes (w :: 'a::len word)) = LENGTH('a) div 8"
  by (simp add: to_be_bytes_def)

lemma base256_power: "8 dvd n \<Longrightarrow> (256 :: nat) ^ (n div 8) = 2 ^ n"
proof -
  assume "8 dvd n"
  then obtain k where "n = 8 * k" by blast
  then show ?thesis by (simp add: power_mult)
qed

lemma from_to_le_bytes [simp]:
  assumes "8 dvd LENGTH('a)"
  shows "from_le_bytes (to_le_bytes w) = (w :: 'a::len word)"
  using assms
  by (simp add: from_le_bytes_def to_le_bytes_def of_le_digits_le_digits base256_power
      unat_mod_self)

lemma to_from_le_bytes [simp]:
  assumes "8 dvd LENGTH('a)" and "length bs = LENGTH('a) div 8"
  shows "to_le_bytes (from_le_bytes bs :: 'a::len word) = bs"
proof -
  have "of_le_digits bs < 2 ^ LENGTH('a)"
    using of_le_digits_less [of bs] assms by (simp add: base256_power)
  then have "unat (from_le_bytes bs :: 'a word) = of_le_digits bs"
    by (simp add: from_le_bytes_def unat_word_of_nat)
  with assms(2) show ?thesis
    by (simp add: to_le_bytes_def le_digits_of_le_digits)
qed

lemma from_to_be_bytes [simp]:
  "8 dvd LENGTH('a) \<Longrightarrow> from_be_bytes (to_be_bytes w) = (w :: 'a::len word)"
  by (simp add: from_be_bytes_def to_be_bytes_def)

lemma to_from_be_bytes [simp]:
  "8 dvd LENGTH('a) \<Longrightarrow> length bs = LENGTH('a) div 8
    \<Longrightarrow> to_be_bytes (from_be_bytes bs :: 'a::len word) = bs"
  by (simp add: from_be_bytes_def to_be_bytes_def)

lemma to_le_bytes_eqI:
  "from_le_bytes bs = (w :: 'a::len word) \<Longrightarrow> 8 dvd LENGTH('a) \<Longrightarrow> length bs = LENGTH('a) div 8
    \<Longrightarrow> to_le_bytes w = bs"
  by auto

lemma from_le_bytes_iff:
  "8 dvd LENGTH('a) \<Longrightarrow> length bs = LENGTH('a) div 8 \<Longrightarrow> (from_le_bytes bs = (w :: 'a::len word)) = (bs = to_le_bytes w)"
  by auto

lemma from_be_bytes_iff:
  "8 dvd LENGTH('a) \<Longrightarrow> length bs = LENGTH('a) div 8 \<Longrightarrow> (from_be_bytes bs = (w :: 'a::len word)) = (bs = to_be_bytes w)"
  by auto

lemma to_le_bytes_inj:
  "8 dvd LENGTH('a) \<Longrightarrow> (to_le_bytes v = to_le_bytes w) = (v = (w :: 'a::len word))"
  by (metis from_to_le_bytes)

lemma to_be_bytes_inj:
  "8 dvd LENGTH('a) \<Longrightarrow> (to_be_bytes v = to_be_bytes w) = (v = (w :: 'a::len word))"
  by (metis from_to_be_bytes)

lemma to_le_bytes_zero [simp]: "to_le_bytes (0 :: 'a::len word) = replicate (LENGTH('a) div 8) 0"
  by (simp add: to_le_bytes_def le_digits_zero)

lemma to_be_bytes_zero [simp]: "to_be_bytes (0 :: 'a::len word) = replicate (LENGTH('a) div 8) 0"
  by (simp add: to_be_bytes_def)

lemma unat_from_le_bytes:
  "8 * length bs \<le> LENGTH('a) \<Longrightarrow> unat (from_le_bytes bs :: 'a::len word) = of_le_digits bs"
proof -
  assume le: "8 * length bs \<le> LENGTH('a)"
  have "of_le_digits bs < 256 ^ length bs" by (rule of_le_digits_less)
  also have "\<dots> = 2 ^ (8 * length bs)" by (simp add: power_mult)
  also have "\<dots> \<le> 2 ^ LENGTH('a)" using le by (rule power_increasing) simp
  finally show ?thesis by (simp add: from_le_bytes_def unat_word_of_nat)
qed

section \<open>Byte-wise comparison\<close>

lemma bytes_less_append_same [simp]: "(xs @ ys < xs @ zs) = (ys < (zs :: bytes))"
  by (induction xs) auto

lemma bytes_less_append_eqlen:
  "length xs = length xs' \<Longrightarrow>
    ((xs :: bytes) @ ys < xs' @ ys') = (xs < xs' \<or> xs = xs' \<and> ys < ys')"
  by (induction xs xs' rule: list_induct2) auto

lemma rev_le_digits_less:
  "length xs = length ys \<Longrightarrow> (rev xs < rev ys) = (of_le_digits xs < of_le_digits ys)"
proof (induction xs ys rule: list_induct2)
  case Nil
  show ?case by simp
next
  case (Cons x xs y ys)
  have bx: "unat x < 256" and by': "unat y < 256" by (simp_all only: unat_byte_less)
  have eq: "(rev xs = rev ys) = (of_le_digits xs = of_le_digits ys)"
    using Cons.hyps by (metis le_digits_of_le_digits rev_rev_ident)
  have "(rev (x # xs) < rev (y # ys)) = (rev xs < rev ys \<or> rev xs = rev ys \<and> x < y)"
    using Cons.hyps by (simp add: bytes_less_append_eqlen)
  also have "\<dots> = (of_le_digits xs < of_le_digits ys
      \<or> of_le_digits xs = of_le_digits ys \<and> unat x < unat y)"
    by (simp only: Cons.IH eq word_less_nat_alt)
  also have "\<dots> = (of_le_digits (x # xs) < of_le_digits (y # ys))"
    using bx by' unfolding of_le_digits.simps by linarith
  finally show ?case .
qed

lemma to_be_bytes_less:
  "8 dvd LENGTH('a) \<Longrightarrow> (to_be_bytes v < to_be_bytes w) = (v < (w :: 'a::len word))"
proof -
  assume d: "8 dvd LENGTH('a)"
  have "of_le_digits (to_le_bytes u) = unat (u :: 'a word)" for u
    using d by (simp add: to_le_bytes_def of_le_digits_le_digits base256_power
        unat_mod_self)
  then show ?thesis
    by (simp add: to_be_bytes_def rev_le_digits_less word_less_nat_alt)
qed

end
