(* ===== verification/Codec.thy ===== *)
theory Codec
  imports Endian
begin

text \<open>
  The contracts that every codec of the substrate offers to its clients. A codec never
  loses an encodable value; a canonical codec, besides, accepts no bytes but the ones the
  encoder writes; a memcomparable codec preserves an order of values under byte
  comparison. The component theories interpret these locales on their own encoders and
  decoders.
\<close>

locale codec =
  fixes wf :: "'a \<Rightarrow> bool"
    and enc :: "'a \<Rightarrow> 'e + 'b"
    and dec :: "'b \<Rightarrow> 'f + 'a"
  assumes dec_enc: "wf x \<Longrightarrow> enc x = Inr b \<Longrightarrow> dec b = Inr x"
begin

lemma enc_inj: "wf x \<Longrightarrow> wf y \<Longrightarrow> enc x = Inr b \<Longrightarrow> enc y = Inr b \<Longrightarrow> x = y"
  by (metis dec_enc sum.inject(2))

end

locale canonical_codec = codec wf enc dec
  for wf :: "'a \<Rightarrow> bool" and enc :: "'a \<Rightarrow> 'e + 'b" and dec :: "'b \<Rightarrow> 'f + 'a" +
  assumes enc_dec: "dec b = Inr x \<Longrightarrow> wf x \<and> enc x = Inr b"
begin

lemma dec_iff: "(dec b = Inr x) = (wf x \<and> enc x = Inr b)"
  using dec_enc enc_dec by blast

lemma dec_inj: "dec b = Inr x \<Longrightarrow> dec c = Inr x \<Longrightarrow> b = c"
  by (metis enc_dec sum.inject(2))

lemma rejected: "(\<forall>x. wf x \<longrightarrow> enc x \<noteq> Inr b) \<Longrightarrow> \<exists>e. dec b = Inl e"
  by (cases "dec b") (auto dest: enc_dec)

end

locale memcomparable_codec = codec wf enc dec
  for wf :: "'a \<Rightarrow> bool" and enc :: "'a \<Rightarrow> 'e + bytes" and dec :: "bytes \<Rightarrow> 'f + 'a" +
  fixes lt :: "'a \<Rightarrow> 'a \<Rightarrow> bool"
  assumes enc_less: "wf x \<Longrightarrow> wf y \<Longrightarrow> enc x = Inr a \<Longrightarrow> enc y = Inr b \<Longrightarrow> (a < b) = lt x y"
begin

lemma lt_total:
  assumes "wf x" "wf y" "enc x = Inr a" "enc y = Inr b"
  shows "lt x y \<or> x = y \<or> lt y x"
proof (cases a b rule: linorder_cases)
  case less
  with assms show ?thesis by (simp add: enc_less)
next
  case equal
  with assms show ?thesis by (blast intro: enc_inj)
next
  case greater
  with enc_less [OF assms(2,1,4,3)] show ?thesis by simp
qed

lemma lt_trans:
  assumes "wf x" "wf y" "wf z" "enc x = Inr a" "enc y = Inr b" "enc z = Inr c"
    and "lt x y" "lt y z"
  shows "lt x z"
  using enc_less [OF assms(1,2,4,5)] enc_less [OF assms(2,3,5,6)] enc_less [OF assms(1,3,4,6)] assms(7,8)
  by (auto dest: less_trans)

lemma lt_irrefl: "wf x \<Longrightarrow> enc x = Inr a \<Longrightarrow> \<not> lt x x"
  using enc_less [of x x a a] by simp

end

end
