(* ===== verification/Identities.thy ===== *)
theory Identities
  imports Codec
begin

text \<open>
  Stable identities of the native substrate (\<^verbatim>\<open>crates/hyphae-native-types/src/lib.rs\<close>): the
  checked nonzero identities made by the macro \<^verbatim>\<open>nonzero_identity!\<close> with their order and
  successor, the directory UUID with its canonical text form, and the directory lineage
  with its 24-byte encoding.
\<close>

section \<open>Construction failures\<close>

datatype native_type_error =
    ZeroIdentity string
  | InvalidDecimalPrecision
  | InvalidDecimalScale
  | EmptyVector
  | InvalidTypeDescriptor
  | TypeNestingDepthExceeded
  | ScalarTypeMismatch
  | NullRequiresRowBitmap
  | InvalidScalarEncoding
  | ScalarOutOfRange
  | InvalidDirectoryUuid
  | InvalidLineageEncoding
  | UnsupportedOrderedType
  | UnsupportedScalarType
  | ScalarLengthExceeded

section \<open>Nonzero identities\<close>

text \<open>The standard library's \<^verbatim>\<open>NonZeroU32\<close>, \<^verbatim>\<open>NonZeroU64\<close> and \<^verbatim>\<open>NonZeroU128\<close>.\<close>

typedef (overloaded) 'a nonzero = "{w :: 'a::len word. w \<noteq> 0}"
  morphisms get Abs_nonzero
  by (rule exI [of _ 1]) simp

lemma nonzero_abstype [code abstype]: "Abs_nonzero (get i) = i"
  by (rule get_inverse)

text \<open>The identity of a nonzero value; \<open>identity_new\<close> calls it on nonzero values only.\<close>

definition nz :: "'a::len word \<Rightarrow> 'a nonzero" where
  "nz w = Abs_nonzero (if w = 0 then 1 else w)"

lemma get_nz [simp, code abstract]: "get (nz w) = (if w = 0 then 1 else w)"
  unfolding nz_def by (rule Abs_nonzero_inverse) simp

type_synonym object_id = "128 nonzero"
type_synonym row_id = "128 nonzero"
type_synonym blob_id = "128 nonzero"
type_synonym transaction_id = "128 nonzero"
type_synonym column_id = "32 nonzero"
type_synonym field_id = "32 nonzero"
type_synonym page_id = "64 nonzero"
type_synonym page_generation = "64 nonzero"
type_synonym history_epoch = "64 nonzero"
type_synonym catalog_version = "64 nonzero"
type_synonym manifest_generation = "64 nonzero"
type_synonym csn = "64 nonzero"
type_synonym lsn = "64 nonzero"

definition identity_new :: "string \<Rightarrow> 'a::len word \<Rightarrow> native_type_error + 'a nonzero" where
  "identity_new label value = (if value = 0 then Inl (ZeroIdentity label) else Inr (nz value))"

text \<open>\<^verbatim>\<open>FIRST\<close> of \<^verbatim>\<open>Csn\<close>, \<^verbatim>\<open>PageGeneration\<close> and \<^verbatim>\<open>HistoryEpoch\<close>: \<^verbatim>\<open>NonZeroU64::MIN\<close>.\<close>

definition FIRST :: "64 nonzero" where
  "FIRST = nz 1"

definition checked_next :: "64 nonzero \<Rightarrow> 64 nonzero option" where
  "checked_next i =
     (case checked_add (get i) 1 of
        None \<Rightarrow> None
      | Some v \<Rightarrow> if v = 0 then None else Some (nz v))"

text \<open>An optional identity is stored as its value, or as zero.\<close>

definition get_or_zero :: "'a::len nonzero option \<Rightarrow> 'a word" where
  "get_or_zero i = (case i of None \<Rightarrow> 0 | Some x \<Rightarrow> get x)"

definition nonzero_option :: "'a::len word \<Rightarrow> 'a nonzero option" where
  "nonzero_option w = (if w = 0 then None else Some (nz w))"

lemma get_nonzero [simp]: "get i \<noteq> 0"
  using get [of i] by simp

lemma nz_get [simp]: "nz (get i) = i"
  by (simp add: nz_def get_inverse)

declare get_inject [simp]

lemma nz_eq_iff: "v \<noteq> 0 \<Longrightarrow> w \<noteq> 0 \<Longrightarrow> (nz v = nz w) = (v = w)"
  by (metis get_nz)

lemma identity_new_Inr [result_simps]:
  "(identity_new label w = Inr i) = (w = get i)"
  by (auto simp: identity_new_def)

lemma identity_new_get [simp]: "identity_new label (get i) = Inr i"
  by (simp add: identity_new_def)

lemma get_FIRST [simp]: "get FIRST = 1"
  by (simp add: FIRST_def)

lemma nonzero_option_get_or_zero [simp]: "nonzero_option (get_or_zero i) = i"
  by (cases i) (auto simp: nonzero_option_def get_or_zero_def)

lemma get_or_zero_nonzero_option [simp]: "get_or_zero (nonzero_option w) = w"
  by (simp add: nonzero_option_def get_or_zero_def)

lemma get_or_zero_inj: "(get_or_zero i = get_or_zero j) = (i = j)"
  by (metis nonzero_option_get_or_zero)

instantiation nonzero :: (len) linorder
begin

definition less_eq_nonzero :: "'a nonzero \<Rightarrow> 'a nonzero \<Rightarrow> bool" where
  "less_eq_nonzero i j = (get i \<le> get j)"

definition less_nonzero :: "'a nonzero \<Rightarrow> 'a nonzero \<Rightarrow> bool" where
  "less_nonzero i j = (get i < get j)"

instance
  by standard (auto simp: less_eq_nonzero_def less_nonzero_def order_less_le)

end

instantiation nonzero :: (len) equal
begin

definition equal_nonzero :: "'a nonzero \<Rightarrow> 'a nonzero \<Rightarrow> bool" where
  "equal_nonzero i j = (get i = get j)"

instance
  by standard (simp add: equal_nonzero_def)

end

lemma FIRST_le [simp]: "FIRST \<le> i"
  using get_nonzero [of i]
  by (metis get_FIRST less_eq_nonzero_def linorder_not_less word_less_1)

lemma unat_get_pos [simp]: "0 < unat (get i)"
  using get_nonzero [of i] by (metis neq0_conv unat_eq_zero)

text \<open>The successor is the next value, and exists exactly below the maximum.\<close>

lemma checked_next_Some:
  "(checked_next i = Some j) = (unat (get j) = unat (get i) + 1)"
proof (cases "checked_add (get i) 1")
  case None
  then have "2 ^ 64 \<le> unat (get i) + 1" by (simp add: checked_add_None)
  moreover have "unat (get j) < 2 ^ 64" using unsigned_less [of "get j"] by simp
  ultimately show ?thesis using None by (simp add: checked_next_def)
next
  case (Some v)
  then have v: "unat v = unat (get i) + 1" by (simp add: checked_add_Some)
  then have "v \<noteq> 0" by auto
  then have "(checked_next i = Some j) = (v = get j)"
    using Some by (auto simp: checked_next_def)
  also have "\<dots> = (unat (get j) = unat (get i) + 1)"
    using v by (auto simp: word_unat_eq_iff)
  finally show ?thesis .
qed

lemma checked_next_greater: "checked_next i = Some j \<Longrightarrow> i < j"
  by (simp add: checked_next_Some less_nonzero_def word_less_nat_alt)

section \<open>Directory UUID\<close>

text \<open>
  \<^verbatim>\<open>DirectoryUuid([u8; 16])\<close>: sixteen bytes in network order. Text is the bytes of an ASCII
  string.
\<close>

type_synonym directory_uuid = bytes

definition directory_uuid_new :: "bytes \<Rightarrow> native_type_error + directory_uuid" where
  "directory_uuid_new bs =
     (if drop_bit 4 (bs ! 6) \<noteq> 7 \<or> (bs ! 8) AND 0xc0 \<noteq> 0x80 then Inl InvalidDirectoryUuid
      else Inr bs)"

definition decode_lower_hex :: "u8 \<Rightarrow> u8 option" where
  "decode_lower_hex value =
     (if 48 \<le> value \<and> value \<le> 57 then Some (value - 48)
      else if 97 \<le> value \<and> value \<le> 102 then Some (value - 97 + 10)
      else None)"

text \<open>\<^verbatim>\<open>(high << 4) | low\<close>.\<close>

definition join_nibbles :: "u8 \<Rightarrow> u8 \<Rightarrow> u8" where
  "join_nibbles high low = push_bit 4 high OR low"

text \<open>The loop over the 36 characters, from the character index \<open>source\<close>.\<close>

function parse_canonical_loop :: "bytes \<Rightarrow> nat \<Rightarrow> nat \<Rightarrow> bytes \<Rightarrow> native_type_error + bytes" where
  "parse_canonical_loop encoded source target bs =
     (if source < length encoded then
        if source \<in> {8, 13, 18, 23} then parse_canonical_loop encoded (source + 1) target bs
        else
          attempt (ok_or InvalidDirectoryUuid (decode_lower_hex (encoded ! source))) (\<lambda>high.
          attempt (ok_or InvalidDirectoryUuid (decode_lower_hex (encoded ! (source + 1)))) (\<lambda>low.
          parse_canonical_loop encoded (source + 2) (target + 1)
            (bs[target := join_nibbles high low])))
      else Inr bs)"
  by pat_completeness auto
termination
  by (relation "measure (\<lambda>(encoded, source, target, bs). length encoded - source)") auto

declare parse_canonical_loop.simps [simp del]

definition parse_canonical :: "bytes \<Rightarrow> native_type_error + directory_uuid" where
  "parse_canonical encoded =
     (if length encoded \<noteq> 36
         \<or> \<not> (encoded ! 8 = 45 \<and> encoded ! 13 = 45 \<and> encoded ! 18 = 45 \<and> encoded ! 23 = 45)
      then Inl InvalidDirectoryUuid
      else attempt (parse_canonical_loop encoded 0 0 (replicate 16 0)) directory_uuid_new)"

text \<open>\<^verbatim>\<open>{:02x}\<close> and the \<^verbatim>\<open>Display\<close> of a UUID.\<close>

definition hex_digit :: "u8 \<Rightarrow> u8" where
  "hex_digit n = (if n < 10 then n + 48 else n - 10 + 97)"

definition high_nibble :: "u8 \<Rightarrow> u8" where
  "high_nibble b = drop_bit 4 b"

definition low_nibble :: "u8 \<Rightarrow> u8" where
  "low_nibble b = b AND 15"

definition hex_byte :: "u8 \<Rightarrow> bytes" where
  "hex_byte b = [hex_digit (high_nibble b), hex_digit (low_nibble b)]"

definition display_uuid :: "directory_uuid \<Rightarrow> bytes" where
  "display_uuid bs =
     hex_byte (bs ! 0) @ hex_byte (bs ! 1) @ hex_byte (bs ! 2) @ hex_byte (bs ! 3) @ [45] @
     hex_byte (bs ! 4) @ hex_byte (bs ! 5) @ [45] @
     hex_byte (bs ! 6) @ hex_byte (bs ! 7) @ [45] @
     hex_byte (bs ! 8) @ hex_byte (bs ! 9) @ [45] @
     hex_byte (bs ! 10) @ hex_byte (bs ! 11) @ hex_byte (bs ! 12) @
     hex_byte (bs ! 13) @ hex_byte (bs ! 14) @ hex_byte (bs ! 15)"

definition valid_uuid :: "bytes \<Rightarrow> bool" where
  "valid_uuid bs = (length bs = 16 \<and> drop_bit 4 (bs ! 6) = 7 \<and> (bs ! 8) AND 0xc0 = 0x80)"

section \<open>Lineage\<close>

record lineage_identity =
  directory_uuid :: directory_uuid
  history_epoch :: "64 nonzero"

definition lineage_encode :: "lineage_identity \<Rightarrow> bytes" where
  "lineage_encode l = put 16 (to_le_bytes (get (history_epoch l)))
     (put 0 (directory_uuid l) (replicate 24 0))"

definition lineage_decode :: "bytes \<Rightarrow> native_type_error + lineage_identity" where
  "lineage_decode encoded =
     (if length encoded \<noteq> 24 then Inl InvalidLineageEncoding
      else
        attempt (map_err (\<lambda>_. InvalidLineageEncoding) (directory_uuid_new (seg 0 16 encoded)))
          (\<lambda>uuid.
        attempt (map_err (\<lambda>_. InvalidLineageEncoding)
            (identity_new ''history epoch'' (from_le_bytes (seg 16 24 encoded))))
          (\<lambda>epoch.
        Inr \<lparr>directory_uuid = uuid, history_epoch = epoch\<rparr>)))"

definition wf_lineage :: "lineage_identity \<Rightarrow> bool" where
  "wf_lineage l = valid_uuid (directory_uuid l)"

definition wf_lineage_option :: "lineage_identity option \<Rightarrow> bool" where
  "wf_lineage_option lineage = (case lineage of None \<Rightarrow> True | Some l \<Rightarrow> wf_lineage l)"

section \<open>UUID text is canonical\<close>

lemma decode_hex_digit [simp]: assumes "n < 16" shows "decode_lower_hex (hex_digit n) = Some n"
proof (cases "n < 10")
  case True
  then have "unat n < 10" by (simp add: word_less_nat_alt)
  then have "unat (n + 48) = unat n + 48" by (simp add: unat_add_small)
  with \<open>unat n < 10\<close> have "48 \<le> n + 48" "n + 48 \<le> 57" by (simp_all add: word_le_nat_alt)
  with True show ?thesis by (simp add: decode_lower_hex_def hex_digit_def)
next
  case False
  then have "10 \<le> unat n" "unat n < 16" using assms by (simp_all add: word_less_nat_alt)
  then have "unat (n + 87) = unat n + 87" by (simp add: unat_add_small)
  with \<open>10 \<le> unat n\<close> \<open>unat n < 16\<close> have "97 \<le> n + 87" "n + 87 \<le> 102" "\<not> n + 87 \<le> 57"
    by (simp_all add: word_le_nat_alt)
  with False show ?thesis by (simp add: decode_lower_hex_def hex_digit_def add.commute)
qed

lemma decode_lower_hex_Some: assumes "decode_lower_hex h = Some x" shows "x < 16 \<and> h = hex_digit x"
proof (cases "48 \<le> h \<and> h \<le> 57")
  case True
  then have h: "48 \<le> unat h" "unat h \<le> 57" by (simp_all add: word_le_nat_alt)
  have x: "x = h - 48" using True assms by (simp add: decode_lower_hex_def)
  have "unat x = unat h - 48" using h by (simp add: x unat_sub_small)
  with h x show ?thesis by (simp add: hex_digit_def word_less_nat_alt)
next
  case False
  with assms have r: "97 \<le> h" "h \<le> 102" and x: "x = h - 87"
    by (auto simp: decode_lower_hex_def split: if_splits)
  then have h: "97 \<le> unat h" "unat h \<le> 102" by (simp_all add: word_le_nat_alt)
  have "unat x = unat h - 87" using h by (simp add: x unat_sub_small)
  with h have "\<not> x < 10" "x < 16" by (auto simp: word_less_nat_alt)
  with x show ?thesis by (simp add: hex_digit_def)
qed

lemma low_nibble_take: "low_nibble b = take_bit 4 b"
  by (simp add: low_nibble_def take_bit_eq_mask mask_eq_exp_minus_1)

lemma nibbles_less [simp]: "high_nibble b < 16" "low_nibble b < 16"
proof -
  have "unat b < 256" by (rule unat_byte_less)
  then show "high_nibble b < 16"
    by (simp only: high_nibble_def word_less_nat_alt unat_drop_bit_eq) (simp add: drop_bit_eq_div)
  show "low_nibble b < 16"
    by (simp only: low_nibble_take word_less_nat_alt unsigned_take_bit_eq) (simp add: take_bit_eq_mod)
qed

lemma nibbles_join [simp]: "join_nibbles (high_nibble b) (low_nibble b) = b"
  unfolding low_nibble_take join_nibbles_def high_nibble_def
  by (rule bit_word_eqI) (auto simp: bit_simps not_le)

lemma nibbles_split:
  assumes "x < 16" and "y < 16"
  shows "high_nibble (join_nibbles x y) = x" and "low_nibble (join_nibbles x y) = y"
proof -
  have nib: "take_bit 4 z = z" if "z < 16" for z :: u8
    using that by (simp only: word_unat_eq_iff unsigned_take_bit_eq word_less_nat_alt)
      (simp add: take_bit_eq_mod)
  have bx: "bit x n \<Longrightarrow> n < 4" for n
    using nib [OF assms(1)] by (metis bit_take_bit_iff)
  have by': "bit y n \<Longrightarrow> n < 4" for n
    using nib [OF assms(2)] by (metis bit_take_bit_iff)
  show "high_nibble (join_nibbles x y) = x"
    unfolding high_nibble_def join_nibbles_def
    by (rule bit_word_eqI) (use bx in \<open>auto simp: bit_simps dest: by'\<close>)
  show "low_nibble (join_nibbles x y) = y"
    unfolding low_nibble_take join_nibbles_def
    by (rule bit_word_eqI) (auto simp: bit_simps dest: by')
qed

lemma hex_byte_decode:
  "decode_lower_hex h = Some x \<Longrightarrow> decode_lower_hex l = Some y \<Longrightarrow> hex_byte (join_nibbles x y) = [h, l]"
  by (auto simp: hex_byte_def nibbles_split dest!: decode_lower_hex_Some)

lemma parse_display:
  assumes "valid_uuid u" shows "parse_canonical (display_uuid u) = Inr u"
proof -
  have len: "length u = 16" using assms by (simp add: valid_uuid_def)
  have u: "u = map ((!) u) [0..<16]" using len by (metis map_nth)
  have "parse_canonical_loop (display_uuid u) 0 0 (replicate 16 0) = Inr (map ((!) u) [0..<16])"
    by (simp add: display_uuid_def hex_byte_def parse_canonical_loop.simps numeral_nat upt_rec_numeral)
  then show ?thesis
    using assms u by (simp add: parse_canonical_def directory_uuid_new_def valid_uuid_def
      display_uuid_def hex_byte_def)
qed

lemma display_parse:
  assumes "parse_canonical e = Inr u" shows "valid_uuid u \<and> display_uuid u = e"
proof -
  have len: "length e = 36" using assms by (auto simp: parse_canonical_def split: if_splits)
  have e: "e = map ((!) e) [0..<36]" using len by (metis map_nth)
  have h: "e ! 8 = 45" "e ! 13 = 45" "e ! 18 = 45" "e ! 23 = 45"
    using assms by (auto simp: parse_canonical_def split: if_splits)
  have p: "parse_canonical_loop e 0 0 (replicate 16 0) = Inr u" and n: "directory_uuid_new u = Inr u"
    using assms by (auto simp: parse_canonical_def directory_uuid_new_def result_simps split: if_splits)
  have "length u = 16 \<and> display_uuid u = map ((!) e) [0..<36]"
    using p h len by (auto simp: parse_canonical_loop.simps [of e] result_simps display_uuid_def 
     hex_byte_decode upt_rec_numeral numeral_nat)
  then show ?thesis using e n by (auto simp: valid_uuid_def directory_uuid_new_def split: if_splits)
qed
interpretation uuid_text: canonical_codec valid_uuid
  "\<lambda>u. Inr (display_uuid u) :: native_type_error + bytes" parse_canonical
  by unfold_locales (auto simp: parse_display display_parse)

text \<open>The text form of a directory UUID is canonical: the parser accepts a text exactly when
  it is the lowercase hyphenated rendering of a valid UUIDv7, and returns that UUID.\<close>

theorem uuid_text_canonical:
  "(parse_canonical encoded = Inr u) = (valid_uuid u \<and> encoded = display_uuid u)"
  using uuid_text.dec_iff [of encoded u] by auto

lemma length_lineage_encode [simp]: "wf_lineage l \<Longrightarrow> length (lineage_encode l) = 24"
  by (simp add: lineage_encode_def wf_lineage_def valid_uuid_def)

section \<open>The lineage codec is canonical\<close>

interpretation lineage: canonical_codec wf_lineage "\<lambda>l. Inr (lineage_encode l) :: native_type_error + bytes" lineage_decode
proof
  fix l b
  assume wf: "wf_lineage l" and "(Inr (lineage_encode l) :: native_type_error + bytes) = Inr b"
  then have b: "b = lineage_encode l" by simp
  show "lineage_decode b = Inr l"
    using wf unfolding b lineage_decode_def lineage_encode_def
    by (simp add: slice_simps wf_lineage_def valid_uuid_def directory_uuid_new_def)
next
  fix b l
  assume "lineage_decode b = Inr l"
  then obtain e where b: "length b = 24" "valid_uuid (seg 0 16 b)"
    and e: "from_le_bytes (seg 16 24 b) = get e"
    and l: "l = \<lparr>directory_uuid = seg 0 16 b, history_epoch = e\<rparr>"
    by (auto simp: lineage_decode_def result_simps directory_uuid_new_def valid_uuid_def
        split: if_splits)
  have "lineage_encode l = b"
  proof (rule seg_full [of 24, OF seg_join [of 0 16 _ _ 24]])
    show "seg 16 24 (lineage_encode l) = seg 16 24 b"
      using b(1) by (simp add: l lineage_encode_def slice_simps e [symmetric])
  qed (use b(1) in \<open>simp_all add: l lineage_encode_def slice_simps\<close>)
  with b(2) l show "wf_lineage l \<and> (Inr (lineage_encode l) :: native_type_error + bytes) = Inr b"
    by (simp add: wf_lineage_def)
qed

text \<open>The 24-byte lineage encoding is canonical: the decoder accepts exactly the encodings of
  lineages with a valid UUID and a nonzero epoch, and returns the encoded lineage.\<close>

theorem lineage_encoding_canonical:
  "(lineage_decode encoded = Inr l) = (wf_lineage l \<and> encoded = lineage_encode l)"
  using lineage.dec_iff [of encoded l] by auto

end
