(* ===== verification/LogicalTypes.thy ===== *)
theory LogicalTypes
  imports Identities
begin

text \<open>
  Logical types of the native engines and their self-delimiting descriptors
  (\<^verbatim>\<open>crates/hyphae-native-types/src/lib.rs\<close>, \<^verbatim>\<open>LogicalType::encode_descriptor\<close> and
  \<^verbatim>\<open>LogicalType::decode_descriptor\<close>).
\<close>

section \<open>Types\<close>

datatype engine_kind = Kernel | Relational | Structure | Search

datatype durability_class = Strict | Group | Memory

datatype integer_width = Bits8 | Bits16 | Bits32 | Bits64

record decimal_type =
  precision :: u8
  scale :: u8

datatype vector_element = Float32

record vector_type =
  element :: vector_element
  dimension :: u16

datatype logical_type =
    BooleanT
  | SignedT integer_width
  | UnsignedT integer_width
  | DecimalT decimal_type
  | Float32T
  | Float64T
  | TextT
  | BinaryT
  | DateT
  | TimeT
  | TimestampT
  | IntervalT
  | UuidT
  | JsonT
  | ArrayT logical_type
  | MapT logical_type logical_type
  | VectorT vector_type

text \<open>\<^verbatim>\<open>engine as u8\<close> and \<^verbatim>\<open>width as u8\<close>: the discriminants of the \<^verbatim>\<open>repr(u8)\<close> enumerations.\<close>

fun engine_code :: "engine_kind \<Rightarrow> u8" where
  "engine_code Kernel = 0"
| "engine_code Relational = 1"
| "engine_code Structure = 2"
| "engine_code Search = 3"

fun width_code :: "integer_width \<Rightarrow> u8" where
  "width_code Bits8 = 8"
| "width_code Bits16 = 16"
| "width_code Bits32 = 32"
| "width_code Bits64 = 64"

fun vector_element_code :: "vector_element \<Rightarrow> u8" where
  "vector_element_code Float32 = 1"

definition decimal_type_new :: "u8 \<Rightarrow> u8 \<Rightarrow> native_type_error + decimal_type" where
  "decimal_type_new p s =
     (if \<not> (1 \<le> p \<and> p \<le> 38) then Inl InvalidDecimalPrecision
      else if s > p then Inl InvalidDecimalScale
      else Inr \<lparr>precision = p, scale = s\<rparr>)"

definition vector_type_new :: "vector_element \<Rightarrow> u16 \<Rightarrow> native_type_error + vector_type" where
  "vector_type_new e d =
     (if d = 0 then Inl EmptyVector else Inr \<lparr>element = e, dimension = d\<rparr>)"

definition MAX_TYPE_NESTING :: nat where
  "MAX_TYPE_NESTING = 64"

section \<open>Descriptors\<close>

text \<open>
  \<open>encode_type_descriptor t depth\<close> is what the source appends to its output vector.
\<close>

primrec encode_type_descriptor :: "logical_type \<Rightarrow> nat \<Rightarrow> native_type_error + bytes" where
  "encode_type_descriptor BooleanT depth =
     (if depth > MAX_TYPE_NESTING then Inl TypeNestingDepthExceeded else Inr [1])"
| "encode_type_descriptor (SignedT w) depth =
     (if depth > MAX_TYPE_NESTING then Inl TypeNestingDepthExceeded else Inr [2, width_code w])"
| "encode_type_descriptor (UnsignedT w) depth =
     (if depth > MAX_TYPE_NESTING then Inl TypeNestingDepthExceeded else Inr [3, width_code w])"
| "encode_type_descriptor (DecimalT d) depth =
     (if depth > MAX_TYPE_NESTING then Inl TypeNestingDepthExceeded
      else Inr [4, precision d, scale d])"
| "encode_type_descriptor Float32T depth =
     (if depth > MAX_TYPE_NESTING then Inl TypeNestingDepthExceeded else Inr [5])"
| "encode_type_descriptor Float64T depth =
     (if depth > MAX_TYPE_NESTING then Inl TypeNestingDepthExceeded else Inr [6])"
| "encode_type_descriptor TextT depth =
     (if depth > MAX_TYPE_NESTING then Inl TypeNestingDepthExceeded else Inr [7])"
| "encode_type_descriptor BinaryT depth =
     (if depth > MAX_TYPE_NESTING then Inl TypeNestingDepthExceeded else Inr [8])"
| "encode_type_descriptor DateT depth =
     (if depth > MAX_TYPE_NESTING then Inl TypeNestingDepthExceeded else Inr [9])"
| "encode_type_descriptor TimeT depth =
     (if depth > MAX_TYPE_NESTING then Inl TypeNestingDepthExceeded else Inr [10])"
| "encode_type_descriptor TimestampT depth =
     (if depth > MAX_TYPE_NESTING then Inl TypeNestingDepthExceeded else Inr [11])"
| "encode_type_descriptor IntervalT depth =
     (if depth > MAX_TYPE_NESTING then Inl TypeNestingDepthExceeded else Inr [12])"
| "encode_type_descriptor UuidT depth =
     (if depth > MAX_TYPE_NESTING then Inl TypeNestingDepthExceeded else Inr [13])"
| "encode_type_descriptor JsonT depth =
     (if depth > MAX_TYPE_NESTING then Inl TypeNestingDepthExceeded else Inr [14])"
| "encode_type_descriptor (ArrayT e) depth =
     (if depth > MAX_TYPE_NESTING then Inl TypeNestingDepthExceeded
      else attempt (encode_type_descriptor e (depth + 1)) (\<lambda>out. Inr (15 # out)))"
| "encode_type_descriptor (MapT k v) depth =
     (if depth > MAX_TYPE_NESTING then Inl TypeNestingDepthExceeded
      else attempt (encode_type_descriptor k (depth + 1)) (\<lambda>key_out.
           attempt (encode_type_descriptor v (depth + 1)) (\<lambda>value_out.
           Inr (16 # key_out @ value_out))))"
| "encode_type_descriptor (VectorT vt) depth =
     (if depth > MAX_TYPE_NESTING then Inl TypeNestingDepthExceeded
      else Inr [17, vector_element_code (element vt),
                to_le_bytes (dimension vt) ! 0, to_le_bytes (dimension vt) ! 1])"

definition take_byte :: "bytes \<Rightarrow> nat \<Rightarrow> (u8 \<times> nat) option" where
  "take_byte encoded offset =
     (if offset < length encoded then Some (encoded ! offset, offset + 1) else None)"

definition take_exact :: "nat \<Rightarrow> bytes \<Rightarrow> nat \<Rightarrow> (bytes \<times> nat) option" where
  "take_exact n encoded offset =
     (if offset + n \<le> length encoded then Some (seg offset (offset + n) encoded, offset + n)
      else None)"

definition decode_integer_width :: "u8 \<Rightarrow> native_type_error + integer_width" where
  "decode_integer_width encoded =
     (if encoded = 8 then Inr Bits8
      else if encoded = 16 then Inr Bits16
      else if encoded = 32 then Inr Bits32
      else if encoded = 64 then Inr Bits64
      else Inl InvalidTypeDescriptor)"

function decode_type_descriptor ::
  "bytes \<Rightarrow> nat \<Rightarrow> nat \<Rightarrow> native_type_error + (logical_type \<times> nat)" where
  "decode_type_descriptor encoded offset depth =
     (if depth > MAX_TYPE_NESTING then Inl TypeNestingDepthExceeded
      else attempt (ok_or InvalidTypeDescriptor (take_byte encoded offset)) (\<lambda>(tag, offset).
        if tag = 1 then Inr (BooleanT, offset)
        else if tag = 2 then
          attempt (ok_or InvalidTypeDescriptor (take_byte encoded offset)) (\<lambda>(b, offset).
          attempt (decode_integer_width b) (\<lambda>w. Inr (SignedT w, offset)))
        else if tag = 3 then
          attempt (ok_or InvalidTypeDescriptor (take_byte encoded offset)) (\<lambda>(b, offset).
          attempt (decode_integer_width b) (\<lambda>w. Inr (UnsignedT w, offset)))
        else if tag = 4 then
          attempt (ok_or InvalidTypeDescriptor (take_byte encoded offset)) (\<lambda>(p, offset).
          attempt (ok_or InvalidTypeDescriptor (take_byte encoded offset)) (\<lambda>(s, offset).
          attempt (map_err (\<lambda>_. InvalidTypeDescriptor) (decimal_type_new p s)) (\<lambda>d.
          Inr (DecimalT d, offset))))
        else if tag = 5 then Inr (Float32T, offset)
        else if tag = 6 then Inr (Float64T, offset)
        else if tag = 7 then Inr (TextT, offset)
        else if tag = 8 then Inr (BinaryT, offset)
        else if tag = 9 then Inr (DateT, offset)
        else if tag = 10 then Inr (TimeT, offset)
        else if tag = 11 then Inr (TimestampT, offset)
        else if tag = 12 then Inr (IntervalT, offset)
        else if tag = 13 then Inr (UuidT, offset)
        else if tag = 14 then Inr (JsonT, offset)
        else if tag = 15 then
          attempt (decode_type_descriptor encoded offset (depth + 1)) (\<lambda>(e, offset).
          Inr (ArrayT e, offset))
        else if tag = 16 then
          attempt (decode_type_descriptor encoded offset (depth + 1)) (\<lambda>(k, offset).
          attempt (decode_type_descriptor encoded offset (depth + 1)) (\<lambda>(v, offset).
          Inr (MapT k v, offset)))
        else if tag = 17 then
          attempt (ok_or InvalidTypeDescriptor (take_byte encoded offset)) (\<lambda>(e, offset).
          if e \<noteq> vector_element_code Float32 then Inl InvalidTypeDescriptor
          else
            attempt (ok_or InvalidTypeDescriptor (take_exact 2 encoded offset)) (\<lambda>(d, offset).
            attempt (map_err (\<lambda>_. InvalidTypeDescriptor) (vector_type_new Float32 (from_le_bytes d)))
              (\<lambda>vt. Inr (VectorT vt, offset))))
        else Inl InvalidTypeDescriptor))"
  by pat_completeness auto
termination
  by (relation "measure (\<lambda>(encoded, offset, depth). 65 - depth)")
    (auto simp: MAX_TYPE_NESTING_def)

declare decode_type_descriptor.simps [simp del]

definition encode_descriptor :: "logical_type \<Rightarrow> native_type_error + bytes" where
  "encode_descriptor t = encode_type_descriptor t 0"

definition decode_descriptor :: "bytes \<Rightarrow> native_type_error + logical_type" where
  "decode_descriptor encoded =
     attempt (decode_type_descriptor encoded 0 0) (\<lambda>(decoded, offset).
     if offset \<noteq> length encoded then Inl InvalidTypeDescriptor else Inr decoded)"

text \<open>
  The parameters that the constructors of \<^verbatim>\<open>DecimalType\<close> and \<^verbatim>\<open>VectorType\<close> admit, and the
  nesting of a type.
\<close>

primrec wf_logical :: "logical_type \<Rightarrow> bool" where
  "wf_logical BooleanT = True"
| "wf_logical (SignedT w) = True"
| "wf_logical (UnsignedT w) = True"
| "wf_logical (DecimalT d) = (1 \<le> precision d \<and> precision d \<le> 38 \<and> scale d \<le> precision d)"
| "wf_logical Float32T = True"
| "wf_logical Float64T = True"
| "wf_logical TextT = True"
| "wf_logical BinaryT = True"
| "wf_logical DateT = True"
| "wf_logical TimeT = True"
| "wf_logical TimestampT = True"
| "wf_logical IntervalT = True"
| "wf_logical UuidT = True"
| "wf_logical JsonT = True"
| "wf_logical (ArrayT e) = wf_logical e"
| "wf_logical (MapT k v) = (wf_logical k \<and> wf_logical v)"
| "wf_logical (VectorT vt) = (dimension vt \<noteq> 0)"

primrec type_nesting :: "logical_type \<Rightarrow> nat" where
  "type_nesting BooleanT = 0"
| "type_nesting (SignedT w) = 0"
| "type_nesting (UnsignedT w) = 0"
| "type_nesting (DecimalT d) = 0"
| "type_nesting Float32T = 0"
| "type_nesting Float64T = 0"
| "type_nesting TextT = 0"
| "type_nesting BinaryT = 0"
| "type_nesting DateT = 0"
| "type_nesting TimeT = 0"
| "type_nesting TimestampT = 0"
| "type_nesting IntervalT = 0"
| "type_nesting UuidT = 0"
| "type_nesting JsonT = 0"
| "type_nesting (ArrayT e) = type_nesting e + 1"
| "type_nesting (MapT k v) = max (type_nesting k) (type_nesting v) + 1"
| "type_nesting (VectorT vt) = 0"

section \<open>Descriptors are canonical\<close>

lemma take_byte_Cons: "drop off enc = x # r \<Longrightarrow> take_byte enc off = Some (x, Suc off)"
  by (simp add: take_byte_def drop_nth_Cons)

lemma take_byte_Some:
  "take_byte enc off = Some (x, off') \<Longrightarrow> off' = Suc off \<and> drop off enc = x # drop (Suc off) enc"
  by (auto simp: take_byte_def Cons_nth_drop_Suc split: if_splits)

lemma take_exact_append:
  "drop off enc = bs @ r \<Longrightarrow> bs \<noteq> [] \<Longrightarrow> n = length bs \<Longrightarrow> take_exact n enc off = Some (bs, off + n)"
  using drop_append_length [of off enc bs r] by (simp add: take_exact_def seg_def)

lemma take_exact_Some:
  assumes "take_exact n enc off = Some (bs, off')"
  shows "off' = off + n \<and> length bs = n \<and> drop off enc = bs @ drop (off + n) enc"
proof -
  have "take n (drop off enc) @ drop n (drop off enc) = drop off enc"
    by (rule append_take_drop_id)
  then show ?thesis
    using assms by (auto simp: take_exact_def seg_def add.commute split: if_splits)
qed

lemma decode_width_code [simp]: "decode_integer_width (width_code w) = Inr w"
  by (cases w) (simp_all add: decode_integer_width_def)

lemma decode_integer_width_Inr: "decode_integer_width b = Inr w \<Longrightarrow> b = width_code w"
  by (auto simp: decode_integer_width_def split: if_splits)

lemma decimal_type_new_Inr [result_simps]: "(decimal_type_new p s = Inr d) = (wf_logical (DecimalT d) \<and> p = precision d \<and> s = scale d)"
  by (cases d) (auto simp: decimal_type_new_def not_le not_less word_ge_one)

lemma vector_type_new_Inr [result_simps]: "(vector_type_new e n = Inr v) = (dimension v \<noteq> 0 \<and> e = element v \<and> n = dimension v)"
  by (cases v) (auto simp: vector_type_new_def)

lemma u16_le_two: "[to_le_bytes (w :: u16) ! 0, to_le_bytes w ! 1] = to_le_bytes w"
  by (rule nth_equalityI) (auto simp: less_Suc_eq nth_Cons')

lemma decode_encode_descriptor_at:
  assumes "wf_logical t" and "encode_type_descriptor t d = Inr out" and "drop off enc = out @ post"
  shows "decode_type_descriptor enc off d = Inr (t, off + length out)"
  using assms
proof (induction t arbitrary: d out off post)
  case (ArrayT e)
  then obtain eo where eo: "\<not> d > MAX_TYPE_NESTING" "encode_type_descriptor e (Suc d) = Inr eo" "out = 15 # eo"
    by (auto simp: result_simps split: if_splits)
  with ArrayT.prems have "drop off enc = 15 # eo @ post" by simp
  note tb = take_byte_Cons [OF this] and dr = drop_Suc_Cons [OF this]
  have "decode_type_descriptor enc (Suc off) (Suc d) = Inr (e, Suc off + length eo)"
    using ArrayT.IH ArrayT.prems(1) eo(2) dr by simp
  with eo tb show ?case by (subst decode_type_descriptor.simps) simp
next
  case (MapT k v)
  then obtain ko vo where o: "\<not> d > MAX_TYPE_NESTING" "encode_type_descriptor k (Suc d) = Inr ko"
    "encode_type_descriptor v (Suc d) = Inr vo" "out = 16 # ko @ vo"
    by (auto simp: result_simps split: if_splits)
  with MapT.prems have "drop off enc = 16 # ko @ vo @ post" by simp
  note tb = take_byte_Cons [OF this] and dr = drop_Suc_Cons [OF this]
  have k: "decode_type_descriptor enc (Suc off) (Suc d) = Inr (k, Suc off + length ko)"
    using MapT.IH(1) MapT.prems(1) o(2) dr by simp
  have "drop (Suc off + length ko) enc = vo @ post"
    using dr by (rule drop_add_append)
  then have "decode_type_descriptor enc (Suc off + length ko) (Suc d) = Inr (v, Suc off + length ko + length vo)"
    using MapT.IH(2) MapT.prems(1) o(3) by simp
  with o tb k show ?case by (subst decode_type_descriptor.simps) (simp add: add.assoc)
next
  case (DecimalT x)
  then have p: "drop off enc = 4 # precision x # scale x # post" "out = [4, precision x, scale x]" "\<not> d > MAX_TYPE_NESTING"
    by (auto split: if_splits)
  note d1 = drop_Suc_Cons [OF p(1)] 
  note d2 = drop_Suc_Cons [OF d1]
  show ?case using DecimalT.prems(1) p(2,3) take_byte_Cons [OF p(1)] take_byte_Cons [OF d1] take_byte_Cons [OF d2]
    by (subst decode_type_descriptor.simps) (simp add: decimal_type_new_def not_less)
next
  case (VectorT x)
  then have p: "drop off enc = 17 # vector_element_code (element x) # to_le_bytes (dimension x) @ post" 
      "out = 17 # vector_element_code (element x) # to_le_bytes (dimension x)" "\<not> d > MAX_TYPE_NESTING"
    using u16_le_two [of "dimension x"] by (auto split: if_splits)
  note d1 = drop_Suc_Cons [OF p(1)] 
  note d2 = drop_Suc_Cons [OF d1]
  have "take_exact 2 enc (Suc (Suc off)) = Some (to_le_bytes (dimension x), Suc (Suc off) + 2)"
    using d2 by (rule take_exact_append) (simp_all flip: length_0_conv)
  moreover have "element x = Float32" by (cases "element x") simp
  ultimately show ?case using VectorT.prems(1) p(2,3) take_byte_Cons [OF p(1)] take_byte_Cons [OF d1]
    by (subst decode_type_descriptor.simps) (simp add: vector_type_new_def)
next
  case (SignedT w)
  then have p: "drop off enc = 2 # width_code w # post" "out = [2, width_code w]" "\<not> d > MAX_TYPE_NESTING"
    by (auto split: if_splits)
  note d1 = drop_Suc_Cons [OF p(1)] 
  show ?case using p(2,3) take_byte_Cons [OF p(1)] take_byte_Cons [OF d1] 
    by (subst decode_type_descriptor.simps) simp
next
  case (UnsignedT w)
  then have p: "drop off enc = 3 # width_code w # post" "out = [3, width_code w]" "\<not> d > MAX_TYPE_NESTING"
    by (auto split: if_splits)
  note d1 = drop_Suc_Cons [OF p(1)] 
  show ?case using p(2,3) take_byte_Cons [OF p(1)] take_byte_Cons [OF d1] 
    by (subst decode_type_descriptor.simps) simp
qed (auto dest!: take_byte_Cons simp: decode_type_descriptor.simps split: if_splits)

text \<open>What a successful decoding at an offset has read: the encoding of a well-formed type.\<close>

definition sound_at :: "bytes \<Rightarrow> nat \<Rightarrow> nat \<Rightarrow> logical_type \<Rightarrow> nat \<Rightarrow> bool" where
  "sound_at enc off d t off' = (wf_logical t \<and> (\<exists>out. encode_type_descriptor t d = Inr out
     \<and> off' = off + length out \<and> drop off enc = out @ drop off' enc))"

lemma sound_atI:
  "wf_logical t \<Longrightarrow> encode_type_descriptor t d = Inr out \<Longrightarrow> off' = off + length out
    \<Longrightarrow> drop off enc = out @ drop off' enc \<Longrightarrow> sound_at enc off d t off'"
  by (auto simp: sound_at_def)

lemma decode_descriptor_sound:
  "decode_type_descriptor enc off d = Inr (t, off') \<Longrightarrow> sound_at enc off d t off'"
proof (induction "65 - d" arbitrary: off d t off' rule: less_induct)
  case less
  note dec = less.prems
  have d: "\<not> d > MAX_TYPE_NESTING"
    using dec by (auto simp: decode_type_descriptor.simps [of enc off d] split: if_splits)
  then have IH: "decode_type_descriptor enc p (Suc d) = Inr (e, p') \<Longrightarrow> sound_at enc p (Suc d) e p'" for p e p'
    using less.hyps by (simp add: MAX_TYPE_NESTING_def)
  from dec d obtain tag where tb: "take_byte enc off = Some (tag, Suc off)"
    by (auto simp: decode_type_descriptor.simps [of enc off d] result_simps dest: take_byte_Some split: if_splits)
  then have dr: "drop off enc = tag # drop (Suc off) enc" by (auto dest: take_byte_Some)
  note dec' = dec [unfolded decode_type_descriptor.simps [of enc off d], simplified d tb, simplified]
  consider "tag = 15" | "tag = 16" | "tag = 17" | "tag = 2 \<or> tag = 3" | "tag = 4" | "tag \<notin> {2, 3, 4, 15, 16, 17}" by blast
  then show ?case 
  proof cases
    case 1
    then obtain e where e: "decode_type_descriptor enc (Suc off) (Suc d) = Inr (e, off')" "t = ArrayT e"
      using dec' by (auto simp: result_simps)
    from IH [OF this(1)] 1 e(2) dr d show ?thesis by (auto simp: sound_at_def)
  next
    case 2
    then obtain k p v where e: "decode_type_descriptor enc (Suc off) (Suc d) = Inr (k, p)" 
      "decode_type_descriptor enc p (Suc d) = Inr (v, off')" "t = MapT k v"
      using dec' by (auto simp: result_simps)
    from IH [OF e(1)] IH [OF e(2)] 2 e(3) dr d show ?thesis by (auto simp: sound_at_def)
  next
    case 3
    with dec' dr obtain vt a where vt: "wf_logical (VectorT vt)" "t = VectorT vt" "length a = 2"
      "from_le_bytes a = dimension vt" "off' = Suc (Suc (Suc (Suc off)))"
      "drop off enc = 17 # 1 # a @ drop off' enc"
      by (auto simp: result_simps dest!: take_byte_Some take_exact_Some split: if_splits)
    have a: "to_le_bytes (dimension vt) = a" using vt(3) by (simp flip: vt(4))
    have "element vt = Float32" by (cases "element vt") simp
    then have "encode_type_descriptor t d = Inr (17 # 1 # a)"
      using vt(2) d u16_le_two [of "dimension vt"] a by simp
    then show ?thesis
      by (rule sound_atI [rotated]) (use vt(3,5) in simp, use vt(6) in simp, use vt(1,2) in simp)
  next
    case 4
    with dec' dr d show ?thesis
      by (auto simp: sound_at_def result_simps dest!: take_byte_Some decode_integer_width_Inr)
  next
    case 5
    with dec' dr d show ?thesis
      by (auto simp: sound_at_def result_simps word_ge_one dest!: take_byte_Some)
  next
    case 6
    with dec' dr d show ?thesis
      by (auto simp: sound_at_def split: if_splits)
  qed
qed

lemma encode_type_descriptor_total:
  "encode_type_descriptor t d =
    (if d + type_nesting t \<le> MAX_TYPE_NESTING then encode_type_descriptor t d
     else Inl TypeNestingDepthExceeded)
   \<and> (d + type_nesting t \<le> MAX_TYPE_NESTING \<longrightarrow> (\<exists>out. encode_type_descriptor t d = Inr out))"
proof (induction t arbitrary: d)
  case (ArrayT e)
  show ?case using ArrayT.IH [of "Suc d"] by (auto split: if_splits)
next
  case (MapT k v)
  show ?case
    using MapT.IH(1) [of "Suc d"] MapT.IH(2) [of "Suc d"] by (auto split: if_splits)
qed auto

interpretation descriptor: canonical_codec wf_logical encode_descriptor decode_descriptor
proof
  fix t b
  assume "wf_logical t" and "encode_descriptor t = Inr b"
  then have "decode_type_descriptor b 0 0 = Inr (t, 0 + length b)"
    by (intro decode_encode_descriptor_at [where post = "[]"]) (simp_all add: encode_descriptor_def)
  then show "decode_descriptor b = Inr t" by (simp add: decode_descriptor_def)
next
  fix b t
  assume "decode_descriptor b = Inr t"
  then have "decode_type_descriptor b 0 0 = Inr (t, length b)"
    by (auto simp: decode_descriptor_def result_simps split: if_splits)
  from decode_descriptor_sound [OF this] show "wf_logical t \<and> encode_descriptor t = Inr b"
    by (auto simp: sound_at_def encode_descriptor_def)
qed

text \<open>C10. Logical-type descriptors are canonical: the decoder accepts bytes exactly when they are
  the descriptor of a well-formed type, with nothing after it, and returns that type.\<close>

theorem descriptor_canonical:
  "(decode_descriptor encoded = Inr t) = (wf_logical t \<and> encode_descriptor t = Inr encoded)"
  by (rule descriptor.dec_iff)

text \<open>The encoder of descriptors fails exactly on types nested deeper than 64, and then with
  the nesting error.\<close>

theorem descriptor_nesting_bound:
  "(if type_nesting t \<le> 64 then \<exists>out. encode_descriptor t = Inr out
    else encode_descriptor t = Inl TypeNestingDepthExceeded)"
  using encode_type_descriptor_total [of t 0]
  by (auto simp: encode_descriptor_def MAX_TYPE_NESTING_def split: if_splits)

end
