(* ===== verification/MemComparable.thy ===== *)
theory MemComparable
  imports Identities
begin

text \<open>
  The escaped byte strings of ordered index components
  (\<^verbatim>\<open>crates/hyphae-native-types/src/lib.rs\<close>, \<^verbatim>\<open>encode_memcomparable_bytes\<close>,
  \<^verbatim>\<open>decode_memcomparable_bytes\<close>, \<^verbatim>\<open>memcomparable_component_end\<close>): a zero byte is written
  \<^verbatim>\<open>00 ff\<close> and the string ends with \<^verbatim>\<open>00 00\<close>, so that byte comparison of whole encodings,
  with whatever follows them, is comparison of the strings first.
\<close>

section \<open>Definitions\<close>

definition MAX_SCALAR_BYTES :: nat where
  "MAX_SCALAR_BYTES = 16 * 1024 * 1024"

definition MAX_ORDERED_SCALAR_BYTES :: nat where
  "MAX_ORDERED_SCALAR_BYTES = MAX_SCALAR_BYTES * 2 + 3"

definition ensure_scalar_length :: "nat \<Rightarrow> native_type_error + unit" where
  "ensure_scalar_length n = (if n > MAX_SCALAR_BYTES then Inl ScalarLengthExceeded else Inr ())"

fun escaped_length :: "bytes \<Rightarrow> nat" where
  "escaped_length [] = 2"
| "escaped_length (b # bs) = (if b = 0 then 2 else 1) + escaped_length bs"

fun escape_bytes :: "bytes \<Rightarrow> bytes" where
  "escape_bytes [] = [0, 0]"
| "escape_bytes (b # bs) = (if b = 0 then [0, 0xff] else [b]) @ escape_bytes bs"

definition encode_memcomparable_bytes :: "bytes \<Rightarrow> native_type_error + bytes" where
  "encode_memcomparable_bytes value =
     (if escaped_length value \<ge> MAX_ORDERED_SCALAR_BYTES then Inl ScalarLengthExceeded
      else Inr (escape_bytes value))"

text \<open>
  The decoding loop over the bytes that remain from \<^verbatim>\<open>offset\<close>, with the bytes decoded so far.
  The length check at the end of the loop body is reached after an escaped zero only.
\<close>

fun decode_memcomparable_loop :: "bytes \<Rightarrow> bytes \<Rightarrow> native_type_error + bytes" where
  "decode_memcomparable_loop [] decoded = Inl InvalidScalarEncoding"
| "decode_memcomparable_loop (b # rest) decoded =
     (if b \<noteq> 0 then decode_memcomparable_loop rest (decoded @ [b])
      else case rest of
          [] \<Rightarrow> Inl InvalidScalarEncoding
        | e # rest' \<Rightarrow>
            if e = 0 \<and> rest' = [] then
              attempt (ensure_scalar_length (length decoded)) (\<lambda>_. Inr decoded)
            else if e = 0xff then
              if length (decoded @ [0]) > MAX_SCALAR_BYTES then Inl ScalarLengthExceeded
              else decode_memcomparable_loop rest' (decoded @ [0])
            else Inl InvalidScalarEncoding)"

definition decode_memcomparable_bytes :: "bytes \<Rightarrow> native_type_error + bytes" where
  "decode_memcomparable_bytes encoded = decode_memcomparable_loop encoded []"

fun memcomparable_end_loop :: "bytes \<Rightarrow> nat \<Rightarrow> native_type_error + nat" where
  "memcomparable_end_loop [] offset = Inl InvalidScalarEncoding"
| "memcomparable_end_loop (b # rest) offset =
     (if b \<noteq> 0 then memcomparable_end_loop rest (offset + 1)
      else case rest of
          [] \<Rightarrow> Inl InvalidScalarEncoding
        | e # rest' \<Rightarrow>
            if e = 0 then Inr (offset + 2)
            else if e = 0xff then memcomparable_end_loop rest' (offset + 2)
            else Inl InvalidScalarEncoding)"

definition memcomparable_component_end :: "bytes \<Rightarrow> native_type_error + nat" where
  "memcomparable_component_end encoded = memcomparable_end_loop encoded 0"

section \<open>Round trip and self-delimitation\<close>

lemma ensure_scalar_length_Inr [result_simps]:
  "(ensure_scalar_length n = Inr u) = (n \<le> MAX_SCALAR_BYTES)"
  by (auto simp: ensure_scalar_length_def)

lemma length_escape_bytes [simp]: "length (escape_bytes bs) = escaped_length bs"
  by (induction bs) auto

lemma escaped_length_bounds: "length bs + 2 \<le> escaped_length bs" "escaped_length bs \<le> 2 * length bs + 2"
  by (induction bs) auto

lemma decode_loop_escape:
  "length (decoded @ bs) \<le> MAX_SCALAR_BYTES
    \<Longrightarrow> decode_memcomparable_loop (escape_bytes bs) decoded = Inr (decoded @ bs)"
  by (induction bs arbitrary: decoded) (auto simp: ensure_scalar_length_def)

lemma decode_loop_sound:
  "decode_memcomparable_loop enc decoded = Inr out
    \<Longrightarrow> \<exists>bs. out = decoded @ bs \<and> enc = escape_bytes bs \<and> length out \<le> MAX_SCALAR_BYTES"
proof (induction enc decoded rule: decode_memcomparable_loop.induct)
  case (1 decoded)
  then show ?case by simp
next
  case (2 b rest decoded)
  show ?case
  proof (cases "b = 0")
    case False
    with "2.prems" "2.IH"(1) obtain bs where
      "out = decoded @ b # bs" "rest = escape_bytes bs" "length out \<le> MAX_SCALAR_BYTES"
      by auto
    with False show ?thesis by (intro exI [of _ "b # bs"]) simp
  next
    case True
    with "2.prems" obtain e rest' where rest: "rest = e # rest'" by (cases rest) auto
    show ?thesis
    proof (cases "e = 0 \<and> rest' = []")
      case True
      with "2.prems" \<open>b = 0\<close> rest show ?thesis
        by (intro exI [of _ "[]"]) (auto simp: result_simps)
    next
      case F: False
      with "2.prems" True rest have e: "e = 0xff" "\<not> length (decoded @ [0]) > MAX_SCALAR_BYTES"
        and "decode_memcomparable_loop rest' (decoded @ [0]) = Inr out"
        by (auto split: if_splits)
      with "2.IH"(2) [of e rest'] F True rest obtain bs where
        "out = (decoded @ [0]) @ bs" "rest' = escape_bytes bs" "length out \<le> MAX_SCALAR_BYTES"
        by auto
      with True rest e show ?thesis by (intro exI [of _ "0 # bs"]) simp
    qed
  qed
qed

lemma end_loop_escape:
  "memcomparable_end_loop (escape_bytes bs @ rest) offset = Inr (offset + escaped_length bs)"
  by (induction bs arbitrary: offset) auto

lemma component_end_escape [simp]:
  "memcomparable_component_end (escape_bytes bs @ rest) = Inr (escaped_length bs)"
  by (simp add: memcomparable_component_end_def end_loop_escape)

lemma end_loop_bound: "memcomparable_end_loop enc offset = Inr n \<Longrightarrow> offset + 2 \<le> n \<and> n \<le> offset + length enc"
proof (induction enc offset rule: memcomparable_end_loop.induct)
  case (1 offset)
  then show ?case by simp
next
  case (2 b rest offset)
  then show ?case by (cases rest) (fastforce split: if_splits)+
qed

lemma decode_memcomparable_iff:
  "(decode_memcomparable_bytes enc = Inr bs) = (enc = escape_bytes bs \<and> length bs \<le> MAX_SCALAR_BYTES)"
  unfolding decode_memcomparable_bytes_def
  using decode_loop_escape [of "[]" bs] decode_loop_sound [of enc "[]" bs] by auto

lemma encode_memcomparable_small:
  "length bs \<le> MAX_SCALAR_BYTES \<Longrightarrow> encode_memcomparable_bytes bs = Inr (escape_bytes bs)"
  using escaped_length_bounds(2) [of bs]
  by (simp add: encode_memcomparable_bytes_def MAX_ORDERED_SCALAR_BYTES_def)

lemma encode_memcomparable_Inr:
  "encode_memcomparable_bytes bs = Inr enc \<Longrightarrow> enc = escape_bytes bs"
  by (simp add: encode_memcomparable_bytes_def split: if_splits)

section \<open>Order\<close>

lemma escape_bytes_less:
  "(escape_bytes a @ x < escape_bytes b @ y) = (a < b \<or> a = b \<and> x < y)"
proof (induction a arbitrary: b)
  case Nil
  show ?case by (cases b) (auto simp: word_gt_0)
next
  case (Cons c a)
  show ?case
  proof (cases b)
    case Nil
    have "\<not> c < 0" by simp
    with Nil show ?thesis by auto
  next
    case (Cons d b')
    with Cons.IH [of b'] show ?thesis
      by (cases "c = 0"; cases "d = 0") (auto simp: word_gt_0)
  qed
qed

lemma escape_bytes_inject [simp]: "(escape_bytes a = escape_bytes b) = (a = b)"
proof
  assume eq: "escape_bytes a = escape_bytes b"
  show "a = b"
    using escape_bytes_less [of a "[]" b "[]"] escape_bytes_less [of b "[]" a "[]"] eq
    by (metis less_irrefl linorder_neqE)
qed simp

lemma escape_bytes_less_iff [simp]: "(escape_bytes a < escape_bytes b) = (a < b)"
  using escape_bytes_less [of a "[]" b "[]"] by simp

text \<open>A nonempty string sorts after the end marker of the list that would hold it.\<close>

lemma end_marker_less: "a \<noteq> [] \<Longrightarrow> [0, 0] < escape_bytes a @ x \<and> \<not> escape_bytes a @ x < [0, 0]"
  using escape_bytes_less [of "[]" "[]" a x] escape_bytes_less [of a x "[]" "[]"]
  by (cases a) auto

interpretation memcomparable_bytes: memcomparable_codec
  "\<lambda>bs. length bs \<le> MAX_SCALAR_BYTES" encode_memcomparable_bytes decode_memcomparable_bytes "(<)"
  by unfold_locales
    (auto simp: encode_memcomparable_small decode_memcomparable_iff dest!: encode_memcomparable_Inr)

interpretation memcomparable_canonical: canonical_codec
  "\<lambda>bs. length bs \<le> MAX_SCALAR_BYTES" encode_memcomparable_bytes decode_memcomparable_bytes
  by unfold_locales (auto simp: encode_memcomparable_small decode_memcomparable_iff)

text \<open>C11. Escaped byte strings are self-delimiting and order preserving: a decoder that reads a
  longer buffer finds exactly where the first string ends, and comparing two buffers that
  start with escaped strings compares the strings first and then the bytes after them.\<close>

theorem memcomparable_prefix_order:
  assumes "encode_memcomparable_bytes a = Inr ea" and "encode_memcomparable_bytes b = Inr eb"
  shows "memcomparable_component_end (ea @ x) = Inr (length ea)
    \<and> (ea @ x < eb @ y) = (a < b \<or> a = b \<and> x < y)"
  using assms by (auto dest!: encode_memcomparable_Inr simp: escape_bytes_less)

theorem memcomparable_prefix_order_witness:
  "encode_memcomparable_bytes [1, 0] = Inr [1, 0, 0xff, 0, 0]
   \<and> encode_memcomparable_bytes [1] = Inr [1, 0, 0]
   \<and> memcomparable_component_end ([1, 0, 0] @ [7]) = Inr 3
   \<and> ([1, 0, 0] @ [9 :: u8] < [1, 0, 0xff, 0, 0] @ [7])"
proof -
  have e: "encode_memcomparable_bytes [1, 0] = Inr [1, 0, 0xff, 0, 0]"
    "encode_memcomparable_bytes [1] = Inr [1, 0, 0]"
    by (simp_all add: encode_memcomparable_bytes_def MAX_ORDERED_SCALAR_BYTES_def MAX_SCALAR_BYTES_def)
  show ?thesis
    using e memcomparable_prefix_order [OF e(2) e(1), of "[9]" "[7]"]
      memcomparable_prefix_order [OF e(2) e(1), of "[7]" "[7]"] by simp
qed

end
