(* ===== verification/WordOrder.thy ===== *)
theory WordOrder
  imports Endian
begin

text \<open>
  Signed integers and floating point bit patterns under unsigned comparison: adding half the
  range (flipping the sign bit) turns the signed order of a word into its unsigned order, and
  the big-endian bytes of the result into the byte order.
\<close>

section \<open>The sign bit\<close>

definition sign_mask :: "'a::len word" where
  "sign_mask = push_bit (LENGTH('a) - 1) 1"

lemma sign_mask_eq: "sign_mask = (2 :: 'a::len word) ^ (LENGTH('a) - 1)"
  by (simp add: sign_mask_def push_bit_eq_mult)

lemma sign_mask_double: "sign_mask + sign_mask = (0 :: 'a::len word)"
proof -
  have "sign_mask + sign_mask = (2 :: 'a word) ^ Suc (LENGTH('a) - 1)"
    by (simp only: sign_mask_eq power_Suc mult_2)
  also have "\<dots> = 2 ^ LENGTH('a)" by (metis One_nat_def Suc_pred len_gt_0)
  also have "\<dots> = 0" by simp
  finally show ?thesis .
qed

lemma bit_sign_mask [simp]: "bit (sign_mask :: 'a::len word) i = (i = LENGTH('a) - 1)"
  by (auto simp: sign_mask_def bit_simps)

lemma xor_sign_mask: "w XOR sign_mask = w + (sign_mask :: 'a::len word)"
proof (cases "bit w (LENGTH('a) - 1)")
  case False
  then have "w AND sign_mask = 0" by (auto intro!: bit_word_eqI simp: bit_simps)
  then show ?thesis by (simp add: disjunctive_add_eq_xor)
next
  case True
  let ?y = "w XOR sign_mask"
  have "?y AND sign_mask = 0" using True by (auto intro!: bit_word_eqI simp: bit_simps)
  then have "?y + sign_mask = ?y XOR sign_mask" by (rule disjunctive_add_eq_xor)
  also have "\<dots> = w" by (simp add: xor.assoc)
  finally have "?y + sign_mask = w" .
  then have "?y + (sign_mask + sign_mask) = w + sign_mask" by (simp only: add.assoc [symmetric])
  then show ?thesis by (simp only: sign_mask_double add_0_right)
qed

lemma and_sign_mask_eq_0: "(w AND sign_mask = 0) = (\<not> bit w (LENGTH('a) - 1))"
  for w :: "'a::len word"
proof
  assume "w AND sign_mask = 0"
  then have "\<not> bit (w AND sign_mask) (LENGTH('a) - 1)" by simp
  then show "\<not> bit w (LENGTH('a) - 1)" by (simp add: bit_and_iff)
qed (auto intro!: bit_word_eqI simp: bit_simps)

lemma uint_add_sign_mask: "uint (w + sign_mask) = sint w + 2 ^ (LENGTH('a) - 1)"
  for w :: "'a::len word"
proof -
  have "w + sign_mask = word_of_int (sint w + 2 ^ (LENGTH('a) - 1))"
    by (simp add: sign_mask_eq)
  then have "uint (w + sign_mask) = (sint w + 2 ^ (LENGTH('a) - 1)) mod 2 ^ LENGTH('a)"
    by (simp only: uint_word_of_int)
  also have "\<dots> = sint w + 2 ^ (LENGTH('a) - 1)"
  proof (rule mod_pos_pos_trivial)
    show "0 \<le> sint w + 2 ^ (LENGTH('a) - 1)"
      using sint_greater_eq [of w] by simp
    have "(2 :: int) ^ LENGTH('a) = 2 ^ (LENGTH('a) - 1) + 2 ^ (LENGTH('a) - 1)"
      by (metis One_nat_def Suc_pred len_gt_0 mult_2 power_Suc)
    then show "sint w + 2 ^ (LENGTH('a) - 1) < 2 ^ LENGTH('a)"
      using sint_less [of w] by simp
  qed
  finally show ?thesis .
qed

lemma add_sign_mask_less: "(v + sign_mask < w + sign_mask) = (sint v < sint (w :: 'a::len word))"
  by (simp add: word_less_def uint_add_sign_mask)

section \<open>Flipping the sign bit of big-endian bytes\<close>

text \<open>\<^verbatim>\<open>bytes[0] ^= 0x80\<close>.\<close>

definition flip_sign :: "bytes \<Rightarrow> bytes" where
  "flip_sign bs = bs[0 := bs ! 0 XOR 0x80]"

lemma length_flip_sign [simp]: "length (flip_sign bs) = length bs"
  by (simp add: flip_sign_def)

lemma flip_sign_flip_sign [simp]: "flip_sign (flip_sign bs) = bs"
  by (cases bs) (simp_all add: flip_sign_def xor.assoc)

lemma unat_xor_128: "unat (b XOR 0x80 :: u8) = (unat b + 128) mod 256"
proof -
  have "(0x80 :: u8) = sign_mask" by (simp add: sign_mask_eq)
  then have "b XOR 0x80 = b + 0x80" by (simp add: xor_sign_mask)
  then show ?thesis by (simp add: unat_word_ariths)
qed

lemma flip_sign_to_be_bytes:
  assumes "8 dvd LENGTH('a)"
  shows "flip_sign (to_be_bytes w) = to_be_bytes (w + sign_mask :: 'a::len word)"
proof -
  define k where "k = LENGTH('a) div 8"
  have k: "LENGTH('a) = 8 * k" "k > 0" using assms by (auto simp: k_def dvd_div_eq_0_iff intro!: Nat.gr0I)
  obtain b r where br: "to_be_bytes w = b # r" "length r = k - 1"
    using length_to_be_bytes [of w, folded k_def] k(2) by (cases "to_be_bytes w") auto
  have w: "w = word_of_nat (of_le_digits (rev r) + 256 ^ (k - 1) * unat b)"
  proof -
    have "w = from_be_bytes (to_be_bytes w)" using assms by simp
    then show ?thesis
      using br by (simp add: from_be_bytes_def from_le_bytes_def of_le_digits_append)
  qed
  have pow: "(256 :: nat) ^ (k - 1) * 256 = 2 ^ LENGTH('a)"
    using k(2) base256_power [OF assms] by (simp add: k(1) flip: power_Suc2)
  have half: "(256 :: nat) ^ (k - 1) * 128 = 2 ^ (LENGTH('a) - 1)"
  proof -
    have "(2 :: nat) * 2 ^ (LENGTH('a) - 1) = 2 ^ LENGTH('a)"
      by (metis One_nat_def Suc_pred len_gt_0 power_Suc)
    with pow show ?thesis by linarith
  qed
  define q m where "q = (unat b + 128) div 256" and "m = (unat b + 128) mod 256"
  then have "unat b + 128 = m + 256 * q" by simp
  then have "256 ^ (k - 1) * (unat b + 128) = 256 ^ (k - 1) * m + (256 ^ (k - 1) * 256) * q"
    by (simp only: distrib_left mult.assoc)
  then have split: "256 ^ (k - 1) * unat b + 2 ^ (LENGTH('a) - 1)
      = 256 ^ (k - 1) * m + 2 ^ LENGTH('a) * q"
    by (simp only: pow distrib_left half)
  have zero: "word_of_nat (2 ^ LENGTH('a) * q) = (0 :: 'a word)" for q
    by simp
  have "w + sign_mask = word_of_nat (of_le_digits (rev r)
      + (256 ^ (k - 1) * unat b + 2 ^ (LENGTH('a) - 1)))"
    by (simp add: w sign_mask_eq add.assoc)
  also have "\<dots> = word_of_nat (of_le_digits (rev r) + 256 ^ (k - 1) * m)"
    by (simp only: split add.assoc [symmetric] of_nat_add zero add_0_right)
  also have "\<dots> = from_be_bytes (flip_sign (to_be_bytes w))"
    using br
    by (simp add: flip_sign_def from_be_bytes_def from_le_bytes_def of_le_digits_append unat_xor_128 m_def)
  finally show ?thesis
    using assms by simp
qed

lemma flip_sign_be_less:
  "8 dvd LENGTH('a) \<Longrightarrow>
    (flip_sign (to_be_bytes v) < flip_sign (to_be_bytes w)) = (sint (v :: 'a::len word) < sint (w :: 'a word))"
  by (simp add: flip_sign_to_be_bytes to_be_bytes_less add_sign_mask_less)

section \<open>Narrowing conversions\<close>

text \<open>
  \<^verbatim>\<open>i8::try_from(value)\<close> and its siblings: the narrow word with the same value, if there is
  one. The widening \<^verbatim>\<open>i64::from\<close> and \<^verbatim>\<open>u64::from\<close> are \<open>scast\<close> and \<open>ucast\<close>.
\<close>

definition signed_try_from :: "'a::len word \<Rightarrow> 'b::len word option" where
  "signed_try_from w =
     (if - (2 ^ (LENGTH('b) - 1)) \<le> sint w \<and> sint w < 2 ^ (LENGTH('b) - 1)
      then Some (scast w) else None)"

definition unsigned_try_from :: "'a::len word \<Rightarrow> 'b::len word option" where
  "unsigned_try_from w = (if unat w < 2 ^ LENGTH('b) then Some (ucast w) else None)"

lemma sint_word_of_int_id:
  assumes "- (2 ^ (LENGTH('b) - 1)) \<le> i" "i < 2 ^ (LENGTH('b) - 1)"
  shows "sint (word_of_int i :: 'b::len word) = i"
  unfolding sint_sbintrunc' using assms by (rule signed_take_bit_int_eq_self)

lemma word_of_int_sint_id: "word_of_int (sint x) = (x :: 'a::len word)"
  by simp

lemma signed_try_from_Some:
  "(signed_try_from w = Some (x :: 'b::len word)) = (sint x = sint (w :: 'a::len word))"
proof -
  let ?fits = "- (2 ^ (LENGTH('b) - 1)) \<le> sint w \<and> sint w < 2 ^ (LENGTH('b) - 1)"
  have "?fits \<Longrightarrow> sint (scast w :: 'b word) = sint w"
    unfolding scast_eq by (blast intro: sint_word_of_int_id)
  moreover have "sint x = sint w \<Longrightarrow> ?fits"
    using sint_greater_eq [of x] sint_less [of x] by simp
  moreover have "sint x = sint w \<Longrightarrow> scast w = x"
    unfolding scast_eq by (metis word_of_int_sint_id)
  ultimately show ?thesis
    unfolding signed_try_from_def by (cases ?fits) auto
qed

lemma unsigned_try_from_Some:
  "(unsigned_try_from w = Some (x :: 'b::len word)) = (unat x = unat (w :: 'a::len word))"
proof -
  have c: "ucast w = (word_of_nat (unat w) :: 'b word)" by simp
  have "unat (ucast w :: 'b word) = unat w" if "unat w < 2 ^ LENGTH('b)"
    unfolding c using that by (rule unat_word_of_nat)
  moreover have "unat x = unat w \<Longrightarrow> unat w < 2 ^ LENGTH('b)"
    by (erule subst) (rule unsigned_less)
  moreover have "unat x = unat w \<Longrightarrow> ucast w = x"
    unfolding c by (metis word_nat_cases unat_word_of_nat)
  ultimately show ?thesis
    by (auto simp: unsigned_try_from_def)
qed

lemma scast_try_from:
  assumes "LENGTH('b) \<le> LENGTH('a)"
  shows "(signed_try_from w = Some (x :: 'b::len word)) = (w = (scast x :: 'a::len word))"
proof -
  have "sint (scast x :: 'a word) = sint x" using assms by (intro sint_up_scast) (simp add: is_up)
  then show ?thesis by (metis signed_try_from_Some word_of_int_sint_id)
qed

lemma ucast_try_from:
  assumes "LENGTH('b) \<le> LENGTH('a)"
  shows "(unsigned_try_from w = Some (x :: 'b::len word)) = (w = (ucast x :: 'a::len word))"
proof -
  have "unat x < 2 ^ LENGTH('a)"
    by (rule less_le_trans [OF unsigned_less power_increasing [OF assms]]) simp
  then have "unat (word_of_nat (unat x) :: 'a word) = unat x" by (rule unat_word_of_nat)
  then have "unat (ucast x :: 'a word) = unat x" by simp
  then show ?thesis by (auto simp: unsigned_try_from_Some word_unat_eq_iff)
qed

end
