(* ===== verification/Floats.thy ===== *)
theory Floats
  imports WordOrder Identities
begin

text \<open>
  Canonical floating point values (\<^verbatim>\<open>crates/hyphae-native-types/src/lib.rs\<close>,
  \<^verbatim>\<open>CanonicalF32\<close>, \<^verbatim>\<open>CanonicalF64\<close>). A float is its IEEE 754 bit pattern: the code only
  classifies, compares and stores floats, and does no arithmetic on them.
\<close>

section \<open>Bit patterns\<close>

text \<open>\<^verbatim>\<open>f32::is_nan\<close>, \<^verbatim>\<open>value == 0.0\<close> and their 64-bit versions, on the bits.\<close>

definition f32_is_nan :: "u32 \<Rightarrow> bool" where
  "f32_is_nan bits = (bits AND 0x7fffffff > 0x7f800000)"

definition f32_is_zero :: "u32 \<Rightarrow> bool" where
  "f32_is_zero bits = (bits AND 0x7fffffff = 0)"

definition f64_is_nan :: "u64 \<Rightarrow> bool" where
  "f64_is_nan bits = (bits AND 0x7fffffffffffffff > 0x7ff0000000000000)"

definition f64_is_zero :: "u64 \<Rightarrow> bool" where
  "f64_is_zero bits = (bits AND 0x7fffffffffffffff = 0)"

definition CANONICAL_F32_NAN_BITS :: u32 where
  "CANONICAL_F32_NAN_BITS = 0x7fc00000"

definition CANONICAL_F64_NAN_BITS :: u64 where
  "CANONICAL_F64_NAN_BITS = 0x7ff8000000000000"

definition canonical_f32_new :: "u32 \<Rightarrow> u32" where
  "canonical_f32_new bits =
     (if f32_is_nan bits then CANONICAL_F32_NAN_BITS
      else if f32_is_zero bits then 0
      else bits)"

definition canonical_f64_new :: "u64 \<Rightarrow> u64" where
  "canonical_f64_new bits =
     (if f64_is_nan bits then CANONICAL_F64_NAN_BITS
      else if f64_is_zero bits then 0
      else bits)"

definition decode_canonical_f32 :: "u32 \<Rightarrow> native_type_error + u32" where
  "decode_canonical_f32 bits =
     (let value = canonical_f32_new bits in
      if value \<noteq> bits then Inl InvalidScalarEncoding else Inr value)"

definition decode_canonical_f64 :: "u64 \<Rightarrow> native_type_error + u64" where
  "decode_canonical_f64 bits =
     (let value = canonical_f64_new bits in
      if value \<noteq> bits then Inl InvalidScalarEncoding else Inr value)"

text \<open>
  \<^verbatim>\<open>f32::total_cmp\<close> and \<^verbatim>\<open>f64::total_cmp\<close> of the standard library compare, as signed
  integers, \<^verbatim>\<open>left ^ (((left >> 31) as u32) >> 1) as i32\<close>.
\<close>

definition total_cmp_key :: "'a::len word \<Rightarrow> int" where
  "total_cmp_key bits = sint (bits XOR drop_bit 1 (signed_drop_bit (LENGTH('a) - 1) bits))"

definition float_less :: "'a::len word \<Rightarrow> 'a word \<Rightarrow> bool" where
  "float_less a b = (total_cmp_key a < total_cmp_key b)"

definition sortable_f32_bits :: "u32 \<Rightarrow> u32" where
  "sortable_f32_bits bits =
     (if bits AND push_bit 31 1 = 0 then bits XOR push_bit 31 1 else NOT bits)"

definition unsortable_f32_bits :: "u32 \<Rightarrow> u32" where
  "unsortable_f32_bits bits =
     (if bits AND push_bit 31 1 = 0 then NOT bits else bits XOR push_bit 31 1)"

definition sortable_f64_bits :: "u64 \<Rightarrow> u64" where
  "sortable_f64_bits bits =
     (if bits AND push_bit 63 1 = 0 then bits XOR push_bit 63 1 else NOT bits)"

definition unsortable_f64_bits :: "u64 \<Rightarrow> u64" where
  "unsortable_f64_bits bits =
     (if bits AND push_bit 63 1 = 0 then NOT bits else bits XOR push_bit 63 1)"

section \<open>Canonical forms\<close>

definition canonical_f32 :: "u32 \<Rightarrow> bool" where
  "canonical_f32 bits = (canonical_f32_new bits = bits)"

definition canonical_f64 :: "u64 \<Rightarrow> bool" where
  "canonical_f64 bits = (canonical_f64_new bits = bits)"

lemma canonical_f32_new_canonical [simp]: "canonical_f32 (canonical_f32_new bits)"
proof -
  have "canonical_f32 CANONICAL_F32_NAN_BITS" "canonical_f32 0" by code_simp+
  then show ?thesis
    by (auto simp: canonical_f32_def canonical_f32_new_def)
qed

lemma canonical_f64_new_canonical [simp]: "canonical_f64 (canonical_f64_new bits)"
proof -
  have "canonical_f64 CANONICAL_F64_NAN_BITS" "canonical_f64 0" by code_simp+
  then show ?thesis
    by (auto simp: canonical_f64_def canonical_f64_new_def)
qed

lemma decode_canonical_f32_Inr [result_simps]:
  "(decode_canonical_f32 bits = Inr v) = (v = bits \<and> canonical_f32 bits)"
  by (auto simp: decode_canonical_f32_def canonical_f32_def Let_def)

lemma decode_canonical_f64_Inr [result_simps]:
  "(decode_canonical_f64 bits = Inr v) = (v = bits \<and> canonical_f64 bits)"
  by (auto simp: decode_canonical_f64_def canonical_f64_def Let_def)

section \<open>Sortable bits\<close>

definition sortable_bits :: "'a::len word \<Rightarrow> 'a word" where
  "sortable_bits bits = (if bits AND sign_mask = 0 then bits XOR sign_mask else NOT bits)"

definition unsortable_bits :: "'a::len word \<Rightarrow> 'a word" where
  "unsortable_bits bits = (if bits AND sign_mask = 0 then NOT bits else bits XOR sign_mask)"

lemma sortable_bits_f32: "sortable_f32_bits = sortable_bits" "unsortable_f32_bits = unsortable_bits"
  by (simp_all add: fun_eq_iff sortable_f32_bits_def sortable_bits_def sign_mask_def
      unsortable_f32_bits_def unsortable_bits_def)

lemma sortable_bits_f64: "sortable_f64_bits = sortable_bits" "unsortable_f64_bits = unsortable_bits"
  by (simp_all add: fun_eq_iff sortable_f64_bits_def sortable_bits_def sign_mask_def
      unsortable_f64_bits_def unsortable_bits_def)

lemma unsortable_sortable [simp]: "unsortable_bits (sortable_bits bits) = bits"
  by (auto simp: sortable_bits_def unsortable_bits_def and_sign_mask_eq_0 bit_simps xor.assoc)

lemma sortable_unsortable [simp]: "sortable_bits (unsortable_bits bits) = bits"
  by (auto simp: sortable_bits_def unsortable_bits_def and_sign_mask_eq_0 bit_simps xor.assoc)

lemma sortable_bits_key:
  "sortable_bits bits = (bits XOR drop_bit 1 (signed_drop_bit (LENGTH('a) - 1) bits)) XOR sign_mask"
  for bits :: "'a::len word"
  by (rule bit_word_eqI)
    (auto simp: sortable_bits_def and_sign_mask_eq_0 bit_simps dest: bit_imp_le_length)

lemma sortable_bits_less: "(sortable_bits a < sortable_bits b) = float_less a b"
  by (simp add: sortable_bits_key float_less_def total_cmp_key_def xor_sign_mask add_sign_mask_less)

lemma sortable_bits_inject [simp]: "(sortable_bits a = sortable_bits b) = (a = b)"
  by (metis unsortable_sortable)

end
