(* ===== verification/Scalars.thy ===== *)
theory Scalars
  imports LogicalTypes MemComparable Floats
begin

text \<open>
  Scalar values and their two encodings (\<^verbatim>\<open>crates/hyphae-native-types/src/lib.rs\<close>,
  \<^verbatim>\<open>ScalarValue\<close>): the little-endian storage encoding of row fields and the memcomparable
  encoding of ordered index components. This theory holds the definitions; the storage
  codec is verified in \<^verbatim>\<open>ScalarStorage\<close>, the ordered one in \<^verbatim>\<open>ScalarOrder\<close>.

  Signed integers are words read with \<open>sint\<close>; a \<^verbatim>\<open>String\<close> is its bytes, which are valid
  UTF-8 (\<open>utf8_valid\<close>); the fields of an interval are its months, days and nanoseconds; a \<^verbatim>\<open>[u8; 16]\<close> is a byte list of length 16.
\<close>

section \<open>Values\<close>

type_synonym i32 = "32 word"
type_synonym i128 = "128 word"

datatype scalar_value =
    NullV
  | BooleanV bool
  | SignedV i64
  | UnsignedV u64
  | DecimalV i128
  | Float32V u32
  | Float64V u64
  | TextV bytes
  | BinaryV bytes
  | DateV i32
  | TimeV u64
  | TimestampV i64
  | IntervalV i32 i32 i64
  | UuidV bytes
  | ArrayV "scalar_value list"
  | MapV "(scalar_value \<times> scalar_value) list"
  | VectorV "u32 list"
  | JsonV bytes

text \<open>\<^verbatim>\<open>std::str::from_utf8\<close>: well-formed byte sequences of the Unicode standard.\<close>

definition utf8_continuation :: "u8 \<Rightarrow> bool" where
  "utf8_continuation b = (0x80 \<le> b \<and> b \<le> 0xbf)"

fun utf8_valid :: "bytes \<Rightarrow> bool" where
  "utf8_valid [] = True"
| "utf8_valid (b # bs) =
     (if b < 0x80 then utf8_valid bs
      else if 0xc2 \<le> b \<and> b \<le> 0xdf then
        (case bs of c # r \<Rightarrow> utf8_continuation c \<and> utf8_valid r | [] \<Rightarrow> False)
      else if 0xe0 \<le> b \<and> b \<le> 0xef then
        (case bs of
           c # d # r \<Rightarrow>
             (if b = 0xe0 then 0xa0 \<le> c \<and> c \<le> 0xbf
              else if b = 0xed then 0x80 \<le> c \<and> c \<le> 0x9f
              else utf8_continuation c)
             \<and> utf8_continuation d \<and> utf8_valid r
         | _ \<Rightarrow> False)
      else if 0xf0 \<le> b \<and> b \<le> 0xf4 then
        (case bs of
           c # d # e # r \<Rightarrow>
             (if b = 0xf0 then 0x90 \<le> c \<and> c \<le> 0xbf
              else if b = 0xf4 then 0x80 \<le> c \<and> c \<le> 0x8f
              else utf8_continuation c)
             \<and> utf8_continuation d \<and> utf8_continuation e \<and> utf8_valid r
         | _ \<Rightarrow> False)
      else False)"

section \<open>Canonical JSON\<close>

text \<open>
  \<^verbatim>\<open>serde_json\<close> is a parameter: its parser, the three readings of its numbers and its string
  printer; \<open>f64_to_string\<close> is the shortest-digits float printer behind \<^verbatim>\<open>f64::to_string\<close>. No law
  about them is needed: a JSON scalar is stored only in the form that prints as itself.
\<close>

datatype 'n json =
    JNull
  | JBool bool
  | JNumber 'n
  | JString bytes
  | JArray "'n json list"
  | JObject "(bytes \<times> 'n json) list"

record 'n json_library =
  from_str :: "bytes \<Rightarrow> 'n json option"
  as_i64 :: "'n \<Rightarrow> i64 option"
  as_u64 :: "'n \<Rightarrow> u64 option"
  as_f64 :: "'n \<Rightarrow> u64 option"
  string_to_json :: "bytes \<Rightarrow> bytes option"
  f64_to_string :: "u64 \<Rightarrow> bytes"

function decimal_digits :: "nat \<Rightarrow> bytes" where
  "decimal_digits n =
     (if n < 10 then [of_nat (48 + n)] else decimal_digits (n div 10) @ [of_nat (48 + n mod 10)])"
  by pat_completeness auto
termination by (relation "measure id") auto

definition integer_to_string :: "int \<Rightarrow> bytes" where
  "integer_to_string i =
     (if i < 0 then ascii ''-'' @ decimal_digits (nat (- i)) else decimal_digits (nat i))"

definition f64_is_finite :: "u64 \<Rightarrow> bool" where
  "f64_is_finite bits = (bits AND 0x7fffffffffffffff < 0x7ff0000000000000)"

definition canonicalize_json_number :: "'n json_library \<Rightarrow> 'n \<Rightarrow> native_type_error + bytes" where
  "canonicalize_json_number L n =
     (case as_i64 L n of
        Some i \<Rightarrow> Inr (integer_to_string (sint i))
      | None \<Rightarrow>
          (case as_u64 L n of
             Some u \<Rightarrow> Inr (integer_to_string (uint u))
           | None \<Rightarrow>
               (case as_f64 L n of
                  None \<Rightarrow> Inl InvalidScalarEncoding
                | Some float \<Rightarrow>
                    if f64_is_finite float then
                      let encoded = f64_to_string L float in
                      Inr (if encoded = ascii ''-0'' then ascii ''0'' else encoded)
                    else Inl InvalidScalarEncoding)))"

fun join_comma :: "bytes list \<Rightarrow> bytes" where
  "join_comma [] = []"
| "join_comma [x] = x"
| "join_comma (x # y # ys) = x @ ascii '','' @ join_comma (y # ys)"

fun canonicalize_json_value :: "'n json_library \<Rightarrow> 'n json \<Rightarrow> native_type_error + bytes"
  and canonicalize_json_values :: "'n json_library \<Rightarrow> 'n json list \<Rightarrow> native_type_error + bytes list"
  and canonicalize_json_entries ::
    "'n json_library \<Rightarrow> nat \<Rightarrow> (bytes \<times> 'n json) list \<Rightarrow> bytes \<Rightarrow> native_type_error + bytes"
where
  "canonicalize_json_value L JNull = Inr (ascii ''null'')"
| "canonicalize_json_value L (JBool b) = Inr (ascii (if b then ''true'' else ''false''))"
| "canonicalize_json_value L (JNumber n) = canonicalize_json_number L n"
| "canonicalize_json_value L (JString s) = ok_or InvalidScalarEncoding (string_to_json L s)"
| "canonicalize_json_value L (JArray vs) =
     attempt (canonicalize_json_values L vs) (\<lambda>values.
     Inr (ascii ''['' @ join_comma values @ ascii '']''))"
| "canonicalize_json_value L (JObject es) =
     attempt (canonicalize_json_entries L 0 es (ascii ''{'')) (\<lambda>encoded. Inr (encoded @ ascii ''}''))"
| "canonicalize_json_values L [] = Inr []"
| "canonicalize_json_values L (v # vs) =
     attempt (canonicalize_json_value L v) (\<lambda>x.
     attempt (canonicalize_json_values L vs) (\<lambda>xs. Inr (x # xs)))"
| "canonicalize_json_entries L index [] encoded = Inr encoded"
| "canonicalize_json_entries L index ((key, v) # es) encoded =
     (let encoded = (if index \<noteq> 0 then encoded @ ascii '','' else encoded) in
      attempt (ok_or InvalidScalarEncoding (string_to_json L key)) (\<lambda>k.
      attempt (canonicalize_json_value L v) (\<lambda>x.
      canonicalize_json_entries L (index + 1) es (encoded @ k @ ascii '':'' @ x))))"

definition canonical_json_bytes :: "'n json_library \<Rightarrow> bytes \<Rightarrow> native_type_error + bytes" where
  "canonical_json_bytes L value =
     attempt (ensure_scalar_length (length value)) (\<lambda>_.
     attempt (ok_or InvalidScalarEncoding (from_str L value)) (\<lambda>parsed.
     attempt (canonicalize_json_value L parsed) (\<lambda>canonical.
     if canonical \<noteq> value then Inl InvalidScalarEncoding else Inr value)))"

definition decode_canonical_json :: "'n json_library \<Rightarrow> bytes \<Rightarrow> native_type_error + bytes" where
  "decode_canonical_json L encoded =
     attempt (ensure_scalar_length (length encoded)) (\<lambda>_.
     if \<not> utf8_valid encoded then Inl InvalidScalarEncoding
     else attempt (canonical_json_bytes L encoded) (\<lambda>_. Inr encoded))"

end
