(* ===== verification/ScalarCodec.thy ===== *)
theory ScalarCodec
  imports Scalars
begin

text \<open>
  The storage and ordered encoders and decoders of scalar values
  (\<^verbatim>\<open>crates/hyphae-native-types/src/lib.rs\<close>, \<^verbatim>\<open>ScalarValue::encode_storage\<close>,
  \<^verbatim>\<open>decode_storage\<close>, \<^verbatim>\<open>encode_ordered_component\<close>, \<^verbatim>\<open>decode_ordered_component\<close> and their
  helpers). They recurse over the logical type; the loops over the elements of arrays and
  maps take the recursive call as an argument.
\<close>

section \<open>Helpers\<close>

text \<open>\<^verbatim>\<open>encoded.get(a..b)\<close>.\<close>

definition get_range :: "nat \<Rightarrow> nat \<Rightarrow> bytes \<Rightarrow> bytes option" where
  "get_range a b encoded = (if a \<le> b \<and> b \<le> length encoded then Some (seg a b encoded) else None)"

definition exact_scalar_bytes :: "nat \<Rightarrow> bytes \<Rightarrow> native_type_error + bytes" where
  "exact_scalar_bytes n encoded = (if length encoded = n then Inr encoded else Inl InvalidScalarEncoding)"

definition NANOS_PER_DAY :: u64 where
  "NANOS_PER_DAY = 86400000000000"

definition validate_decimal :: "i128 \<Rightarrow> decimal_type \<Rightarrow> native_type_error + unit" where
  "validate_decimal value decimal =
     (if \<bar>sint value\<bar> > 10 ^ unat (precision decimal) - 1 then Inl ScalarOutOfRange else Inr ())"

definition validate_time :: "u64 \<Rightarrow> native_type_error + unit" where
  "validate_time value = (if value \<ge> NANOS_PER_DAY then Inl ScalarOutOfRange else Inr ())"

fun encode_signed_storage :: "i64 \<Rightarrow> integer_width \<Rightarrow> native_type_error + bytes" where
  "encode_signed_storage value Bits8 =
     attempt (ok_or ScalarOutOfRange (signed_try_from value)) (\<lambda>v :: 8 word. Inr (to_le_bytes v))"
| "encode_signed_storage value Bits16 =
     attempt (ok_or ScalarOutOfRange (signed_try_from value)) (\<lambda>v :: 16 word. Inr (to_le_bytes v))"
| "encode_signed_storage value Bits32 =
     attempt (ok_or ScalarOutOfRange (signed_try_from value)) (\<lambda>v :: 32 word. Inr (to_le_bytes v))"
| "encode_signed_storage value Bits64 = Inr (to_le_bytes value)"

fun decode_signed_storage :: "bytes \<Rightarrow> integer_width \<Rightarrow> native_type_error + i64" where
  "decode_signed_storage encoded Bits8 =
     attempt (exact_scalar_bytes 1 encoded) (\<lambda>b. Inr (scast (from_le_bytes b :: 8 word)))"
| "decode_signed_storage encoded Bits16 =
     attempt (exact_scalar_bytes 2 encoded) (\<lambda>b. Inr (scast (from_le_bytes b :: 16 word)))"
| "decode_signed_storage encoded Bits32 =
     attempt (exact_scalar_bytes 4 encoded) (\<lambda>b. Inr (scast (from_le_bytes b :: 32 word)))"
| "decode_signed_storage encoded Bits64 =
     attempt (exact_scalar_bytes 8 encoded) (\<lambda>b. Inr (from_le_bytes b))"

fun encode_unsigned_storage :: "u64 \<Rightarrow> integer_width \<Rightarrow> native_type_error + bytes" where
  "encode_unsigned_storage value Bits8 =
     attempt (ok_or ScalarOutOfRange (unsigned_try_from value)) (\<lambda>v :: 8 word. Inr (to_le_bytes v))"
| "encode_unsigned_storage value Bits16 =
     attempt (ok_or ScalarOutOfRange (unsigned_try_from value)) (\<lambda>v :: 16 word. Inr (to_le_bytes v))"
| "encode_unsigned_storage value Bits32 =
     attempt (ok_or ScalarOutOfRange (unsigned_try_from value)) (\<lambda>v :: 32 word. Inr (to_le_bytes v))"
| "encode_unsigned_storage value Bits64 = Inr (to_le_bytes value)"

fun decode_unsigned_storage :: "bytes \<Rightarrow> integer_width \<Rightarrow> native_type_error + u64" where
  "decode_unsigned_storage encoded Bits8 =
     attempt (exact_scalar_bytes 1 encoded) (\<lambda>b. Inr (ucast (from_le_bytes b :: 8 word)))"
| "decode_unsigned_storage encoded Bits16 =
     attempt (exact_scalar_bytes 2 encoded) (\<lambda>b. Inr (ucast (from_le_bytes b :: 16 word)))"
| "decode_unsigned_storage encoded Bits32 =
     attempt (exact_scalar_bytes 4 encoded) (\<lambda>b. Inr (ucast (from_le_bytes b :: 32 word)))"
| "decode_unsigned_storage encoded Bits64 =
     attempt (exact_scalar_bytes 8 encoded) (\<lambda>b. Inr (from_le_bytes b))"

fun encode_signed_ordered :: "i64 \<Rightarrow> integer_width \<Rightarrow> native_type_error + bytes" where
  "encode_signed_ordered value Bits8 =
     attempt (ok_or ScalarOutOfRange (signed_try_from value)) (\<lambda>v :: 8 word. Inr (flip_sign (to_be_bytes v)))"
| "encode_signed_ordered value Bits16 =
     attempt (ok_or ScalarOutOfRange (signed_try_from value)) (\<lambda>v :: 16 word. Inr (flip_sign (to_be_bytes v)))"
| "encode_signed_ordered value Bits32 =
     attempt (ok_or ScalarOutOfRange (signed_try_from value)) (\<lambda>v :: 32 word. Inr (flip_sign (to_be_bytes v)))"
| "encode_signed_ordered value Bits64 = Inr (flip_sign (to_be_bytes value))"

fun decode_signed_ordered :: "bytes \<Rightarrow> integer_width \<Rightarrow> native_type_error + i64" where
  "decode_signed_ordered encoded Bits8 =
     attempt (exact_scalar_bytes 1 encoded) (\<lambda>b. Inr (scast (from_be_bytes (flip_sign b) :: 8 word)))"
| "decode_signed_ordered encoded Bits16 =
     attempt (exact_scalar_bytes 2 encoded) (\<lambda>b. Inr (scast (from_be_bytes (flip_sign b) :: 16 word)))"
| "decode_signed_ordered encoded Bits32 =
     attempt (exact_scalar_bytes 4 encoded) (\<lambda>b. Inr (scast (from_be_bytes (flip_sign b) :: 32 word)))"
| "decode_signed_ordered encoded Bits64 =
     attempt (exact_scalar_bytes 8 encoded) (\<lambda>b. Inr (from_be_bytes (flip_sign b)))"

fun encode_unsigned_ordered :: "u64 \<Rightarrow> integer_width \<Rightarrow> native_type_error + bytes" where
  "encode_unsigned_ordered value Bits8 =
     attempt (ok_or ScalarOutOfRange (unsigned_try_from value)) (\<lambda>v :: 8 word. Inr (to_be_bytes v))"
| "encode_unsigned_ordered value Bits16 =
     attempt (ok_or ScalarOutOfRange (unsigned_try_from value)) (\<lambda>v :: 16 word. Inr (to_be_bytes v))"
| "encode_unsigned_ordered value Bits32 =
     attempt (ok_or ScalarOutOfRange (unsigned_try_from value)) (\<lambda>v :: 32 word. Inr (to_be_bytes v))"
| "encode_unsigned_ordered value Bits64 = Inr (to_be_bytes value)"

fun decode_unsigned_ordered :: "bytes \<Rightarrow> integer_width \<Rightarrow> native_type_error + u64" where
  "decode_unsigned_ordered encoded Bits8 =
     attempt (exact_scalar_bytes 1 encoded) (\<lambda>b. Inr (ucast (from_be_bytes b :: 8 word)))"
| "decode_unsigned_ordered encoded Bits16 =
     attempt (exact_scalar_bytes 2 encoded) (\<lambda>b. Inr (ucast (from_be_bytes b :: 16 word)))"
| "decode_unsigned_ordered encoded Bits32 =
     attempt (exact_scalar_bytes 4 encoded) (\<lambda>b. Inr (ucast (from_be_bytes b :: 32 word)))"
| "decode_unsigned_ordered encoded Bits64 =
     attempt (exact_scalar_bytes 8 encoded) (\<lambda>b. Inr (from_be_bytes b))"

definition encode_i32_ordered :: "i32 \<Rightarrow> bytes" where
  "encode_i32_ordered value = flip_sign (to_be_bytes value)"

definition encode_i64_ordered :: "i64 \<Rightarrow> bytes" where
  "encode_i64_ordered value = flip_sign (to_be_bytes value)"

definition encode_i128_ordered :: "i128 \<Rightarrow> bytes" where
  "encode_i128_ordered value = flip_sign (to_be_bytes value)"

text \<open>\<^verbatim>\<open>previous_key.is_some_and(|previous| previous >= &key)\<close>.\<close>

definition key_out_of_order :: "bytes option \<Rightarrow> bytes \<Rightarrow> bool" where
  "key_out_of_order previous_key key =
     (case previous_key of None \<Rightarrow> False | Some previous \<Rightarrow> previous \<ge> key)"

text \<open>\<^verbatim>\<open>chunks_exact(4).map(f).collect()\<close>.\<close>

fun collect_chunks :: "(bytes \<Rightarrow> native_type_error + u32) \<Rightarrow> bytes \<Rightarrow> native_type_error + u32 list" where
  "collect_chunks f (a # b # c # d # rest) =
     attempt (f [a, b, c, d]) (\<lambda>v. attempt (collect_chunks f rest) (\<lambda>vs. Inr (v # vs)))"
| "collect_chunks f _ = Inr []"

section \<open>The ordered encoding\<close>

definition encode_vector_ordered :: "u32 list \<Rightarrow> vector_type \<Rightarrow> native_type_error + bytes" where
  "encode_vector_ordered values vt =
     (if element vt \<noteq> Float32 \<or> length values \<noteq> unat (dimension vt) then Inl ScalarOutOfRange
      else Inr (concat (map (\<lambda>v. to_be_bytes (sortable_f32_bits v)) values)))"

definition decode_vector_ordered :: "bytes \<Rightarrow> vector_type \<Rightarrow> native_type_error + u32 list" where
  "decode_vector_ordered encoded vt =
     (if element vt \<noteq> Float32 \<or> length encoded \<noteq> unat (dimension vt) * 4 then Inl InvalidScalarEncoding
      else collect_chunks
             (\<lambda>b. attempt (exact_scalar_bytes 4 b) (\<lambda>b.
                decode_canonical_f32 (unsortable_f32_bits (from_be_bytes b)))) encoded)"

fun encode_array_ordered_items ::
    "(scalar_value \<Rightarrow> native_type_error + bytes) \<Rightarrow> scalar_value list \<Rightarrow> bytes \<Rightarrow> native_type_error + bytes"
where
  "encode_array_ordered_items encode [] encoded = Inr encoded"
| "encode_array_ordered_items encode (value # values) encoded =
     attempt (encode value) (\<lambda>component.
     attempt (encode_memcomparable_bytes component) (\<lambda>escaped.
     encode_array_ordered_items encode values (encoded @ escaped)))"

definition encode_array_ordered ::
    "(scalar_value \<Rightarrow> native_type_error + bytes) \<Rightarrow> scalar_value list \<Rightarrow> native_type_error + bytes"
where
  "encode_array_ordered encode values =
     attempt (encode_array_ordered_items encode values []) (\<lambda>encoded.
     let encoded = encoded @ [0, 0] in
     attempt (ensure_scalar_length (length encoded)) (\<lambda>_. Inr encoded))"

function decode_array_ordered_loop ::
    "(bytes \<Rightarrow> native_type_error + scalar_value) \<Rightarrow> bytes \<Rightarrow> scalar_value list
      \<Rightarrow> native_type_error + scalar_value list"
where
  "decode_array_ordered_loop decode remaining values =
     (if remaining = [0, 0] then Inr values
      else if take 2 remaining = [0, 0] then Inl InvalidScalarEncoding
      else if length values \<ge> 100000 then Inl ScalarLengthExceeded
      else
        attempt (memcomparable_component_end remaining) (\<lambda>stop.
        attempt (decode_memcomparable_bytes (take stop remaining)) (\<lambda>component.
        attempt (decode component) (\<lambda>value.
        decode_array_ordered_loop decode (drop stop remaining) (values @ [value])))))"
  by pat_completeness auto
termination
  by (relation "measure (\<lambda>(_, remaining, _). length remaining)")
    (auto simp: memcomparable_component_end_def dest!: end_loop_bound)

definition decode_array_ordered ::
    "(bytes \<Rightarrow> native_type_error + scalar_value) \<Rightarrow> bytes \<Rightarrow> native_type_error + scalar_value list"
where
  "decode_array_ordered decode encoded = decode_array_ordered_loop decode encoded []"

fun encode_map_ordered_items ::
    "(scalar_value \<Rightarrow> native_type_error + bytes) \<Rightarrow> (scalar_value \<Rightarrow> native_type_error + bytes)
      \<Rightarrow> (scalar_value \<times> scalar_value) list \<Rightarrow> bytes option \<Rightarrow> bytes \<Rightarrow> native_type_error + bytes"
where
  "encode_map_ordered_items encode_key encode_value [] previous_key encoded = Inr encoded"
| "encode_map_ordered_items encode_key encode_value ((key, value) # entries) previous_key encoded =
     (if key = NullV then Inl InvalidScalarEncoding
      else
        attempt (encode_key key) (\<lambda>key_component.
        if key_out_of_order previous_key key_component then Inl InvalidScalarEncoding
        else
          attempt (encode_memcomparable_bytes key_component) (\<lambda>escaped_key.
          attempt (encode_value value) (\<lambda>value_component.
          attempt (encode_memcomparable_bytes value_component) (\<lambda>escaped_value.
          encode_map_ordered_items encode_key encode_value entries (Some key_component)
            (encoded @ escaped_key @ escaped_value))))))"

definition encode_map_ordered ::
    "(scalar_value \<Rightarrow> native_type_error + bytes) \<Rightarrow> (scalar_value \<Rightarrow> native_type_error + bytes)
      \<Rightarrow> (scalar_value \<times> scalar_value) list \<Rightarrow> native_type_error + bytes"
where
  "encode_map_ordered encode_key encode_value entries =
     attempt (encode_map_ordered_items encode_key encode_value entries None []) (\<lambda>encoded.
     let encoded = encoded @ [0, 0] in
     attempt (ensure_scalar_length (length encoded)) (\<lambda>_. Inr encoded))"

function decode_map_ordered_loop ::
    "(bytes \<Rightarrow> native_type_error + scalar_value) \<Rightarrow> (bytes \<Rightarrow> native_type_error + scalar_value)
      \<Rightarrow> bytes \<Rightarrow> bytes option \<Rightarrow> (scalar_value \<times> scalar_value) list
      \<Rightarrow> native_type_error + (scalar_value \<times> scalar_value) list"
where
  "decode_map_ordered_loop decode_key decode_value remaining previous_key entries =
     (if remaining = [0, 0] then Inr entries
      else if length entries \<ge> 100000 then Inl ScalarLengthExceeded
      else
        attempt (memcomparable_component_end remaining) (\<lambda>key_end.
        attempt (decode_memcomparable_bytes (take key_end remaining)) (\<lambda>key_component.
        attempt (decode_key key_component) (\<lambda>key.
        if key = NullV \<or> key_out_of_order previous_key key_component then Inl InvalidScalarEncoding
        else
          let remaining' = drop key_end remaining in
          attempt (memcomparable_component_end remaining') (\<lambda>value_end.
          attempt (decode_memcomparable_bytes (take value_end remaining')) (\<lambda>value_component.
          attempt (decode_value value_component) (\<lambda>value.
          decode_map_ordered_loop decode_key decode_value (drop value_end remaining')
            (Some key_component) (entries @ [(key, value)]))))))))"
  by pat_completeness auto
termination
  by (relation "measure (\<lambda>(_, _, remaining, _). length remaining)")
    (auto simp: memcomparable_component_end_def dest!: end_loop_bound)

definition decode_map_ordered ::
    "(bytes \<Rightarrow> native_type_error + scalar_value) \<Rightarrow> (bytes \<Rightarrow> native_type_error + scalar_value)
      \<Rightarrow> bytes \<Rightarrow> native_type_error + (scalar_value \<times> scalar_value) list"
where
  "decode_map_ordered decode_key decode_value encoded =
     decode_map_ordered_loop decode_key decode_value encoded None []"

text \<open>The marker and the length bound around every non-null ordered payload.\<close>

definition ordered_value :: "bytes \<Rightarrow> native_type_error + bytes" where
  "ordered_value payload =
     (if length payload + 1 > MAX_ORDERED_SCALAR_BYTES then Inl ScalarLengthExceeded
      else Inr (1 # payload))"

primrec encode_ordered_component :: "logical_type \<Rightarrow> scalar_value \<Rightarrow> native_type_error + bytes" where
  "encode_ordered_component BooleanT v =
     (case v of NullV \<Rightarrow> Inr [0] | BooleanV b \<Rightarrow> ordered_value [of_bool b]
      | _ \<Rightarrow> Inl ScalarTypeMismatch)"
| "encode_ordered_component (SignedT w) v =
     (case v of NullV \<Rightarrow> Inr [0] | SignedV i \<Rightarrow> attempt (encode_signed_ordered i w) ordered_value
      | _ \<Rightarrow> Inl ScalarTypeMismatch)"
| "encode_ordered_component (UnsignedT w) v =
     (case v of NullV \<Rightarrow> Inr [0] | UnsignedV i \<Rightarrow> attempt (encode_unsigned_ordered i w) ordered_value
      | _ \<Rightarrow> Inl ScalarTypeMismatch)"
| "encode_ordered_component (DecimalT d) v =
     (case v of NullV \<Rightarrow> Inr [0]
      | DecimalV i \<Rightarrow> attempt (validate_decimal i d) (\<lambda>_. ordered_value (encode_i128_ordered i))
      | _ \<Rightarrow> Inl ScalarTypeMismatch)"
| "encode_ordered_component Float32T v =
     (case v of NullV \<Rightarrow> Inr [0] | Float32V b \<Rightarrow> ordered_value (to_be_bytes (sortable_f32_bits b))
      | _ \<Rightarrow> Inl ScalarTypeMismatch)"
| "encode_ordered_component Float64T v =
     (case v of NullV \<Rightarrow> Inr [0] | Float64V b \<Rightarrow> ordered_value (to_be_bytes (sortable_f64_bits b))
      | _ \<Rightarrow> Inl ScalarTypeMismatch)"
| "encode_ordered_component TextT v =
     (case v of NullV \<Rightarrow> Inr [0]
      | TextV s \<Rightarrow> attempt (ensure_scalar_length (length s)) (\<lambda>_.
                    attempt (encode_memcomparable_bytes s) ordered_value)
      | _ \<Rightarrow> Inl ScalarTypeMismatch)"
| "encode_ordered_component BinaryT v =
     (case v of NullV \<Rightarrow> Inr [0]
      | BinaryV s \<Rightarrow> attempt (ensure_scalar_length (length s)) (\<lambda>_.
                      attempt (encode_memcomparable_bytes s) ordered_value)
      | _ \<Rightarrow> Inl ScalarTypeMismatch)"
| "encode_ordered_component DateT v =
     (case v of NullV \<Rightarrow> Inr [0] | DateV i \<Rightarrow> ordered_value (encode_i32_ordered i)
      | _ \<Rightarrow> Inl ScalarTypeMismatch)"
| "encode_ordered_component TimeT v =
     (case v of NullV \<Rightarrow> Inr [0]
      | TimeV i \<Rightarrow> attempt (validate_time i) (\<lambda>_. ordered_value (to_be_bytes i))
      | _ \<Rightarrow> Inl ScalarTypeMismatch)"
| "encode_ordered_component TimestampT v =
     (case v of NullV \<Rightarrow> Inr [0] | TimestampV i \<Rightarrow> ordered_value (encode_i64_ordered i)
      | _ \<Rightarrow> Inl ScalarTypeMismatch)"
| "encode_ordered_component IntervalT v =
     (case v of NullV \<Rightarrow> Inr [0]
      | IntervalV months days nanoseconds \<Rightarrow>
          ordered_value (encode_i32_ordered months @ encode_i32_ordered days
            @ encode_i64_ordered nanoseconds)
      | _ \<Rightarrow> Inl ScalarTypeMismatch)"
| "encode_ordered_component UuidT v =
     (case v of NullV \<Rightarrow> Inr [0] | UuidV bs \<Rightarrow> ordered_value bs | _ \<Rightarrow> Inl ScalarTypeMismatch)"
| "encode_ordered_component JsonT v =
     (case v of NullV \<Rightarrow> Inr [0] | _ \<Rightarrow> Inl UnsupportedOrderedType)"
| "encode_ordered_component (ArrayT element_type) v =
     (case v of NullV \<Rightarrow> Inr [0]
      | ArrayV values \<Rightarrow>
          attempt (encode_array_ordered (encode_ordered_component element_type) values) ordered_value
      | _ \<Rightarrow> Inl ScalarTypeMismatch)"
| "encode_ordered_component (MapT key_type value_type) v =
     (case v of NullV \<Rightarrow> Inr [0]
      | MapV entries \<Rightarrow>
          attempt (encode_map_ordered (encode_ordered_component key_type)
            (encode_ordered_component value_type) entries) ordered_value
      | _ \<Rightarrow> Inl ScalarTypeMismatch)"
| "encode_ordered_component (VectorT vt) v =
     (case v of NullV \<Rightarrow> Inr [0]
      | VectorV values \<Rightarrow> attempt (encode_vector_ordered values vt) ordered_value
      | _ \<Rightarrow> Inl ScalarTypeMismatch)"

text \<open>The marker match in front of every ordered decoder.\<close>

definition with_ordered_payload ::
    "bytes \<Rightarrow> (bytes \<Rightarrow> native_type_error + scalar_value) \<Rightarrow> native_type_error + scalar_value"
where
  "with_ordered_payload encoded decode =
     (case encoded of
        [] \<Rightarrow> Inl InvalidScalarEncoding
      | marker # payload \<Rightarrow>
          if length encoded > MAX_ORDERED_SCALAR_BYTES then Inl ScalarLengthExceeded
          else if marker = 0 \<and> payload = [] then Inr NullV
          else if marker = 1 then decode payload
          else Inl InvalidScalarEncoding)"

definition decode_boolean :: "bytes \<Rightarrow> native_type_error + scalar_value" where
  "decode_boolean payload =
     (if payload = [0] then Inr (BooleanV False)
      else if payload = [1] then Inr (BooleanV True)
      else Inl InvalidScalarEncoding)"

primrec decode_ordered_component :: "logical_type \<Rightarrow> bytes \<Rightarrow> native_type_error + scalar_value" where
  "decode_ordered_component BooleanT encoded = with_ordered_payload encoded decode_boolean"
| "decode_ordered_component (SignedT w) encoded = with_ordered_payload encoded (\<lambda>payload.
     attempt (decode_signed_ordered payload w) (\<lambda>i. Inr (SignedV i)))"
| "decode_ordered_component (UnsignedT w) encoded = with_ordered_payload encoded (\<lambda>payload.
     attempt (decode_unsigned_ordered payload w) (\<lambda>i. Inr (UnsignedV i)))"
| "decode_ordered_component (DecimalT d) encoded = with_ordered_payload encoded (\<lambda>payload.
     attempt (exact_scalar_bytes 16 payload) (\<lambda>b.
     let value = from_be_bytes (flip_sign b) in
     attempt (validate_decimal value d) (\<lambda>_. Inr (DecimalV value))))"
| "decode_ordered_component Float32T encoded = with_ordered_payload encoded (\<lambda>payload.
     attempt (exact_scalar_bytes 4 payload) (\<lambda>b.
     attempt (decode_canonical_f32 (unsortable_f32_bits (from_be_bytes b))) (\<lambda>v. Inr (Float32V v))))"
| "decode_ordered_component Float64T encoded = with_ordered_payload encoded (\<lambda>payload.
     attempt (exact_scalar_bytes 8 payload) (\<lambda>b.
     attempt (decode_canonical_f64 (unsortable_f64_bits (from_be_bytes b))) (\<lambda>v. Inr (Float64V v))))"
| "decode_ordered_component TextT encoded = with_ordered_payload encoded (\<lambda>payload.
     attempt (decode_memcomparable_bytes payload) (\<lambda>s.
     if utf8_valid s then Inr (TextV s) else Inl InvalidScalarEncoding))"
| "decode_ordered_component BinaryT encoded = with_ordered_payload encoded (\<lambda>payload.
     attempt (decode_memcomparable_bytes payload) (\<lambda>s. Inr (BinaryV s)))"
| "decode_ordered_component DateT encoded = with_ordered_payload encoded (\<lambda>payload.
     attempt (exact_scalar_bytes 4 payload) (\<lambda>b. Inr (DateV (from_be_bytes (flip_sign b)))))"
| "decode_ordered_component TimeT encoded = with_ordered_payload encoded (\<lambda>payload.
     attempt (exact_scalar_bytes 8 payload) (\<lambda>b.
     attempt (validate_time (from_be_bytes b)) (\<lambda>_. Inr (TimeV (from_be_bytes b)))))"
| "decode_ordered_component TimestampT encoded = with_ordered_payload encoded (\<lambda>payload.
     attempt (exact_scalar_bytes 8 payload) (\<lambda>b. Inr (TimestampV (from_be_bytes (flip_sign b)))))"
| "decode_ordered_component IntervalT encoded = with_ordered_payload encoded (\<lambda>payload.
     if length payload \<noteq> 16 then Inl InvalidScalarEncoding
     else Inr (IntervalV (from_be_bytes (flip_sign (seg 0 4 payload)))
            (from_be_bytes (flip_sign (seg 4 8 payload)))
            (from_be_bytes (flip_sign (seg 8 16 payload)))))"
| "decode_ordered_component UuidT encoded = with_ordered_payload encoded (\<lambda>payload.
     attempt (exact_scalar_bytes 16 payload) (\<lambda>b. Inr (UuidV b)))"
| "decode_ordered_component JsonT encoded =
     with_ordered_payload encoded (\<lambda>_. Inl UnsupportedOrderedType)"
| "decode_ordered_component (ArrayT element_type) encoded = with_ordered_payload encoded (\<lambda>payload.
     attempt (decode_array_ordered (decode_ordered_component element_type) payload) (\<lambda>values.
     Inr (ArrayV values)))"
| "decode_ordered_component (MapT key_type value_type) encoded = with_ordered_payload encoded (\<lambda>payload.
     attempt (decode_map_ordered (decode_ordered_component key_type)
       (decode_ordered_component value_type) payload) (\<lambda>entries. Inr (MapV entries)))"
| "decode_ordered_component (VectorT vt) encoded = with_ordered_payload encoded (\<lambda>payload.
     attempt (decode_vector_ordered payload vt) (\<lambda>values. Inr (VectorV values)))"

section \<open>The storage encoding\<close>

definition encode_vector_storage :: "u32 list \<Rightarrow> vector_type \<Rightarrow> native_type_error + bytes" where
  "encode_vector_storage values vt =
     (if element vt \<noteq> Float32 \<or> length values \<noteq> unat (dimension vt) then Inl ScalarOutOfRange
      else
        let encoded = concat (map to_le_bytes values) in
        attempt (ensure_scalar_length (length encoded)) (\<lambda>_. Inr encoded))"

definition decode_vector_storage :: "bytes \<Rightarrow> vector_type \<Rightarrow> native_type_error + u32 list" where
  "decode_vector_storage encoded vt =
     (if element vt \<noteq> Float32 \<or> length encoded \<noteq> unat (dimension vt) * 4 then Inl InvalidScalarEncoding
      else collect_chunks
             (\<lambda>b. attempt (exact_scalar_bytes 4 b) (\<lambda>b. decode_canonical_f32 (from_le_bytes b))) encoded)"

definition put_nested_payload :: "bytes \<Rightarrow> bytes \<Rightarrow> native_type_error + bytes" where
  "put_nested_payload encoded payload =
     (if length payload \<ge> 2 ^ 32 then Inl ScalarLengthExceeded
      else Inr (encoded @ to_le_bytes (word_of_nat (length payload) :: u32) @ payload))"

text \<open>The payload, and the offset behind it.\<close>

definition take_nested_payload :: "bytes \<Rightarrow> nat \<Rightarrow> native_type_error + (bytes \<times> nat)" where
  "take_nested_payload encoded offset =
     attempt (ok_or InvalidScalarEncoding (get_range offset (offset + 4) encoded)) (\<lambda>length_bytes.
     let stop = offset + 4 + unat (from_le_bytes length_bytes :: u32) in
     attempt (ok_or InvalidScalarEncoding (get_range (offset + 4) stop encoded)) (\<lambda>payload.
     Inr (payload, stop)))"

text \<open>
  \<^verbatim>\<open>encode_array_storage\<close> and \<^verbatim>\<open>decode_array_storage\<close> repeat the text of
  \<^verbatim>\<open>put_nested_payload\<close> and \<^verbatim>\<open>take_nested_payload\<close> around their elements.
\<close>

fun encode_array_storage_items ::
    "(scalar_value \<Rightarrow> native_type_error + bytes) \<Rightarrow> scalar_value list \<Rightarrow> bytes \<Rightarrow> native_type_error + bytes"
where
  "encode_array_storage_items encode [] encoded = Inr encoded"
| "encode_array_storage_items encode (value # values) encoded =
     (if value = NullV then encode_array_storage_items encode values (encoded @ [0])
      else
        attempt (encode value) (\<lambda>payload.
        attempt (put_nested_payload (encoded @ [1]) payload) (\<lambda>encoded.
        attempt (ensure_scalar_length (length encoded)) (\<lambda>_.
        encode_array_storage_items encode values encoded))))"

definition encode_array_storage ::
    "(scalar_value \<Rightarrow> native_type_error + bytes) \<Rightarrow> scalar_value list \<Rightarrow> native_type_error + bytes"
where
  "encode_array_storage encode values =
     (if length values \<ge> 2 ^ 32 then Inl ScalarLengthExceeded
      else encode_array_storage_items encode values (to_le_bytes (word_of_nat (length values) :: u32)))"

fun decode_array_storage_items ::
    "(bytes \<Rightarrow> native_type_error + scalar_value) \<Rightarrow> bytes \<Rightarrow> nat \<Rightarrow> nat \<Rightarrow> scalar_value list
      \<Rightarrow> native_type_error + (scalar_value list \<times> nat)"
where
  "decode_array_storage_items decode encoded 0 offset values = Inr (values, offset)"
| "decode_array_storage_items decode encoded (Suc n) offset values =
     (if length encoded \<le> offset then Inl InvalidScalarEncoding
      else if encoded ! offset = 0 then
        decode_array_storage_items decode encoded n (offset + 1) (values @ [NullV])
      else if encoded ! offset = 1 then
        attempt (take_nested_payload encoded (offset + 1)) (\<lambda>(payload, stop).
        attempt (decode payload) (\<lambda>value.
        decode_array_storage_items decode encoded n stop (values @ [value])))
      else Inl InvalidScalarEncoding)"

definition decode_array_storage ::
    "(bytes \<Rightarrow> native_type_error + scalar_value) \<Rightarrow> bytes \<Rightarrow> native_type_error + scalar_value list"
where
  "decode_array_storage decode encoded =
     attempt (ok_or InvalidScalarEncoding (get_range 0 4 encoded)) (\<lambda>count_bytes.
     let count = unat (from_le_bytes count_bytes :: u32) in
     if count > 100000 then Inl ScalarLengthExceeded
     else
       attempt (decode_array_storage_items decode encoded count 4 []) (\<lambda>(values, offset).
       if offset \<noteq> length encoded then Inl InvalidScalarEncoding else Inr values))"

text \<open>The null marker and the value of a map entry.\<close>

definition put_map_value ::
    "(scalar_value \<Rightarrow> native_type_error + bytes) \<Rightarrow> bytes \<Rightarrow> scalar_value \<Rightarrow> native_type_error + bytes"
where
  "put_map_value encode_value encoded value =
     (if value = NullV then Inr (encoded @ [0])
      else attempt (encode_value value) (\<lambda>value_payload.
           put_nested_payload (encoded @ [1]) value_payload))"

definition take_map_value ::
    "(bytes \<Rightarrow> native_type_error + scalar_value) \<Rightarrow> bytes \<Rightarrow> nat
      \<Rightarrow> native_type_error + (scalar_value \<times> nat)"
where
  "take_map_value decode_value encoded offset =
     (if length encoded \<le> offset then Inl InvalidScalarEncoding
      else if encoded ! offset = 0 then Inr (NullV, offset + 1)
      else if encoded ! offset = 1 then
        attempt (take_nested_payload encoded (offset + 1)) (\<lambda>(payload, stop).
        attempt (decode_value payload) (\<lambda>value. Inr (value, stop)))
      else Inl InvalidScalarEncoding)"

fun encode_map_storage_items ::
    "(scalar_value \<Rightarrow> native_type_error + bytes) \<Rightarrow> (scalar_value \<Rightarrow> native_type_error + bytes)
      \<Rightarrow> (scalar_value \<Rightarrow> native_type_error + bytes)
      \<Rightarrow> (scalar_value \<times> scalar_value) list \<Rightarrow> bytes option \<Rightarrow> bytes \<Rightarrow> native_type_error + bytes"
where
  "encode_map_storage_items encode_key order_key encode_value [] previous_key encoded = Inr encoded"
| "encode_map_storage_items encode_key order_key encode_value ((key, value) # entries) previous_key encoded =
     (if key = NullV then Inl InvalidScalarEncoding
      else
        attempt (encode_key key) (\<lambda>key_payload.
        attempt (order_key key) (\<lambda>key_ordered.
        if key_out_of_order previous_key key_ordered then Inl InvalidScalarEncoding
        else
          attempt (put_nested_payload encoded key_payload) (\<lambda>encoded.
          attempt (put_map_value encode_value encoded value) (\<lambda>encoded.
          attempt (ensure_scalar_length (length encoded)) (\<lambda>_.
          encode_map_storage_items encode_key order_key encode_value entries (Some key_ordered)
            encoded))))))"

definition encode_map_storage ::
    "(scalar_value \<Rightarrow> native_type_error + bytes) \<Rightarrow> (scalar_value \<Rightarrow> native_type_error + bytes)
      \<Rightarrow> (scalar_value \<Rightarrow> native_type_error + bytes)
      \<Rightarrow> (scalar_value \<times> scalar_value) list \<Rightarrow> native_type_error + bytes"
where
  "encode_map_storage encode_key order_key encode_value entries =
     (if length entries \<ge> 2 ^ 32 then Inl ScalarLengthExceeded
      else encode_map_storage_items encode_key order_key encode_value entries None
             (to_le_bytes (word_of_nat (length entries) :: u32)))"

fun decode_map_storage_items ::
    "(bytes \<Rightarrow> native_type_error + scalar_value) \<Rightarrow> (scalar_value \<Rightarrow> native_type_error + bytes)
      \<Rightarrow> (bytes \<Rightarrow> native_type_error + scalar_value) \<Rightarrow> bytes \<Rightarrow> nat \<Rightarrow> nat \<Rightarrow> bytes option
      \<Rightarrow> (scalar_value \<times> scalar_value) list
      \<Rightarrow> native_type_error + ((scalar_value \<times> scalar_value) list \<times> nat)"
where
  "decode_map_storage_items decode_key order_key decode_value encoded 0 offset previous_key entries =
     Inr (entries, offset)"
| "decode_map_storage_items decode_key order_key decode_value encoded (Suc n) offset previous_key entries =
     attempt (take_nested_payload encoded offset) (\<lambda>(key_payload, offset).
     attempt (decode_key key_payload) (\<lambda>key.
     attempt (order_key key) (\<lambda>key_ordered.
     if key = NullV \<or> key_out_of_order previous_key key_ordered then Inl InvalidScalarEncoding
     else
       attempt (take_map_value decode_value encoded offset) (\<lambda>(value, offset).
       decode_map_storage_items decode_key order_key decode_value encoded n offset
         (Some key_ordered) (entries @ [(key, value)])))))"

definition decode_map_storage ::
    "(bytes \<Rightarrow> native_type_error + scalar_value) \<Rightarrow> (scalar_value \<Rightarrow> native_type_error + bytes)
      \<Rightarrow> (bytes \<Rightarrow> native_type_error + scalar_value) \<Rightarrow> bytes
      \<Rightarrow> native_type_error + (scalar_value \<times> scalar_value) list"
where
  "decode_map_storage decode_key order_key decode_value encoded =
     attempt (ok_or InvalidScalarEncoding (get_range 0 4 encoded)) (\<lambda>count_bytes.
     let count = unat (from_le_bytes count_bytes :: u32) in
     if count > 100000 then Inl ScalarLengthExceeded
     else
       attempt (decode_map_storage_items decode_key order_key decode_value encoded count 4 None [])
         (\<lambda>(entries, offset).
       if offset \<noteq> length encoded then Inl InvalidScalarEncoding else Inr entries))"

text \<open>The length check behind every non-null storage encoding.\<close>

definition bounded_storage :: "bytes \<Rightarrow> native_type_error + bytes" where
  "bounded_storage encoded = attempt (ensure_scalar_length (length encoded)) (\<lambda>_. Inr encoded)"

primrec encode_storage ::
    "'n json_library \<Rightarrow> logical_type \<Rightarrow> scalar_value \<Rightarrow> native_type_error + bytes"
where
  "encode_storage L BooleanT v =
     (case v of NullV \<Rightarrow> Inl NullRequiresRowBitmap
      | BooleanV b \<Rightarrow> bounded_storage [of_bool b]
      | _ \<Rightarrow> Inl ScalarTypeMismatch)"
| "encode_storage L (SignedT w) v =
     (case v of NullV \<Rightarrow> Inl NullRequiresRowBitmap
      | SignedV i \<Rightarrow> attempt (encode_signed_storage i w) bounded_storage
      | _ \<Rightarrow> Inl ScalarTypeMismatch)"
| "encode_storage L (UnsignedT w) v =
     (case v of NullV \<Rightarrow> Inl NullRequiresRowBitmap
      | UnsignedV i \<Rightarrow> attempt (encode_unsigned_storage i w) bounded_storage
      | _ \<Rightarrow> Inl ScalarTypeMismatch)"
| "encode_storage L (DecimalT d) v =
     (case v of NullV \<Rightarrow> Inl NullRequiresRowBitmap
      | DecimalV i \<Rightarrow> attempt (validate_decimal i d) (\<lambda>_. bounded_storage (to_le_bytes i))
      | _ \<Rightarrow> Inl ScalarTypeMismatch)"
| "encode_storage L Float32T v =
     (case v of NullV \<Rightarrow> Inl NullRequiresRowBitmap
      | Float32V b \<Rightarrow> bounded_storage (to_le_bytes b)
      | _ \<Rightarrow> Inl ScalarTypeMismatch)"
| "encode_storage L Float64T v =
     (case v of NullV \<Rightarrow> Inl NullRequiresRowBitmap
      | Float64V b \<Rightarrow> bounded_storage (to_le_bytes b)
      | _ \<Rightarrow> Inl ScalarTypeMismatch)"
| "encode_storage L TextT v =
     (case v of NullV \<Rightarrow> Inl NullRequiresRowBitmap
      | TextV s \<Rightarrow> attempt (ensure_scalar_length (length s)) (\<lambda>_. bounded_storage s)
      | _ \<Rightarrow> Inl ScalarTypeMismatch)"
| "encode_storage L BinaryT v =
     (case v of NullV \<Rightarrow> Inl NullRequiresRowBitmap
      | BinaryV s \<Rightarrow> attempt (ensure_scalar_length (length s)) (\<lambda>_. bounded_storage s)
      | _ \<Rightarrow> Inl ScalarTypeMismatch)"
| "encode_storage L DateT v =
     (case v of NullV \<Rightarrow> Inl NullRequiresRowBitmap
      | DateV i \<Rightarrow> bounded_storage (to_le_bytes i)
      | _ \<Rightarrow> Inl ScalarTypeMismatch)"
| "encode_storage L TimeT v =
     (case v of NullV \<Rightarrow> Inl NullRequiresRowBitmap
      | TimeV i \<Rightarrow> attempt (validate_time i) (\<lambda>_. bounded_storage (to_le_bytes i))
      | _ \<Rightarrow> Inl ScalarTypeMismatch)"
| "encode_storage L TimestampT v =
     (case v of NullV \<Rightarrow> Inl NullRequiresRowBitmap
      | TimestampV i \<Rightarrow> bounded_storage (to_le_bytes i)
      | _ \<Rightarrow> Inl ScalarTypeMismatch)"
| "encode_storage L IntervalT v =
     (case v of NullV \<Rightarrow> Inl NullRequiresRowBitmap
      | IntervalV months days nanoseconds \<Rightarrow> bounded_storage (to_le_bytes months @ to_le_bytes days @ to_le_bytes nanoseconds)
      | _ \<Rightarrow> Inl ScalarTypeMismatch)"
| "encode_storage L UuidT v =
     (case v of NullV \<Rightarrow> Inl NullRequiresRowBitmap
      | UuidV bs \<Rightarrow> bounded_storage bs
      | _ \<Rightarrow> Inl ScalarTypeMismatch)"
| "encode_storage L JsonT v =
     (case v of NullV \<Rightarrow> Inl NullRequiresRowBitmap
      | JsonV s \<Rightarrow> attempt (canonical_json_bytes L s) bounded_storage
      | _ \<Rightarrow> Inl ScalarTypeMismatch)"
| "encode_storage L (ArrayT element_type) v =
     (case v of NullV \<Rightarrow> Inl NullRequiresRowBitmap
      | ArrayV values \<Rightarrow> attempt (encode_array_storage (encode_storage L element_type) values) bounded_storage
      | _ \<Rightarrow> Inl ScalarTypeMismatch)"
| "encode_storage L (MapT key_type value_type) v =
     (case v of NullV \<Rightarrow> Inl NullRequiresRowBitmap
      | MapV entries \<Rightarrow> attempt (encode_map_storage (encode_storage L key_type)
            (encode_ordered_component key_type) (encode_storage L value_type) entries) bounded_storage
      | _ \<Rightarrow> Inl ScalarTypeMismatch)"
| "encode_storage L (VectorT vt) v =
     (case v of NullV \<Rightarrow> Inl NullRequiresRowBitmap
      | VectorV values \<Rightarrow> attempt (encode_vector_storage values vt) bounded_storage
      | _ \<Rightarrow> Inl ScalarTypeMismatch)"

primrec decode_storage ::
    "'n json_library \<Rightarrow> logical_type \<Rightarrow> bytes \<Rightarrow> native_type_error + scalar_value"
where
  "decode_storage L BooleanT encoded =
     attempt (ensure_scalar_length (length encoded)) (\<lambda>_.
     decode_boolean encoded)"
| "decode_storage L (SignedT w) encoded =
     attempt (ensure_scalar_length (length encoded)) (\<lambda>_.
     attempt (decode_signed_storage encoded w) (\<lambda>i. Inr (SignedV i)))"
| "decode_storage L (UnsignedT w) encoded =
     attempt (ensure_scalar_length (length encoded)) (\<lambda>_.
     attempt (decode_unsigned_storage encoded w) (\<lambda>i. Inr (UnsignedV i)))"
| "decode_storage L (DecimalT d) encoded =
     attempt (ensure_scalar_length (length encoded)) (\<lambda>_.
     attempt (exact_scalar_bytes 16 encoded) (\<lambda>b.
     attempt (validate_decimal (from_le_bytes b) d) (\<lambda>_. Inr (DecimalV (from_le_bytes b)))))"
| "decode_storage L Float32T encoded =
     attempt (ensure_scalar_length (length encoded)) (\<lambda>_.
     attempt (exact_scalar_bytes 4 encoded) (\<lambda>b.
     attempt (decode_canonical_f32 (from_le_bytes b)) (\<lambda>v. Inr (Float32V v))))"
| "decode_storage L Float64T encoded =
     attempt (ensure_scalar_length (length encoded)) (\<lambda>_.
     attempt (exact_scalar_bytes 8 encoded) (\<lambda>b.
     attempt (decode_canonical_f64 (from_le_bytes b)) (\<lambda>v. Inr (Float64V v))))"
| "decode_storage L TextT encoded =
     attempt (ensure_scalar_length (length encoded)) (\<lambda>_.
     if utf8_valid encoded then Inr (TextV encoded) else Inl InvalidScalarEncoding)"
| "decode_storage L BinaryT encoded =
     attempt (ensure_scalar_length (length encoded)) (\<lambda>_.
     Inr (BinaryV encoded))"
| "decode_storage L DateT encoded =
     attempt (ensure_scalar_length (length encoded)) (\<lambda>_.
     attempt (exact_scalar_bytes 4 encoded) (\<lambda>b. Inr (DateV (from_le_bytes b))))"
| "decode_storage L TimeT encoded =
     attempt (ensure_scalar_length (length encoded)) (\<lambda>_.
     attempt (exact_scalar_bytes 8 encoded) (\<lambda>b.
     attempt (validate_time (from_le_bytes b)) (\<lambda>_. Inr (TimeV (from_le_bytes b)))))"
| "decode_storage L TimestampT encoded =
     attempt (ensure_scalar_length (length encoded)) (\<lambda>_.
     attempt (exact_scalar_bytes 8 encoded) (\<lambda>b. Inr (TimestampV (from_le_bytes b))))"
| "decode_storage L IntervalT encoded =
     attempt (ensure_scalar_length (length encoded)) (\<lambda>_.
     if length encoded \<noteq> 16 then Inl InvalidScalarEncoding
     else Inr (IntervalV (from_le_bytes (seg 0 4 encoded)) (from_le_bytes (seg 4 8 encoded))
            (from_le_bytes (seg 8 16 encoded))))"
| "decode_storage L UuidT encoded =
     attempt (ensure_scalar_length (length encoded)) (\<lambda>_.
     attempt (exact_scalar_bytes 16 encoded) (\<lambda>b. Inr (UuidV b)))"
| "decode_storage L JsonT encoded =
     attempt (ensure_scalar_length (length encoded)) (\<lambda>_.
     attempt (decode_canonical_json L encoded) (\<lambda>s. Inr (JsonV s)))"
| "decode_storage L (ArrayT element_type) encoded =
     attempt (ensure_scalar_length (length encoded)) (\<lambda>_.
     attempt (decode_array_storage (decode_storage L element_type) encoded) (\<lambda>values.
     Inr (ArrayV values)))"
| "decode_storage L (MapT key_type value_type) encoded =
     attempt (ensure_scalar_length (length encoded)) (\<lambda>_.
     attempt (decode_map_storage (decode_storage L key_type) (encode_ordered_component key_type)
       (decode_storage L value_type) encoded) (\<lambda>entries. Inr (MapV entries)))"
| "decode_storage L (VectorT vt) encoded =
     attempt (ensure_scalar_length (length encoded)) (\<lambda>_.
     attempt (decode_vector_storage encoded vt) (\<lambda>values. Inr (VectorV values)))"

end
