(* ===== verification/ScalarStorage.thy ===== *)
theory ScalarStorage
  imports ScalarCodec
begin

text \<open>
  The storage codec of scalar values is canonical: for every logical type, decoding accepts
  exactly the encodings of well-formed values. The element codec of a container is an
  interface (locale \<open>storage_codec\<close>); the codec of each type is an instance of it, by
  induction over the type.
\<close>

section \<open>Well-formed values\<close>

text \<open>
  What the Rust types guarantee of a value (canonical floats, valid UTF-8, sixteen bytes of a
  UUID), and at most 100,000 elements in a container.
\<close>

primrec wf_scalar :: "logical_type \<Rightarrow> scalar_value \<Rightarrow> bool" where
  "wf_scalar BooleanT v = True"
| "wf_scalar (SignedT w) v = True"
| "wf_scalar (UnsignedT w) v = True"
| "wf_scalar (DecimalT d) v = True"
| "wf_scalar Float32T v = (case v of Float32V b \<Rightarrow> canonical_f32 b | _ \<Rightarrow> True)"
| "wf_scalar Float64T v = (case v of Float64V b \<Rightarrow> canonical_f64 b | _ \<Rightarrow> True)"
| "wf_scalar TextT v = (case v of TextV s \<Rightarrow> utf8_valid s | _ \<Rightarrow> True)"
| "wf_scalar BinaryT v = True"
| "wf_scalar DateT v = True"
| "wf_scalar TimeT v = True"
| "wf_scalar TimestampT v = True"
| "wf_scalar IntervalT v = True"
| "wf_scalar UuidT v = (case v of UuidV bs \<Rightarrow> length bs = 16 | _ \<Rightarrow> True)"
| "wf_scalar JsonT v = (case v of JsonV s \<Rightarrow> utf8_valid s | _ \<Rightarrow> True)"
| "wf_scalar (ArrayT e) v =
     (case v of ArrayV vs \<Rightarrow> length vs \<le> 100000 \<and> list_all (wf_scalar e) vs | _ \<Rightarrow> True)"
| "wf_scalar (MapT k e) v =
     (case v of
        MapV es \<Rightarrow> length es \<le> 100000 \<and> list_all (wf_scalar k) (map fst es)
          \<and> list_all (wf_scalar e) (map snd es)
      | _ \<Rightarrow> True)"
| "wf_scalar (VectorT vt) v = (case v of VectorV vs \<Rightarrow> list_all canonical_f32 vs | _ \<Rightarrow> True)"

section \<open>Helpers\<close>

lemma le_bytes_iff:
  "8 dvd LENGTH('a) \<Longrightarrow>
    (to_le_bytes v = b) = (length b = LENGTH('a) div 8 \<and> v = (from_le_bytes b :: 'a::len word))"
  by auto

lemma exact_scalar_bytes_Inr [result_simps]:
  "(exact_scalar_bytes n b = Inr c) = (length b = n \<and> c = b)"
  by (auto simp: exact_scalar_bytes_def)

lemma bounded_storage_Inr [result_simps]:
  "(bounded_storage e = Inr b) = (b = e \<and> length e \<le> MAX_SCALAR_BYTES)"
  by (auto simp: bounded_storage_def result_simps)

lemma signed_storage_iff:
  "(decode_signed_storage b w = Inr i) = (encode_signed_storage i w = Inr b)"
  by (cases w) (auto simp: result_simps scast_try_from le_bytes_iff)

lemma unsigned_storage_iff:
  "(decode_unsigned_storage b w = Inr i) = (encode_unsigned_storage i w = Inr b)"
  by (cases w) (auto simp: result_simps ucast_try_from le_bytes_iff)

lemma encode_signed_storage_length: "encode_signed_storage i w = Inr b \<Longrightarrow> length b \<le> 8"
  by (cases w) (auto simp: result_simps)

lemma encode_unsigned_storage_length: "encode_unsigned_storage i w = Inr b \<Longrightarrow> length b \<le> 8"
  by (cases w) (auto simp: result_simps)

lemma decode_boolean_iff: "(decode_boolean b = Inr v) = (\<exists>x. v = BooleanV x \<and> b = [of_bool x])"
  by (auto simp: decode_boolean_def)

lemma collect_chunks_iff:
  assumes "\<And>b v. (f b = Inr v) = (ok v \<and> b = g v)" and "\<And>v. length (g v) = 4"
    and "length b = 4 * n"
  shows "(collect_chunks f b = Inr vs) = (length vs = n \<and> list_all ok vs \<and> b = concat (map g vs))"
  using assms(3)
proof (induction n arbitrary: b vs)
  case 0
  then show ?case by auto
next
  case (Suc n)
  obtain x b1 where b1: "b = x # b1" "length b1 = 4 * n + 3" using Suc.prems by (cases b) auto
  obtain y b2 where b2: "b1 = y # b2" "length b2 = 4 * n + 2" using b1(2) by (cases b1) auto
  obtain z b3 where b3: "b2 = z # b3" "length b3 = 4 * n + 1" using b2(2) by (cases b2) auto
  obtain u r where b4: "b3 = u # r" "length r = 4 * n" using b3(2) by (cases b3) auto
  have b: "b = x # y # z # u # r" "length r = 4 * n" using b1 b2 b3 b4 by simp_all
  show ?case
  proof (cases vs)
    case Nil
    then show ?thesis using b by (auto simp: result_simps)
  next
    case (Cons v ws)
    have split: "take 4 b = [x, y, z, u]" "drop 4 b = r" by (simp_all add: b(1))
    have "(g v @ concat (map g ws) = b) = (g v = take 4 b \<and> concat (map g ws) = drop 4 b)"
      using append_eq_conv_conj [of "g v" "concat (map g ws)" b] assms(2) [of v] by simp
    then have cat: "(b = concat (map g vs)) = ([x, y, z, u] = g v \<and> r = concat (map g ws))"
      unfolding split Cons list.map concat.simps by metis
    have "(collect_chunks f b = Inr vs) = (f [x, y, z, u] = Inr v \<and> collect_chunks f r = Inr ws)"
      unfolding b(1) Cons by (auto simp: attempt_eq_Inr)
    then show ?thesis
      unfolding cat Suc.IH [OF b(2)] assms(1) by (auto simp: Cons)
  qed
qed

section \<open>Nested payloads\<close>

lemma put_then_take:
  assumes "put_nested_payload acc p = Inr out"
  shows "take_nested_payload (out @ post) (length acc) = Inr (p, length out)"
proof -
  let ?n = "word_of_nat (length p) :: u32"
  have out: "out = acc @ to_le_bytes ?n @ p" and small: "length p < 2 ^ 32"
    using assms by (auto simp: put_nested_payload_def split: if_splits)
  have n: "unat ?n = length p"
    using small by (intro unat_word_of_nat) simp
  have "get_range (length acc) (length acc + 4) (out @ post) = Some (to_le_bytes ?n)"
    by (simp add: out get_range_def seg_append_right seg_def)
  moreover have "get_range (length acc + 4) (length acc + 4 + length p) (out @ post) = Some p"
    by (simp add: out get_range_def seg_def)
  ultimately show ?thesis
    by (simp add: take_nested_payload_def n out)
qed

lemma take_then_put:
  assumes "take_nested_payload encoded off = Inr (p, stop)"
  shows "put_nested_payload (take off encoded) p = Inr (take stop encoded)"
    and "off \<le> stop" "stop \<le> length encoded"
proof -
  define n :: u32 where "n = from_le_bytes (seg off (off + 4) encoded)"
  have len: "off + 4 \<le> length encoded" and stop: "stop = off + 4 + unat n" "stop \<le> length encoded"
    and p: "p = seg (off + 4) stop encoded"
    using assms by (auto simp: take_nested_payload_def get_range_def result_simps n_def Let_def
        split: if_splits)
  then have lp: "length p = unat n" by simp
  have small: "unat n < 2 ^ 32" using unsigned_less [of n] by simp
  have le: "to_le_bytes n = seg off (off + 4) encoded"
    using len by (simp add: n_def)
  have "take stop encoded = take off encoded @ seg off (off + 4) encoded @ p"
    using seg_split [of 0 off stop encoded] seg_split [of off "off + 4" stop encoded] stop(1) p
    by (simp add: seg_def)
  then show "put_nested_payload (take off encoded) p = Inr (take stop encoded)"
    using small by (simp add: put_nested_payload_def lp le)
  show "off \<le> stop" "stop \<le> length encoded" using stop by simp_all
qed

lemma put_nested_extends: "put_nested_payload acc p = Inr out \<Longrightarrow> \<exists>post. out = acc @ post"
  by (auto simp: put_nested_payload_def split: if_splits)

lemma put_nested_small:
  "length p \<le> MAX_SCALAR_BYTES \<Longrightarrow> \<exists>out. put_nested_payload acc p = Inr out"
  by (simp add: put_nested_payload_def MAX_SCALAR_BYTES_def)

section \<open>Containers over an element codec\<close>

locale storage_codec = canonical_codec wf enc dec
  for wf :: "scalar_value \<Rightarrow> bool"
    and enc :: "scalar_value \<Rightarrow> native_type_error + bytes"
    and dec :: "bytes \<Rightarrow> native_type_error + scalar_value" +
  assumes enc_null: "enc NullV = Inl NullRequiresRowBitmap"
    and enc_bound: "enc v = Inr b \<Longrightarrow> length b \<le> MAX_SCALAR_BYTES"
    and wf_null: "wf NullV"
begin

lemma dec_not_null: "dec b = Inr v \<Longrightarrow> v \<noteq> NullV"
  by (auto simp: dec_iff enc_null)

lemma encode_items_extend:
  "encode_array_storage_items enc vs acc = Inr out \<Longrightarrow> \<exists>post. out = acc @ post"
proof (induction vs arbitrary: acc)
  case Nil
  then show ?case by simp
next
  case (Cons v vs)
  show ?case
  proof (cases "v = NullV")
    case True
    with Cons show ?thesis by fastforce
  next
    case False
    with Cons.prems obtain p acc' where
      "put_nested_payload (acc @ [1]) p = Inr acc'" "encode_array_storage_items enc vs acc' = Inr out"
      by (auto simp: result_simps)
    with Cons.IH put_nested_extends show ?thesis by fastforce
  qed
qed

lemma decode_items_encoded:
  assumes "encode_array_storage_items enc vs acc = Inr out" and "list_all wf vs"
  shows "decode_array_storage_items dec out (length vs) (length acc) vals = Inr (vals @ vs, length out)"
  using assms
proof (induction vs arbitrary: acc vals)
  case Nil
  then show ?case by simp
next
  case (Cons v vs)
  show ?case
  proof (cases "v = NullV")
    case True
    then have rest: "encode_array_storage_items enc vs (acc @ [0]) = Inr out" using Cons.prems by simp
    obtain post where "out = (acc @ [0]) @ post" using encode_items_extend [OF rest] by blast
    then have "length acc < length out" "out ! length acc = 0" by (simp_all add: nth_append)
    with Cons.IH [OF rest, of "vals @ [v]"] Cons.prems True show ?thesis by simp
  next
    case False
    with Cons.prems obtain p acc' where p: "enc v = Inr p"
      "put_nested_payload (acc @ [1]) p = Inr acc'" "encode_array_storage_items enc vs acc' = Inr out"
      by (auto simp: result_simps)
    obtain post where out: "out = acc' @ post" using encode_items_extend [OF p(3)] by blast
    obtain q where "acc' = (acc @ [1]) @ q" using put_nested_extends [OF p(2)] by blast
    then have "length acc < length out" "out ! length acc = 1" by (simp_all add: out nth_append)
    moreover have "take_nested_payload out (Suc (length acc)) = Inr (p, length acc')"
      using put_then_take [OF p(2), of post] by (simp add: out)
    moreover have "dec p = Inr v" using Cons.prems p(1) by (simp add: dec_enc)
    ultimately show ?thesis
      using Cons.IH [OF p(3), of "vals @ [v]"] Cons.prems by simp
  qed
qed

lemma encode_items_decoded:
  assumes "decode_array_storage_items dec encoded n off vals = Inr (vs', off')"
    and "length encoded \<le> MAX_SCALAR_BYTES" and "off \<le> length encoded"
  shows "\<exists>vs. vs' = vals @ vs \<and> length vs = n \<and> list_all wf vs \<and> off' \<le> length encoded
    \<and> encode_array_storage_items enc vs (take off encoded) = Inr (take off' encoded)"
  using assms
proof (induction n arbitrary: off vals)
  case 0
  then show ?case by auto
next
  case (Suc n)
  then have off: "off < length encoded" by (auto split: if_splits)
  have marker: "take (Suc off) encoded = take off encoded @ [encoded ! off]"
    using off by (rule take_Suc_conv_app_nth)
  show ?case
  proof (cases "encoded ! off = 0")
    case True
    then have "decode_array_storage_items dec encoded n (Suc off) (vals @ [NullV]) = Inr (vs', off')"
      using Suc.prems(1) off by (simp split: if_splits)
    from Suc.IH [OF this Suc.prems(2)] off obtain vs where
      "vs' = (vals @ [NullV]) @ vs" "length vs = n" "list_all wf vs" "off' \<le> length encoded"
      "encode_array_storage_items enc vs (take (Suc off) encoded) = Inr (take off' encoded)"
      by auto
    then show ?thesis
      by (intro exI [of _ "NullV # vs"]) (simp add: marker True wf_null)
  next
    case False
    then have one: "encoded ! off = 1" using Suc.prems(1) off by (auto split: if_splits)
    then obtain p stop v where p: "take_nested_payload encoded (Suc off) = Inr (p, stop)" "dec p = Inr v"
      and rest: "decode_array_storage_items dec encoded n stop (vals @ [v]) = Inr (vs', off')"
      using Suc.prems(1) off by (auto simp: result_simps)
    note nested = take_then_put [OF p(1)]
    from Suc.IH [OF rest Suc.prems(2) nested(3)] obtain vs where vs:
      "vs' = (vals @ [v]) @ vs" "length vs = n" "list_all wf vs" "off' \<le> length encoded"
      "encode_array_storage_items enc vs (take stop encoded) = Inr (take off' encoded)"
      by blast
    have "wf v" "enc v = Inr p" "v \<noteq> NullV"
      using p(2) dec_iff [of p v] dec_not_null [OF p(2)] by simp_all
    moreover have "put_nested_payload (take off encoded @ [1]) p = Inr (take stop encoded)"
      using nested(1) by (simp add: marker one)
    moreover have "length (take stop encoded) \<le> MAX_SCALAR_BYTES"
      using Suc.prems(2) by simp
    ultimately show ?thesis
      using vs Suc.prems(2) by (intro exI [of _ "v # vs"]) (simp add: ensure_scalar_length_def)
  qed
qed

lemma array_storage_iff:
  assumes "length b \<le> MAX_SCALAR_BYTES"
  shows "(decode_array_storage dec b = Inr vs)
    = (length vs \<le> 100000 \<and> list_all wf vs \<and> encode_array_storage enc vs = Inr b)"
proof
  assume dec: "decode_array_storage dec b = Inr vs"
  define n :: u32 where "n = from_le_bytes (seg 0 4 b)"
  have len: "4 \<le> length b" and n: "unat n \<le> 100000"
    and items: "decode_array_storage_items dec b (unat n) 4 [] = Inr (vs, length b)"
    using dec by (auto simp: decode_array_storage_def get_range_def result_simps n_def Let_def split: if_splits)
  have "to_le_bytes n = take 4 b" using len by (simp add: n_def seg_def)
  moreover from encode_items_decoded [OF items assms len] have
    "length vs = unat n" "list_all wf vs" "encode_array_storage_items enc vs (take 4 b) = Inr b"
    by auto
  ultimately show "length vs \<le> 100000 \<and> list_all wf vs \<and> encode_array_storage enc vs = Inr b"
    using n by (simp add: encode_array_storage_def)
next
  assume enc: "length vs \<le> 100000 \<and> list_all wf vs \<and> encode_array_storage enc vs = Inr b"
  let ?n = "word_of_nat (length vs) :: u32"
  have items: "encode_array_storage_items enc vs (to_le_bytes ?n) = Inr b"
    using enc by (simp add: encode_array_storage_def split: if_splits)
  obtain post where b: "b = to_le_bytes ?n @ post" using encode_items_extend [OF items] by blast
  have "unat ?n = length vs" using enc by (intro unat_word_of_nat) simp
  moreover have "get_range 0 4 b = Some (to_le_bytes ?n)" by (simp add: b get_range_def seg_def)
  ultimately show "decode_array_storage dec b = Inr vs"
    using enc decode_items_encoded [OF items, of "[]"] by (simp add: decode_array_storage_def)
qed

end

text \<open>A map uses the storage codecs of its keys and values, and the ordered encoding of its keys.\<close>

locale map_storage_codec =
  key: storage_codec kwf kenc kdec + val: storage_codec vwf venc vdec
  for kwf :: "scalar_value \<Rightarrow> bool"
    and kenc :: "scalar_value \<Rightarrow> native_type_error + bytes"
    and kdec :: "bytes \<Rightarrow> native_type_error + scalar_value"
    and vwf :: "scalar_value \<Rightarrow> bool"
    and venc :: "scalar_value \<Rightarrow> native_type_error + bytes"
    and vdec :: "bytes \<Rightarrow> native_type_error + scalar_value" +
  fixes ord :: "scalar_value \<Rightarrow> native_type_error + bytes"
begin

lemma encode_entry_cases:
  assumes "encode_map_storage_items kenc ord venc ((k, v) # es) prev acc = Inr out"
  obtains kp ko acc1 acc2 where "k \<noteq> NullV" "kenc k = Inr kp" "ord k = Inr ko"
    "\<not> key_out_of_order prev ko" "put_nested_payload acc kp = Inr acc1"
    "put_map_value venc acc1 v = Inr acc2" "length acc2 \<le> MAX_SCALAR_BYTES"
    "encode_map_storage_items kenc ord venc es (Some ko) acc2 = Inr out"
  using assms by (auto simp: attempt_eq_Inr ensure_scalar_length_Inr split: if_splits)

lemma put_value_extend: "put_map_value venc acc v = Inr out \<Longrightarrow> \<exists>post. out = acc @ post"
  by (auto simp: put_map_value_def attempt_eq_Inr split: if_splits dest!: put_nested_extends)

lemma encode_entries_extend:
  "encode_map_storage_items kenc ord venc es prev acc = Inr out \<Longrightarrow> \<exists>post. out = acc @ post"
proof (induction es arbitrary: prev acc)
  case Nil
  then show ?case by simp
next
  case (Cons e es)
  obtain k v where e: "e = (k, v)" by (cases e)
  from Cons.prems [unfolded e] obtain kp ko acc1 acc2 where
    "put_nested_payload acc kp = Inr acc1" "put_map_value venc acc1 v = Inr acc2"
    "encode_map_storage_items kenc ord venc es (Some ko) acc2 = Inr out"
    by (rule encode_entry_cases)
  then show ?case
    using put_nested_extends put_value_extend Cons.IH by fastforce
qed

lemma take_value_encoded:
  assumes "put_map_value venc acc v = Inr out" and "vwf v"
  shows "take_map_value vdec (out @ post) (length acc) = Inr (v, length out)"
proof (cases "v = NullV")
  case True
  with assms(1) show ?thesis by (auto simp: put_map_value_def take_map_value_def nth_append)
next
  case False
  with assms(1) obtain p where p: "venc v = Inr p" "put_nested_payload (acc @ [1]) p = Inr out"
    by (auto simp: put_map_value_def attempt_eq_Inr)
  obtain q where "out = (acc @ [1]) @ q" using put_nested_extends [OF p(2)] by blast
  then have "length acc < length (out @ post)" "(out @ post) ! length acc = 1"
    by (simp_all add: nth_append)
  moreover have "vdec p = Inr v" using assms(2) p(1) by (simp add: val.dec_enc)
  ultimately show ?thesis
    using put_then_take [OF p(2), of post] by (simp add: take_map_value_def)
qed

lemma put_value_decoded:
  assumes "take_map_value vdec encoded off = Inr (v, stop)"
  shows "vwf v" "stop \<le> length encoded" "put_map_value venc (take off encoded) v = Inr (take stop encoded)"
proof -
  have off: "off < length encoded" using assms by (auto simp: take_map_value_def split: if_splits)
  have marker: "take (Suc off) encoded = take off encoded @ [encoded ! off]"
    using off by (rule take_Suc_conv_app_nth)
  have "vwf v \<and> stop \<le> length encoded \<and> put_map_value venc (take off encoded) v = Inr (take stop encoded)"
  proof (cases "encoded ! off = 0")
    case True
    with assms off marker show ?thesis
      by (auto simp: take_map_value_def put_map_value_def val.wf_null)
  next
    case False
    with assms off obtain p where one: "encoded ! off = 1"
      and p: "take_nested_payload encoded (Suc off) = Inr (p, stop)" "vdec p = Inr v"
      by (auto simp: take_map_value_def attempt_eq_Inr split: if_splits)
    show ?thesis
      using take_then_put [OF p(1)] val.dec_iff [of p v] p(2) val.dec_not_null [OF p(2)]
      by (simp add: put_map_value_def marker one)
  qed
  then show "vwf v" "stop \<le> length encoded"
    "put_map_value venc (take off encoded) v = Inr (take stop encoded)" by simp_all
qed

lemma decode_entries_encoded:
  assumes "encode_map_storage_items kenc ord venc es prev acc = Inr out"
    and "list_all kwf (map fst es)" and "list_all vwf (map snd es)"
  shows "decode_map_storage_items kdec ord vdec out (length es) (length acc) prev vals
    = Inr (vals @ es, length out)"
  using assms
proof (induction es arbitrary: prev acc vals)
  case Nil
  then show ?case by simp
next
  case (Cons e es)
  obtain k v where e: "e = (k, v)" by (cases e)
  from Cons.prems(1) [unfolded e] obtain kp ko acc1 acc2 where
    k: "k \<noteq> NullV" "kenc k = Inr kp" "ord k = Inr ko" "\<not> key_out_of_order prev ko"
      "put_nested_payload acc kp = Inr acc1"
    and v: "put_map_value venc acc1 v = Inr acc2"
    and rest: "encode_map_storage_items kenc ord venc es (Some ko) acc2 = Inr out"
    by (rule encode_entry_cases)
  obtain post where out: "out = acc2 @ post" using encode_entries_extend [OF rest] by blast
  obtain post1 where acc2: "acc2 = acc1 @ post1" using put_value_extend [OF v] by blast
  have "take_nested_payload out (length acc) = Inr (kp, length acc1)"
    using put_then_take [OF k(5), of "post1 @ post"] by (simp add: out acc2)
  moreover have "kdec kp = Inr k" using Cons.prems(2) k(2) e by (simp add: key.dec_enc)
  moreover have "take_map_value vdec out (length acc1) = Inr (v, length acc2)"
    unfolding out using v Cons.prems(3) e by (intro take_value_encoded) auto
  ultimately show ?case
    using Cons.IH [OF rest, of "vals @ [(k, v)]"] Cons.prems k e by simp
qed

lemma encode_entries_decoded:
  assumes "decode_map_storage_items kdec ord vdec encoded n off prev vals = Inr (es', off')"
    and "length encoded \<le> MAX_SCALAR_BYTES" and "off \<le> length encoded"
  shows "\<exists>es. es' = vals @ es \<and> length es = n \<and> list_all kwf (map fst es) \<and> list_all vwf (map snd es)
    \<and> off' \<le> length encoded
    \<and> encode_map_storage_items kenc ord venc es prev (take off encoded) = Inr (take off' encoded)"
  using assms
proof (induction n arbitrary: off prev vals)
  case 0
  then show ?case by auto
next
  case (Suc n)
  then obtain kp off1 k ko v off2 where
    k: "take_nested_payload encoded off = Inr (kp, off1)" "kdec kp = Inr k" "ord k = Inr ko"
      "\<not> key_out_of_order prev ko"
    and v: "take_map_value vdec encoded off1 = Inr (v, off2)"
    and rest: "decode_map_storage_items kdec ord vdec encoded n off2 (Some ko) (vals @ [(k, v)])
      = Inr (es', off')"
    by (auto simp: attempt_eq_Inr split: if_splits)
  note kput = take_then_put [OF k(1)] and vput = put_value_decoded [OF v]
  from Suc.IH [OF rest Suc.prems(2) vput(2)] obtain es where es:
    "es' = (vals @ [(k, v)]) @ es" "length es = n" "list_all kwf (map fst es)" "list_all vwf (map snd es)"
    "off' \<le> length encoded"
    "encode_map_storage_items kenc ord venc es (Some ko) (take off2 encoded) = Inr (take off' encoded)"
    by blast
  have "kwf k" "kenc k = Inr kp" "k \<noteq> NullV"
    using k(2) key.dec_iff [of kp k] key.dec_not_null [OF k(2)] by simp_all
  with es k kput vput Suc.prems(2) show ?case
    by (intro exI [of _ "(k, v) # es"]) (simp add: ensure_scalar_length_def)
qed

lemma map_storage_iff:
  assumes "length b \<le> MAX_SCALAR_BYTES"
  shows "(decode_map_storage kdec ord vdec b = Inr es)
    = (length es \<le> 100000 \<and> list_all kwf (map fst es) \<and> list_all vwf (map snd es)
       \<and> encode_map_storage kenc ord venc es = Inr b)"
proof
  assume dec: "decode_map_storage kdec ord vdec b = Inr es"
  define n :: u32 where "n = from_le_bytes (seg 0 4 b)"
  have len: "4 \<le> length b" and n: "unat n \<le> 100000"
    and items: "decode_map_storage_items kdec ord vdec b (unat n) 4 None [] = Inr (es, length b)"
    using dec by (auto simp: decode_map_storage_def get_range_def result_simps n_def Let_def split: if_splits)
  have "to_le_bytes n = take 4 b" using len by (simp add: n_def seg_def)
  with encode_entries_decoded [OF items assms len] n
  show "length es \<le> 100000 \<and> list_all kwf (map fst es) \<and> list_all vwf (map snd es)
       \<and> encode_map_storage kenc ord venc es = Inr b"
    by (auto simp: encode_map_storage_def)
next
  assume enc: "length es \<le> 100000 \<and> list_all kwf (map fst es) \<and> list_all vwf (map snd es)
       \<and> encode_map_storage kenc ord venc es = Inr b"
  let ?n = "word_of_nat (length es) :: u32"
  have items: "encode_map_storage_items kenc ord venc es None (to_le_bytes ?n) = Inr b"
    using enc by (simp add: encode_map_storage_def split: if_splits)
  obtain post where b: "b = to_le_bytes ?n @ post" using encode_entries_extend [OF items] by blast
  have "unat ?n = length es" using enc by (intro unat_word_of_nat) simp
  moreover have "get_range 0 4 b = Some (to_le_bytes ?n)" by (simp add: b get_range_def seg_def)
  ultimately show "decode_map_storage kdec ord vdec b = Inr es"
    using enc decode_entries_encoded [OF items, of "[]"] by (simp add: decode_map_storage_def)
qed

end

section \<open>Every logical type\<close>

lemma encode_storage_bound: "encode_storage L t v = Inr b \<Longrightarrow> length b \<le> MAX_SCALAR_BYTES"
  by (cases t; cases v) (auto simp: result_simps)

lemma encode_storage_null: "encode_storage L t NullV = Inl NullRequiresRowBitmap"
  by (cases t) auto

lemma wf_scalar_null [simp]: "wf_scalar t NullV"
  by (cases t) auto

lemma json_storage_iff:
  "(decode_canonical_json L b = Inr s) = (s = b \<and> utf8_valid b \<and> canonical_json_bytes L b = Inr b)"
  by (auto simp: decode_canonical_json_def canonical_json_bytes_def result_simps)

lemma canonical_json_same: "canonical_json_bytes L s = Inr b \<Longrightarrow> b = s"
  by (auto simp: canonical_json_bytes_def result_simps split: if_splits)

lemma vector_storage_iff:
  "(decode_vector_storage b vt = Inr vs \<and> length b \<le> MAX_SCALAR_BYTES)
    = (list_all canonical_f32 vs \<and> encode_vector_storage vs vt = Inr b)"
proof -
  let ?f = "\<lambda>b. attempt (exact_scalar_bytes 4 b) (\<lambda>b. decode_canonical_f32 (from_le_bytes b))"
  have f: "(?f b = Inr v) = (canonical_f32 v \<and> b = to_le_bytes v)" for b v
    by (auto simp: result_simps le_bytes_iff)
  have len: "length (concat (map to_le_bytes (vs :: u32 list))) = 4 * length vs" for vs
    by (induction vs) auto
  show ?thesis
    using collect_chunks_iff [of ?f canonical_f32 to_le_bytes b "unat (dimension vt)" vs, OF f]
    by (auto simp: decode_vector_storage_def encode_vector_storage_def result_simps len Let_def mult.commute)
qed

lemma concat_seg3:
  "length b = 16 \<Longrightarrow> seg 0 4 b @ seg 4 8 b @ seg 8 16 b = b"
  using seg_split [of 4 8 16 b] seg_split [of 0 4 16 b] seg_all [of b] by simp

lemma interval_storage_iff:
  "(b = to_le_bytes m @ to_le_bytes d @ to_le_bytes n)
    = (length b = 16 \<and> m = (from_le_bytes (seg 0 4 b) :: i32) \<and> d = (from_le_bytes (seg 4 8 b) :: i32)
       \<and> n = (from_le_bytes (seg 8 16 b) :: i64))"
proof
  assume "b = to_le_bytes m @ to_le_bytes d @ to_le_bytes n"
  then show "length b = 16 \<and> m = (from_le_bytes (seg 0 4 b) :: i32) \<and> d = (from_le_bytes (seg 4 8 b) :: i32)
       \<and> n = (from_le_bytes (seg 8 16 b) :: i64)"
    by (auto simp: seg_append_right seg_def)
next
  assume "length b = 16 \<and> m = (from_le_bytes (seg 0 4 b) :: i32) \<and> d = (from_le_bytes (seg 4 8 b) :: i32)
       \<and> n = (from_le_bytes (seg 8 16 b) :: i64)"
  then show "b = to_le_bytes m @ to_le_bytes d @ to_le_bytes n"
    using concat_seg3 [of b] by simp
qed

lemma small_bound: "n \<le> 16 \<Longrightarrow> n \<le> MAX_SCALAR_BYTES"
  by (simp add: MAX_SCALAR_BYTES_def)

lemmas storage_cases = result_simps decode_boolean_iff signed_storage_iff unsigned_storage_iff
  json_storage_iff le_bytes_iff interval_storage_iff

lemma storage_codecI:
  "(\<And>b v. (decode_storage L t b = Inr v) = (wf_scalar t v \<and> encode_storage L t v = Inr b))
    \<Longrightarrow> storage_codec (wf_scalar t) (encode_storage L t) (decode_storage L t)"
  by unfold_locales (auto simp: encode_storage_null encode_storage_bound)

lemma map_storage_codecI:
  "storage_codec kwf kenc kdec \<Longrightarrow> storage_codec vwf venc vdec
    \<Longrightarrow> map_storage_codec kwf kenc kdec vwf venc vdec"
  by (simp add: map_storage_codec_def)

fun nested_type :: "logical_type \<Rightarrow> bool" where
  "nested_type (ArrayT e) = True"
| "nested_type (MapT k e) = True"
| "nested_type _ = False"

lemma decode_storage_flat:
  assumes "\<not> nested_type t"
  shows "(decode_storage L t b = Inr v) = (wf_scalar t v \<and> encode_storage L t v = Inr b)"
proof (cases "\<exists>vt. t = VectorT vt")
  case True
  then show ?thesis
    using vector_storage_iff [of b] by (cases v) (auto simp: result_simps)
next
  case False
  with assms show ?thesis
    by (cases t; cases v) (auto simp: storage_cases small_bound dest: canonical_json_same)
qed

lemma decode_storage_iff:
  "(decode_storage L t b = Inr v) = (wf_scalar t v \<and> encode_storage L t v = Inr b)"
proof (induction t arbitrary: b v)
  case (ArrayT e)
  note array = storage_codec.array_storage_iff [OF storage_codecI, OF ArrayT.IH]
  show ?case by (cases v) (auto simp: result_simps array)
next
  case (MapT k e)
  note map = map_storage_codec.map_storage_iff [OF map_storage_codecI, OF storage_codecI storage_codecI,
      OF MapT.IH]
  show ?case by (cases v) (auto simp: result_simps map)
qed (rule decode_storage_flat; simp)+

interpretation storage: storage_codec "wf_scalar t" "encode_storage L t" "decode_storage L t"
  for t and L :: "'n json_library"
  by (rule storage_codecI) (rule decode_storage_iff)

text \<open>C12. The storage codec is canonical for every logical type, nested ones included: bytes
  decode to a value exactly when they are the encoding of that value and the value is well
  formed (canonical floats, valid UTF-8, at most 100,000 elements in a container).\<close>

theorem storage_encoding_canonical:
  "(decode_storage L t encoded = Inr v) = (wf_scalar t v \<and> encode_storage L t v = Inr encoded)"
  by (rule storage.dec_iff)

section \<open>Containers above the decoding limit\<close>

lemma encode_items_nulls:
  "encode_array_storage_items enc (replicate n NullV) acc = Inr (acc @ replicate n 0)"
  by (induction n arbitrary: acc) (auto simp: replicate_app_Cons_same)

text \<open>C13. The encoder has no limit on the number of elements, the decoder stops at 100,000: an
  array of more nulls than that, up to the length limit of a scalar, encodes without error
  to bytes that do not decode.\<close>

theorem oversized_array_not_decodable:
  assumes "100000 < n" and "n + 4 \<le> MAX_SCALAR_BYTES"
  shows "\<exists>encoded. encode_storage L (ArrayT t) (ArrayV (replicate n NullV)) = Inr encoded
    \<and> decode_storage L (ArrayT t) encoded = Inl ScalarLengthExceeded"
proof -
  let ?encoded = "to_le_bytes (word_of_nat n :: u32) @ replicate n 0"
  have n: "n < 2 ^ 32" using assms(2) by (simp add: MAX_SCALAR_BYTES_def)
  then have "encode_storage L (ArrayT t) (ArrayV (replicate n NullV)) = Inr ?encoded"
    using assms(2)
    by (simp add: encode_array_storage_def encode_items_nulls bounded_storage_def ensure_scalar_length_def)
  moreover have "unat (word_of_nat n :: u32) = n" using n by (intro unat_word_of_nat) simp
  then have "decode_storage L (ArrayT t) ?encoded = Inl ScalarLengthExceeded"
    using assms
    by (simp add: decode_array_storage_def ensure_scalar_length_def get_range_def seg_def)
  ultimately show ?thesis by blast
qed

text \<open>A JSON library that accepts nothing.\<close>

definition no_json :: "unit json_library" where
  "no_json = \<lparr>from_str = (\<lambda>_. None), as_i64 = (\<lambda>_. None), as_u64 = (\<lambda>_. None),
     as_f64 = (\<lambda>_. None), string_to_json = (\<lambda>_. None), f64_to_string = (\<lambda>_. [])\<rparr>"

theorem oversized_array_not_decodable_witness:
  "\<exists>encoded. encode_storage no_json (ArrayT BooleanT)
      (ArrayV (replicate 100001 NullV)) = Inr encoded
    \<and> decode_storage no_json (ArrayT BooleanT) encoded
      = Inl ScalarLengthExceeded"
  by (rule oversized_array_not_decodable) (simp_all add: MAX_SCALAR_BYTES_def)

end
