(* ===== verification/ScalarOrder.thy ===== *)
theory ScalarOrder
  imports ScalarStorage
begin

text \<open>
  The ordered encoding of scalar values loses nothing and preserves the order of the logical
  type, nulls first. The order itself is specified independently of bytes by \<open>scalar_less\<close>;
  containers compare their elements lexicographically.
\<close>

section \<open>The order of a logical type\<close>

fun lex_less :: "('a \<Rightarrow> 'a \<Rightarrow> bool) \<Rightarrow> 'a list \<Rightarrow> 'a list \<Rightarrow> bool" where
  "lex_less lt xs [] = False"
| "lex_less lt [] (y # ys) = True"
| "lex_less lt (x # xs) (y # ys) = (lt x y \<or> x = y \<and> lex_less lt xs ys)"

definition pair_less :: "('a \<Rightarrow> 'a \<Rightarrow> bool) \<Rightarrow> ('b \<Rightarrow> 'b \<Rightarrow> bool) \<Rightarrow> 'a \<times> 'b \<Rightarrow> 'a \<times> 'b \<Rightarrow> bool" where
  "pair_less lt_a lt_b p q = (lt_a (fst p) (fst q) \<or> fst p = fst q \<and> lt_b (snd p) (snd q))"

definition nulls_first ::
    "(scalar_value \<Rightarrow> scalar_value \<Rightarrow> bool) \<Rightarrow> scalar_value \<Rightarrow> scalar_value \<Rightarrow> bool"
where
  "nulls_first lt v v' = (v' \<noteq> NullV \<and> (v = NullV \<or> lt v v'))"

primrec scalar_less :: "logical_type \<Rightarrow> scalar_value \<Rightarrow> scalar_value \<Rightarrow> bool" where
  "scalar_less BooleanT v v' = nulls_first (\<lambda>v v'.
     case v of BooleanV a \<Rightarrow> (case v' of BooleanV b \<Rightarrow> \<not> a \<and> b | _ \<Rightarrow> False) | _ \<Rightarrow> False) v v'"
| "scalar_less (SignedT w) v v' = nulls_first (\<lambda>v v'.
     case v of SignedV a \<Rightarrow> (case v' of SignedV b \<Rightarrow> sint a < sint b | _ \<Rightarrow> False) | _ \<Rightarrow> False) v v'"
| "scalar_less (UnsignedT w) v v' = nulls_first (\<lambda>v v'.
     case v of UnsignedV a \<Rightarrow> (case v' of UnsignedV b \<Rightarrow> a < b | _ \<Rightarrow> False) | _ \<Rightarrow> False) v v'"
| "scalar_less (DecimalT d) v v' = nulls_first (\<lambda>v v'.
     case v of DecimalV a \<Rightarrow> (case v' of DecimalV b \<Rightarrow> sint a < sint b | _ \<Rightarrow> False) | _ \<Rightarrow> False) v v'"
| "scalar_less Float32T v v' = nulls_first (\<lambda>v v'.
     case v of Float32V a \<Rightarrow> (case v' of Float32V b \<Rightarrow> float_less a b | _ \<Rightarrow> False) | _ \<Rightarrow> False) v v'"
| "scalar_less Float64T v v' = nulls_first (\<lambda>v v'.
     case v of Float64V a \<Rightarrow> (case v' of Float64V b \<Rightarrow> float_less a b | _ \<Rightarrow> False) | _ \<Rightarrow> False) v v'"
| "scalar_less TextT v v' = nulls_first (\<lambda>v v'.
     case v of TextV a \<Rightarrow> (case v' of TextV b \<Rightarrow> a < b | _ \<Rightarrow> False) | _ \<Rightarrow> False) v v'"
| "scalar_less BinaryT v v' = nulls_first (\<lambda>v v'.
     case v of BinaryV a \<Rightarrow> (case v' of BinaryV b \<Rightarrow> a < b | _ \<Rightarrow> False) | _ \<Rightarrow> False) v v'"
| "scalar_less DateT v v' = nulls_first (\<lambda>v v'.
     case v of DateV a \<Rightarrow> (case v' of DateV b \<Rightarrow> sint a < sint b | _ \<Rightarrow> False) | _ \<Rightarrow> False) v v'"
| "scalar_less TimeT v v' = nulls_first (\<lambda>v v'.
     case v of TimeV a \<Rightarrow> (case v' of TimeV b \<Rightarrow> a < b | _ \<Rightarrow> False) | _ \<Rightarrow> False) v v'"
| "scalar_less TimestampT v v' = nulls_first (\<lambda>v v'.
     case v of TimestampV a \<Rightarrow> (case v' of TimestampV b \<Rightarrow> sint a < sint b | _ \<Rightarrow> False) | _ \<Rightarrow> False) v v'"
| "scalar_less IntervalT v v' = nulls_first (\<lambda>v v'.
     case v of IntervalV m d n \<Rightarrow> (case v' of IntervalV m' d' n' \<Rightarrow> 
             sint m < sint m' \<or> m = m' \<and> (sint d < sint d' \<or> d = d' \<and> sint n < sint n') | _ \<Rightarrow> False) | _ \<Rightarrow> False) v v'"
| "scalar_less UuidT v v' = nulls_first (\<lambda>v v'.
     case v of UuidV a \<Rightarrow> (case v' of UuidV b \<Rightarrow> a < b | _ \<Rightarrow> False) | _ \<Rightarrow> False) v v'"
| "scalar_less JsonT v v' = nulls_first (\<lambda>v v'. False) v v'"
| "scalar_less (ArrayT e) v v' = nulls_first (\<lambda>v v'.
     case v of ArrayV a \<Rightarrow> (case v' of ArrayV b \<Rightarrow> lex_less (scalar_less e) a b | _ \<Rightarrow> False) | _ \<Rightarrow> False) v v'"
| "scalar_less (MapT k e) v v' = nulls_first (\<lambda>v v'.
     case v of MapV a \<Rightarrow> (case v' of MapV b \<Rightarrow> lex_less (pair_less (scalar_less k) (scalar_less e)) a b | _ \<Rightarrow> False) | _ \<Rightarrow> False) v v'"
| "scalar_less (VectorT vt) v v' = nulls_first (\<lambda>v v'.
     case v of VectorV a \<Rightarrow> (case v' of VectorV b \<Rightarrow> lex_less float_less a b | _ \<Rightarrow> False) | _ \<Rightarrow> False) v v'"

section \<open>Helpers\<close>

lemma be_bytes_iff:
  "8 dvd LENGTH('a) \<Longrightarrow>
    (to_be_bytes v = b) = (length b = LENGTH('a) div 8 \<and> v = (from_be_bytes b :: 'a::len word))"
  by auto

lemma ordered_value_Inr [result_simps]:
  "(ordered_value p = Inr b) = (b = 1 # p \<and> length p < MAX_ORDERED_SCALAR_BYTES)"
  by (auto simp: ordered_value_def)

lemma with_ordered_payload_value:
  "length p < MAX_ORDERED_SCALAR_BYTES \<Longrightarrow> with_ordered_payload (1 # p) f = f p"
  by (simp add: with_ordered_payload_def)

lemma with_ordered_payload_null: "with_ordered_payload [0] f = Inr NullV"
  by (simp add: with_ordered_payload_def MAX_ORDERED_SCALAR_BYTES_def MAX_SCALAR_BYTES_def)

lemma encode_ordered_null [simp]: "encode_ordered_component t NullV = Inr [0]"
  by (cases t) auto

lemma encode_ordered_nonempty: "encode_ordered_component t v = Inr b \<Longrightarrow> b \<noteq> []"
  by (cases t; cases v) (auto simp: result_simps)

lemma lex_less_map:
  assumes "list_all2 R vs cs" "list_all2 R ws ds"
    and "\<And>v w c d. R v c \<Longrightarrow> R w d \<Longrightarrow> (lt' c d = lt v w) \<and> ((c = d) = (v = w))"
  shows "lex_less lt' cs ds = lex_less lt vs ws"
  using assms(1,2)
proof (induction vs cs arbitrary: ws ds rule: list_all2_induct)
  case Nil
  then show ?case by (cases ws; cases ds) auto
next
  case (Cons v vs c cs)
  show ?case
  proof (cases ws)
    case Nil
    with Cons.prems show ?thesis by simp
  next
    case (Cons w ws')
    then obtain d ds' where "ds = d # ds'" "R w d" "list_all2 R ws' ds'"
      using \<open>list_all2 R ws ds\<close> by (auto simp: list_all2_Cons1)
    with Cons assms(3) [OF \<open>R v c\<close> \<open>R w d\<close>] show ?thesis
      using Cons.IH [of ws' ds'] by simp
  qed
qed

text \<open>A list of nonempty escaped strings, with the end marker.\<close>

definition escape_list :: "bytes list \<Rightarrow> bytes" where
  "escape_list cs = concat (map escape_bytes cs) @ [0, 0]"

lemma escape_list_simps [simp]:
  "escape_list [] = [0, 0]" "escape_list (c # cs) = escape_bytes c @ escape_list cs"
  by (simp_all add: escape_list_def)

lemma escape_list_less:
  assumes "[] \<notin> set cs" "[] \<notin> set ds"
  shows "(escape_list cs < escape_list ds) = lex_less (<) cs ds"
  using assms
proof (induction cs arbitrary: ds)
  case Nil
  show ?case
  proof (cases ds)
    case (Cons d ds')
    with Nil have "d \<noteq> []" by auto
    with Cons end_marker_less [of d "escape_list ds'"] show ?thesis by simp
  qed simp
next
  case (Cons c cs)
  show ?case
  proof (cases ds)
    case Nil
    from Cons.prems have "c \<noteq> []" by auto
    with Nil end_marker_less [of c "escape_list cs"] show ?thesis by simp
  next
    case (Cons d ds')
    with Cons.prems Cons.IH [of ds'] show ?thesis by (simp add: escape_bytes_less)
  qed
qed

lemma escape_list_not_end:
  assumes "c \<noteq> []"
  shows "escape_bytes c @ rest \<noteq> [0, 0]" "take 2 (escape_bytes c @ rest) \<noteq> [0, 0]"
proof -
  obtain b bs where c: "c = b # bs" using assms by (cases c) auto
  have two: "take 2 (x # y # zs) = [x, y]" for x y :: u8 and zs by (simp add: numeral_eq_Suc)
  show "take 2 (escape_bytes c @ rest) \<noteq> [0, 0]"
    by (cases "b = 0") (auto simp: c two take_Cons')
  then show "escape_bytes c @ rest \<noteq> [0, 0]" by (metis two)
qed

lemma escape_list_member_length: "c \<in> set cs \<Longrightarrow> length c + 2 \<le> length (escape_list cs)"
proof (induction cs)
  case (Cons d cs)
  then show ?case using escaped_length_bounds(1) [of c] by (auto simp: le_trans)
qed simp

section \<open>Containers over an ordered element codec\<close>

lemma array_ordered_items_Inr:
  "encode_array_ordered_items enc vs acc = Inr out
    \<Longrightarrow> \<exists>cs. list_all2 (\<lambda>v c. enc v = Inr c) vs cs \<and> out = acc @ concat (map escape_bytes cs)"
proof (induction vs arbitrary: acc)
  case Nil
  then show ?case by simp
next
  case (Cons v vs)
  then obtain c where c: "enc v = Inr c"
    and "encode_array_ordered_items enc vs (acc @ escape_bytes c) = Inr out"
    by (auto simp: attempt_eq_Inr dest!: encode_memcomparable_Inr)
  with Cons.IH obtain cs where "list_all2 (\<lambda>v c. enc v = Inr c) vs cs"
    "out = (acc @ escape_bytes c) @ concat (map escape_bytes cs)" by blast
  with c show ?case by (intro exI [of _ "c # cs"]) simp
qed

lemma array_ordered_Inr:
  assumes "encode_array_ordered enc vs = Inr p"
  obtains cs where "list_all2 (\<lambda>v c. enc v = Inr c) vs cs" "p = escape_list cs"
    "length p \<le> MAX_SCALAR_BYTES"
  using assms by (auto simp: encode_array_ordered_def attempt_eq_Inr ensure_scalar_length_Inr
      escape_list_def Let_def dest!: array_ordered_items_Inr)

lemma take_escaped [simp]: "take (escaped_length c) (escape_bytes c @ rest) = escape_bytes c"
  "drop (escaped_length c) (escape_bytes c @ rest) = rest"
  by (metis append_eq_conv_conj length_escape_bytes)+

lemma decode_escaped: "length c \<le> MAX_SCALAR_BYTES \<Longrightarrow> decode_memcomparable_bytes (escape_bytes c) = Inr c"
  by (simp add: decode_memcomparable_iff)

lemma decode_array_loop_step:
  assumes "dec c = Inr v" "c \<noteq> []" "length c \<le> MAX_SCALAR_BYTES" "length vals < 100000"
  shows "decode_array_ordered_loop dec (escape_bytes c @ rest) vals
    = decode_array_ordered_loop dec rest (vals @ [v])"
  unfolding decode_array_ordered_loop.simps [of dec "escape_bytes c @ rest"]
  using assms
  by (simp add: escape_list_not_end decode_escaped del: take_append decode_array_ordered_loop.simps)

lemma decode_array_loop_escaped:
  assumes "list_all2 (\<lambda>v c. dec c = Inr v \<and> c \<noteq> [] \<and> length c \<le> MAX_SCALAR_BYTES) vs cs"
    and "length vals + length vs \<le> 100000"
  shows "decode_array_ordered_loop dec (escape_list cs) vals = Inr (vals @ vs)"
  using assms
proof (induction vs cs arbitrary: vals rule: list_all2_induct)
  case Nil
  then show ?case by simp
next
  case (Cons v vs c cs)
  then show ?case
    by (simp add: decode_array_loop_step del: decode_array_ordered_loop.simps)
qed

locale ordered_codec = memcomparable_codec wf enc dec lt
  for wf :: "scalar_value \<Rightarrow> bool"
    and enc :: "scalar_value \<Rightarrow> native_type_error + bytes"
    and dec :: "bytes \<Rightarrow> native_type_error + scalar_value"
    and lt :: "scalar_value \<Rightarrow> scalar_value \<Rightarrow> bool" +
  assumes enc_nonempty: "enc v = Inr b \<Longrightarrow> b \<noteq> []"
begin

lemma enc_eq: "wf v \<Longrightarrow> wf w \<Longrightarrow> enc v = Inr a \<Longrightarrow> enc w = Inr b \<Longrightarrow> (a = b) = (v = w)"
  by (auto intro: enc_inj)

lemma components_nonempty: "list_all2 (\<lambda>v c. enc v = Inr c) vs cs \<Longrightarrow> [] \<notin> set cs"
  by (induction rule: list_all2_induct) (auto dest: enc_nonempty)

lemma components_decode:
  assumes "list_all2 (\<lambda>v c. enc v = Inr c) vs cs" "list_all wf vs" "\<forall>c \<in> set cs. length c \<le> MAX_SCALAR_BYTES"
  shows "list_all2 (\<lambda>v c. dec c = Inr v \<and> c \<noteq> [] \<and> length c \<le> MAX_SCALAR_BYTES) vs cs"
  using assms by (induction rule: list_all2_induct) (auto simp: dec_enc dest: enc_nonempty)

lemma components_less:
  assumes "list_all2 (\<lambda>v c. enc v = Inr c) vs cs" "list_all wf vs"
    and "list_all2 (\<lambda>v c. enc v = Inr c) ws ds" "list_all wf ws"
  shows "lex_less (<) cs ds = lex_less lt vs ws"
proof (rule lex_less_map [where R = "\<lambda>v c. wf v \<and> enc v = Inr c"])
  show "list_all2 (\<lambda>v c. wf v \<and> enc v = Inr c) vs cs"
    using assms(1,2) by (induction rule: list_all2_induct) auto
  show "list_all2 (\<lambda>v c. wf v \<and> enc v = Inr c) ws ds"
    using assms(3,4) by (induction rule: list_all2_induct) auto
qed (auto simp: enc_less enc_eq)

lemma array_ordered_decode:
  assumes "encode_array_ordered enc vs = Inr p" "list_all wf vs" "length vs \<le> 100000"
  shows "decode_array_ordered dec p = Inr vs"
  using assms(1)
proof (rule array_ordered_Inr)
  fix cs
  assume cs: "list_all2 (\<lambda>v c. enc v = Inr c) vs cs" and p: "p = escape_list cs"
    and "length p \<le> MAX_SCALAR_BYTES"
  then have "\<forall>c \<in> set cs. length c \<le> MAX_SCALAR_BYTES"
    using escape_list_member_length by fastforce
  with decode_array_loop_escaped [OF components_decode [OF cs assms(2)], of "[]"] assms(3)
  show ?thesis by (simp add: decode_array_ordered_def p)
qed

lemma array_ordered_less:
  assumes "encode_array_ordered enc vs = Inr p" "list_all wf vs"
    and "encode_array_ordered enc ws = Inr q" "list_all wf ws"
  shows "(p < q) = lex_less lt vs ws"
proof -
  obtain cs where cs: "list_all2 (\<lambda>v c. enc v = Inr c) vs cs" "p = escape_list cs"
    using assms(1) by (rule array_ordered_Inr)
  obtain ds where ds: "list_all2 (\<lambda>v c. enc v = Inr c) ws ds" "q = escape_list ds"
    using assms(3) by (rule array_ordered_Inr)
  show ?thesis
    using escape_list_less [OF components_nonempty [OF cs(1)] components_nonempty [OF ds(1)]]
      components_less [OF cs(1) assms(2) ds(1) assms(4)] cs ds by simp
qed

end

text \<open>The components of a map, keys and values alternating.\<close>

definition flatten_pairs :: "(bytes \<times> bytes) list \<Rightarrow> bytes list" where
  "flatten_pairs ccs = concat (map (\<lambda>(a, b). [a, b]) ccs)"

lemma flatten_pairs_simps [simp]:
  "flatten_pairs [] = []" "flatten_pairs ((a, b) # ccs) = a # b # flatten_pairs ccs"
  by (simp_all add: flatten_pairs_def)

fun keys_increase :: "bytes option \<Rightarrow> (bytes \<times> bytes) list \<Rightarrow> bool" where
  "keys_increase prev [] = True"
| "keys_increase prev ((a, b) # ccs) = (\<not> key_out_of_order prev a \<and> keys_increase (Some a) ccs)"

lemma flatten_pairs_less: "lex_less (<) (flatten_pairs ccs) (flatten_pairs dds) = lex_less (pair_less (<) (<)) ccs dds"
proof (induction ccs arbitrary: dds)
  case Nil
  show ?case by (cases dds) auto
next
  case (Cons p ccs)
  obtain a b where p: "p = (a, b)" by (cases p)
  show ?case
  proof (cases dds)
    case (Cons q dds')
    obtain c d where "q = (c, d)" by (cases q)
    with p Cons Cons.IH [of dds'] show ?thesis by (auto simp: pair_less_def)
  qed (simp add: p)
qed

definition entry_encoded where
  "entry_encoded kenc venc e c =
     (fst e \<noteq> NullV \<and> kenc (fst e) = Inr (fst c) \<and> venc (snd e) = Inr (snd c))"

definition wf_entries where
  "wf_entries kwf vwf es = (list_all kwf (map fst es) \<and> list_all vwf (map snd es))"

lemma map_ordered_items_Inr:
  "encode_map_ordered_items kenc venc es prev acc = Inr out
    \<Longrightarrow> \<exists>ccs. list_all2 (entry_encoded kenc venc) es ccs \<and> keys_increase prev ccs
          \<and> out = acc @ concat (map escape_bytes (flatten_pairs ccs))"
proof (induction es arbitrary: prev acc)
  case Nil
  then show ?case by simp
next
  case (Cons e es)
  obtain k v where e: "e = (k, v)" by (cases e)
  from Cons.prems obtain a b where ab: "k \<noteq> NullV" "kenc k = Inr a" "venc v = Inr b"
      "\<not> key_out_of_order prev a"
    and "encode_map_ordered_items kenc venc es (Some a) (acc @ escape_bytes a @ escape_bytes b) = Inr out"
    by (auto simp: e attempt_eq_Inr split: if_splits dest!: encode_memcomparable_Inr)
  with Cons.IH obtain ccs where "list_all2 (entry_encoded kenc venc) es ccs" "keys_increase (Some a) ccs"
    "out = (acc @ escape_bytes a @ escape_bytes b) @ concat (map escape_bytes (flatten_pairs ccs))"
    by blast
  moreover have "entry_encoded kenc venc e (a, b)" using ab by (simp add: e entry_encoded_def)
  ultimately show ?case using ab by (intro exI [of _ "(a, b) # ccs"]) simp
qed

lemma map_ordered_Inr:
  assumes "encode_map_ordered kenc venc es = Inr p"
  obtains ccs where "list_all2 (entry_encoded kenc venc) es ccs" "keys_increase None ccs"
    "p = escape_list (flatten_pairs ccs)" "length p \<le> MAX_SCALAR_BYTES"
  using assms by (auto simp: encode_map_ordered_def attempt_eq_Inr ensure_scalar_length_Inr
      escape_list_def Let_def dest!: map_ordered_items_Inr)

lemma decode_map_loop_step:
  assumes "kdec a = Inr k" "k \<noteq> NullV" "a \<noteq> []" "length a \<le> MAX_SCALAR_BYTES"
    and "vdec b = Inr v" "length b \<le> MAX_SCALAR_BYTES"
    and "\<not> key_out_of_order prev a" "length vals < 100000"
  shows "decode_map_ordered_loop kdec vdec (escape_bytes a @ escape_bytes b @ rest) prev vals
    = decode_map_ordered_loop kdec vdec rest (Some a) (vals @ [(k, v)])"
  unfolding decode_map_ordered_loop.simps [of kdec vdec "escape_bytes a @ escape_bytes b @ rest"]
  using assms
  by (simp add: escape_list_not_end decode_escaped del: take_append decode_map_ordered_loop.simps)

locale map_ordered_codec =
  key: ordered_codec kwf kenc kdec klt + val: ordered_codec vwf venc vdec vlt
  for kwf :: "scalar_value \<Rightarrow> bool"
    and kenc :: "scalar_value \<Rightarrow> native_type_error + bytes"
    and kdec :: "bytes \<Rightarrow> native_type_error + scalar_value"
    and klt :: "scalar_value \<Rightarrow> scalar_value \<Rightarrow> bool"
    and vwf :: "scalar_value \<Rightarrow> bool"
    and venc :: "scalar_value \<Rightarrow> native_type_error + bytes"
    and vdec :: "bytes \<Rightarrow> native_type_error + scalar_value"
    and vlt :: "scalar_value \<Rightarrow> scalar_value \<Rightarrow> bool"
begin

lemma pairs_nonempty: "list_all2 (entry_encoded kenc venc) es ccs \<Longrightarrow> [] \<notin> set (flatten_pairs ccs)"
proof (induction rule: list_all2_induct)
  case (Cons e es c ccs)
  then show ?case
    using key.enc_nonempty [of "fst e" "fst c"] val.enc_nonempty [of "snd e" "snd c"]
    by (cases c) (auto simp: entry_encoded_def)
qed simp

lemma decode_map_loop_escaped:
  assumes "list_all2 (entry_encoded kenc venc) es ccs" "wf_entries kwf vwf es" "keys_increase prev ccs"
    and "\<forall>c \<in> set (flatten_pairs ccs). length c \<le> MAX_SCALAR_BYTES"
    and "length vals + length es \<le> 100000"
  shows "decode_map_ordered_loop kdec vdec (escape_list (flatten_pairs ccs)) prev vals = Inr (vals @ es)"
  using assms
proof (induction es ccs arbitrary: prev vals rule: list_all2_induct)
  case Nil
  then show ?case by simp
next
  case (Cons e es c ccs)
  obtain k v where e: "e = (k, v)" by (cases e)
  obtain a b where c: "c = (a, b)" by (cases c)
  have enc: "k \<noteq> NullV" "kenc k = Inr a" "venc v = Inr b" using Cons.hyps by (auto simp: entry_encoded_def e c)
  have "kdec a = Inr k" "a \<noteq> []" "vdec b = Inr v"
    using Cons.prems(1) enc key.enc_nonempty by (auto simp: wf_entries_def e key.dec_enc val.dec_enc)
  moreover have "decode_map_ordered_loop kdec vdec (escape_list (flatten_pairs ccs)) (Some a) (vals @ [e])
      = Inr ((vals @ [e]) @ es)"
    using Cons.prems by (intro Cons.IH) (auto simp: wf_entries_def c)
  ultimately show ?case
    using Cons.prems(2,3,4) enc(1)
    by (simp add: decode_map_loop_step c e del: decode_map_ordered_loop.simps)
qed

lemma map_ordered_decode:
  assumes "encode_map_ordered kenc venc es = Inr p" "wf_entries kwf vwf es" "length es \<le> 100000"
  shows "decode_map_ordered kdec vdec p = Inr es"
  using assms(1)
proof (rule map_ordered_Inr)
  fix ccs
  assume ccs: "list_all2 (entry_encoded kenc venc) es ccs" "keys_increase None ccs"
    and p: "p = escape_list (flatten_pairs ccs)" "length p \<le> MAX_SCALAR_BYTES"
  then have "\<forall>c \<in> set (flatten_pairs ccs). length c \<le> MAX_SCALAR_BYTES"
    using escape_list_member_length by fastforce
  with decode_map_loop_escaped [OF ccs(1) assms(2) ccs(2), of "[]"] assms(3)
  show ?thesis by (simp add: decode_map_ordered_def p(1))
qed

lemma map_ordered_less:
  assumes "encode_map_ordered kenc venc es = Inr p" "wf_entries kwf vwf es"
    and "encode_map_ordered kenc venc fs = Inr q" "wf_entries kwf vwf fs"
  shows "(p < q) = lex_less (pair_less klt vlt) es fs"
proof -
  let ?R = "\<lambda>e c. kwf (fst e) \<and> vwf (snd e) \<and> entry_encoded kenc venc e c"
  obtain ccs where ccs: "list_all2 (entry_encoded kenc venc) es ccs" "p = escape_list (flatten_pairs ccs)"
    using assms(1) by (rule map_ordered_Inr)
  obtain dds where dds: "list_all2 (entry_encoded kenc venc) fs dds" "q = escape_list (flatten_pairs dds)"
    using assms(3) by (rule map_ordered_Inr)
  have "lex_less (pair_less (<) (<)) ccs dds = lex_less (pair_less klt vlt) es fs"
  proof (rule lex_less_map [where R = ?R])
    show "list_all2 ?R es ccs"
      using ccs(1) assms(2) by (induction rule: list_all2_induct) (auto simp: wf_entries_def)
    show "list_all2 ?R fs dds"
      using dds(1) assms(4) by (induction rule: list_all2_induct) (auto simp: wf_entries_def)
  next
    fix e f c d
    assume "?R e c" and "?R f d"
    then have k: "kwf (fst e)" "kwf (fst f)" "kenc (fst e) = Inr (fst c)" "kenc (fst f) = Inr (fst d)"
      and v: "vwf (snd e)" "vwf (snd f)" "venc (snd e) = Inr (snd c)" "venc (snd f) = Inr (snd d)"
      by (auto simp: entry_encoded_def)
    show "(pair_less (<) (<) c d = pair_less klt vlt e f) \<and> ((c = d) = (e = f))"
      using key.enc_less [OF k] key.enc_eq [OF k] val.enc_less [OF v] val.enc_eq [OF v]
      by (simp add: pair_less_def prod_eq_iff)
  qed
  then show ?thesis
    using escape_list_less [OF pairs_nonempty [OF ccs(1)] pairs_nonempty [OF dds(1)]] ccs(2) dds(2)
    by (simp add: flatten_pairs_less)
qed

end

section \<open>What each type encodes\<close>

lemma small_ordered_bound: "n \<le> 2 * MAX_SCALAR_BYTES + 2 \<Longrightarrow> n < MAX_ORDERED_SCALAR_BYTES"
  by (simp add: MAX_ORDERED_SCALAR_BYTES_def)

lemma small_ordered: "n \<le> 262140 \<Longrightarrow> n < MAX_ORDERED_SCALAR_BYTES"
  by (simp add: MAX_ORDERED_SCALAR_BYTES_def MAX_SCALAR_BYTES_def)

lemma length_encode_i_ordered [simp]:
  "length (encode_i32_ordered i) = 4" "length (encode_i64_ordered j) = 8" "length (encode_i128_ordered k) = 16"
  by (simp_all add: encode_i32_ordered_def encode_i64_ordered_def encode_i128_ordered_def)

lemma signed_ordered_length: "encode_signed_ordered i w = Inr p \<Longrightarrow> length p \<le> 8"
  by (cases w) (auto simp: result_simps)

lemma unsigned_ordered_length: "encode_unsigned_ordered i w = Inr p \<Longrightarrow> length p \<le> 8"
  by (cases w) (auto simp: result_simps)

lemma length_concat_be: "length (concat (map (\<lambda>v. to_be_bytes (f v :: u32)) vs)) = 4 * length vs"
  by (induction vs) auto

lemma vector_ordered_Inr:
  "(encode_vector_ordered vs vt = Inr p)
    = (length vs = unat (dimension vt) \<and> p = concat (map (\<lambda>v. to_be_bytes (sortable_f32_bits v)) vs))"
  by (cases "element vt") (auto simp: encode_vector_ordered_def)

lemma vector_ordered_length: "encode_vector_ordered vs vt = Inr p \<Longrightarrow> length p \<le> 262140"
proof -
  assume "encode_vector_ordered vs vt = Inr p"
  then have "length p = 4 * unat (dimension vt)" by (auto simp: vector_ordered_Inr length_concat_be)
  moreover have "unat (dimension vt) < 65536" using unsigned_less [of "dimension vt"] by simp
  ultimately show ?thesis by simp
qed

lemma memcomparable_text_length:
  "length s \<le> MAX_SCALAR_BYTES \<Longrightarrow> escaped_length s < MAX_ORDERED_SCALAR_BYTES"
  using escaped_length_bounds(2) [of s] by (intro small_ordered_bound) simp

lemmas ordered_encoders = result_simps small_ordered memcomparable_text_length encode_memcomparable_small
  signed_ordered_length [THEN order_trans, THEN small_ordered]
  unsigned_ordered_length [THEN order_trans, THEN small_ordered]
  vector_ordered_length [THEN small_ordered]

lemma encode_boolean_ordered_iff:
  "(encode_ordered_component BooleanT v = Inr a)
    = (v = NullV \<and> a = [0] \<or> (\<exists>b. v = BooleanV b \<and> a = [1, of_bool b]))"
  by (cases v) (auto simp: ordered_encoders)

lemma encode_signed_ordered_iff:
  "(encode_ordered_component (SignedT w) v = Inr a)
    = (v = NullV \<and> a = [0] \<or> (\<exists>i p. v = SignedV i \<and> encode_signed_ordered i w = Inr p \<and> a = 1 # p))"
  by (cases v) (auto simp: ordered_encoders)

lemma encode_unsigned_ordered_iff:
  "(encode_ordered_component (UnsignedT w) v = Inr a)
    = (v = NullV \<and> a = [0] \<or> (\<exists>i p. v = UnsignedV i \<and> encode_unsigned_ordered i w = Inr p \<and> a = 1 # p))"
  by (cases v) (auto simp: ordered_encoders)

lemma encode_decimal_ordered_iff:
  "(encode_ordered_component (DecimalT d) v = Inr a)
    = (v = NullV \<and> a = [0] \<or> (\<exists>i. v = DecimalV i \<and> validate_decimal i d = Inr () \<and> a = 1 # encode_i128_ordered i))"
  by (cases v) (auto simp: ordered_encoders)

lemma encode_float32_ordered_iff:
  "(encode_ordered_component Float32T v = Inr a)
    = (v = NullV \<and> a = [0] \<or> (\<exists>b. v = Float32V b \<and> a = 1 # to_be_bytes (sortable_f32_bits b)))"
  by (cases v) (auto simp: ordered_encoders)

lemma encode_float64_ordered_iff:
  "(encode_ordered_component Float64T v = Inr a)
    = (v = NullV \<and> a = [0] \<or> (\<exists>b. v = Float64V b \<and> a = 1 # to_be_bytes (sortable_f64_bits b)))"
  by (cases v) (auto simp: ordered_encoders)

lemma encode_text_ordered_iff:
  "(encode_ordered_component TextT v = Inr a)
    = (v = NullV \<and> a = [0] \<or> (\<exists>s. v = TextV s \<and> length s \<le> MAX_SCALAR_BYTES \<and> a = 1 # escape_bytes s))"
  by (cases v) (auto simp: ordered_encoders)

lemma encode_binary_ordered_iff:
  "(encode_ordered_component BinaryT v = Inr a)
    = (v = NullV \<and> a = [0] \<or> (\<exists>s. v = BinaryV s \<and> length s \<le> MAX_SCALAR_BYTES \<and> a = 1 # escape_bytes s))"
  by (cases v) (auto simp: ordered_encoders)

lemma encode_date_ordered_iff:
  "(encode_ordered_component DateT v = Inr a)
    = (v = NullV \<and> a = [0] \<or> (\<exists>i. v = DateV i \<and> a = 1 # encode_i32_ordered i))"
  by (cases v) (auto simp: ordered_encoders)

lemma encode_time_ordered_iff:
  "(encode_ordered_component TimeT v = Inr a)
    = (v = NullV \<and> a = [0] \<or> (\<exists>i. v = TimeV i \<and> validate_time i = Inr () \<and> a = 1 # to_be_bytes i))"
  by (cases v) (auto simp: ordered_encoders)

lemma encode_timestamp_ordered_iff:
  "(encode_ordered_component TimestampT v = Inr a)
    = (v = NullV \<and> a = [0] \<or> (\<exists>i. v = TimestampV i \<and> a = 1 # encode_i64_ordered i))"
  by (cases v) (auto simp: ordered_encoders)

lemma encode_interval_ordered_iff:
  "(encode_ordered_component IntervalT v = Inr a)
    = (v = NullV \<and> a = [0] \<or> (\<exists>m d n. v = IntervalV m d n \<and> 
         a = 1 # encode_i32_ordered m @ encode_i32_ordered d @ encode_i64_ordered n))"
  by (cases v) (auto simp: ordered_encoders)

lemma encode_uuid_ordered_iff:
  "(encode_ordered_component UuidT v = Inr a)
    = (v = NullV \<and> a = [0] \<or> (\<exists>bs. v = UuidV bs \<and> length bs < MAX_ORDERED_SCALAR_BYTES \<and> a = 1 # bs))"
  by (cases v) (auto simp: ordered_encoders)

lemma encode_array_ordered_iff:
  "(encode_ordered_component (ArrayT e) v = Inr a)
    = (v = NullV \<and> a = [0] \<or> (\<exists>vs p. v = ArrayV vs \<and> encode_array_ordered (encode_ordered_component e) vs = Inr p \<and> a = 1 # p
         \<and> length p < MAX_ORDERED_SCALAR_BYTES))"
  by (cases v) (auto simp: ordered_encoders)

lemma encode_map_ordered_iff:
  "(encode_ordered_component (MapT k e) v = Inr a)
    = (v = NullV \<and> a = [0] \<or> (\<exists>es p. v = MapV es \<and> a = 1 # p \<and> length p < MAX_ORDERED_SCALAR_BYTES
         \<and> encode_map_ordered (encode_ordered_component k) (encode_ordered_component e) es = Inr p))"
  by (cases v) (auto simp: ordered_encoders)

lemma encode_vector_ordered_iff:
  "(encode_ordered_component (VectorT vt) v = Inr a)
    = (v = NullV \<and> a = [0] \<or> (\<exists>vs p. v = VectorV vs \<and> encode_vector_ordered vs vt = Inr p \<and> a = 1 # p))"
  by (cases v) (auto simp: ordered_encoders)

lemma encode_json_ordered_iff:
  "(encode_ordered_component JsonT v = Inr a) = (v = NullV \<and> a = [0])"
  by (cases v) auto

lemmas ordered_iff =
  encode_boolean_ordered_iff
  encode_signed_ordered_iff
  encode_unsigned_ordered_iff
  encode_decimal_ordered_iff
  encode_float32_ordered_iff
  encode_float64_ordered_iff
  encode_text_ordered_iff
  encode_binary_ordered_iff
  encode_date_ordered_iff
  encode_time_ordered_iff
  encode_timestamp_ordered_iff
  encode_interval_ordered_iff
  encode_uuid_ordered_iff
  encode_array_ordered_iff
  encode_map_ordered_iff
  encode_vector_ordered_iff
  encode_json_ordered_iff

section \<open>Integers and floats\<close>

lemma flip_be_iff:
  "8 dvd LENGTH('a) \<Longrightarrow> (flip_sign (to_be_bytes v) = b)
    = (length b = LENGTH('a) div 8 \<and> v = (from_be_bytes (flip_sign b) :: 'a::len word))"
  by (metis be_bytes_iff flip_sign_flip_sign length_flip_sign)

lemma signed_ordered_decode: "encode_signed_ordered i w = Inr b \<Longrightarrow> decode_signed_ordered b w = Inr i"
  by (cases w) (auto simp: result_simps scast_try_from)

lemma unsigned_ordered_decode: "encode_unsigned_ordered i w = Inr b \<Longrightarrow> decode_unsigned_ordered b w = Inr i"
  by (cases w) (auto simp: result_simps ucast_try_from)

lemma signed_ordered_less:
  "encode_signed_ordered i w = Inr p \<Longrightarrow> encode_signed_ordered j w = Inr q \<Longrightarrow> (p < q) = (sint i < sint j)"
  by (cases w) (auto simp: result_simps signed_try_from_Some flip_sign_be_less)

lemma unsigned_ordered_less:
  "encode_unsigned_ordered i w = Inr p \<Longrightarrow> encode_unsigned_ordered j w = Inr q \<Longrightarrow> (p < q) = (i < j)"
  by (cases w) (auto simp: result_simps unsigned_try_from_Some to_be_bytes_less word_less_nat_alt)

lemma i_ordered_less [simp]:
  "(encode_i32_ordered i < encode_i32_ordered j) = (sint i < sint j)"
  "(encode_i64_ordered k < encode_i64_ordered l) = (sint k < sint l)"
  "(encode_i128_ordered m < encode_i128_ordered n) = (sint m < sint n)"
  by (simp_all add: encode_i32_ordered_def encode_i64_ordered_def encode_i128_ordered_def flip_sign_be_less)

lemma flip_be_inject:
  "8 dvd LENGTH('a) \<Longrightarrow> (flip_sign (to_be_bytes v) = flip_sign (to_be_bytes w)) = (v = (w :: 'a::len word))"
  by (metis flip_sign_flip_sign from_to_be_bytes)

lemma i_ordered_inject [simp]:
  "(encode_i32_ordered i = encode_i32_ordered j) = (i = j)"
  "(encode_i64_ordered k = encode_i64_ordered l) = (k = l)"
  by (simp_all add: encode_i32_ordered_def encode_i64_ordered_def flip_be_inject)

lemma i_ordered_decode [simp]:
  "from_be_bytes (flip_sign (encode_i32_ordered i)) = i"
  "from_be_bytes (flip_sign (encode_i64_ordered j)) = j"
  "from_be_bytes (flip_sign (encode_i128_ordered k)) = k"
  by (simp_all add: encode_i32_ordered_def encode_i64_ordered_def encode_i128_ordered_def)

lemma interval_ordered_less:
  "(encode_i32_ordered m @ encode_i32_ordered d @ encode_i64_ordered n
     < encode_i32_ordered m' @ encode_i32_ordered d' @ encode_i64_ordered n')
    = (sint m < sint m' \<or> m = m' \<and> (sint d < sint d' \<or> d = d' \<and> sint n < sint n'))"
  by (simp add: bytes_less_append_eqlen)

lemma seg_whole: "length a = n \<Longrightarrow> seg 0 n a = a"
  by (simp add: seg_def)

lemma interval_segments:
  assumes "length a = 4" "length b = 4" "length c = 8"
  shows "seg 4 8 (a @ b @ c) = b" "seg 8 16 (a @ b @ c) = c"
  using assms by (simp_all add: seg_def)

lemma vector_ordered_less:
  "length vs = length ws \<Longrightarrow>
    (concat (map (\<lambda>v. to_be_bytes (sortable_f32_bits v)) vs)
      < concat (map (\<lambda>v. to_be_bytes (sortable_f32_bits v)) ws)) = lex_less float_less vs ws"
  by (induction vs ws rule: list_induct2)
    (auto simp: bytes_less_append_eqlen to_be_bytes_less to_be_bytes_inj sortable_bits_f32 sortable_bits_less)

lemma vector_ordered_decode:
  assumes "encode_vector_ordered vs vt = Inr p" "list_all canonical_f32 vs"
  shows "decode_vector_ordered p vt = Inr vs"
proof -
  let ?f = "\<lambda>b. attempt (exact_scalar_bytes 4 b) (\<lambda>b.
    decode_canonical_f32 (unsortable_f32_bits (from_be_bytes b)))"
  have f: "(?f b = Inr v) = (canonical_f32 v \<and> b = to_be_bytes (sortable_f32_bits v))" for b v
    by (auto simp: result_simps sortable_bits_f32)
  have p: "length vs = unat (dimension vt)"
    "p = concat (map (\<lambda>v. to_be_bytes (sortable_f32_bits v)) vs)"
    using assms(1) by (simp_all add: vector_ordered_Inr)
  then have "length p = 4 * unat (dimension vt)" by (simp add: length_concat_be)
  with collect_chunks_iff [of ?f canonical_f32 "\<lambda>v. to_be_bytes (sortable_f32_bits v)" p _ vs, OF f] p assms(2)
  show ?thesis by (cases "element vt") (simp add: decode_vector_ordered_def mult.commute)
qed

section \<open>Every logical type\<close>

lemma ordered_codecI:
  assumes "\<And>v a. wf_scalar t v \<Longrightarrow> encode_ordered_component t v = Inr a \<Longrightarrow> decode_ordered_component t a = Inr v"
    and "\<And>v w a b. wf_scalar t v \<Longrightarrow> wf_scalar t w \<Longrightarrow> encode_ordered_component t v = Inr a
      \<Longrightarrow> encode_ordered_component t w = Inr b \<Longrightarrow> (a < b) = scalar_less t v w"
  shows "ordered_codec (wf_scalar t) (encode_ordered_component t) (decode_ordered_component t) (scalar_less t)"
  using assms by unfold_locales (auto dest: encode_ordered_nonempty)

lemmas ordered_decoders = with_ordered_payload_value with_ordered_payload_null small_ordered
  exact_scalar_bytes_def decode_boolean_def signed_ordered_decode unsigned_ordered_decode
  vector_ordered_decode decode_canonical_f32_Inr decode_canonical_f64_Inr decode_escaped interval_segments seg_whole
  memcomparable_text_length sortable_bits_f32 sortable_bits_f64
  signed_ordered_length [THEN order_trans, THEN small_ordered]
  unsigned_ordered_length [THEN order_trans, THEN small_ordered]
  vector_ordered_length [THEN small_ordered]

lemma flat_ordered_decode:
  assumes "\<not> nested_type t" "wf_scalar t v" "encode_ordered_component t v = Inr a"
  shows "decode_ordered_component t a = Inr v"
  using assms
  by (cases t) (auto simp: ordered_iff ordered_decoders attempt_eq_Inr
      simp del: encode_ordered_component.simps)

lemma flat_ordered_less:
  assumes "\<not> nested_type t" "encode_ordered_component t v = Inr a" "encode_ordered_component t w = Inr b"
  shows "(a < b) = scalar_less t v w"
  using assms
  by (cases t) (auto simp: ordered_iff nulls_first_def signed_ordered_less unsigned_ordered_less
      to_be_bytes_less sortable_bits_f32 sortable_bits_f64 sortable_bits_less interval_ordered_less
      vector_ordered_Inr vector_ordered_less [unfolded sortable_bits_f32] of_bool_def
      split: if_splits simp del: encode_ordered_component.simps)

lemma flat_ordered_codec:
  assumes "\<not> nested_type t"
  shows "ordered_codec (wf_scalar t) (encode_ordered_component t) (decode_ordered_component t) (scalar_less t)"
  by (rule ordered_codecI) (rule flat_ordered_decode [OF assms], assumption+, rule flat_ordered_less [OF assms])

lemma ordered_codec_scalar:
  "ordered_codec (wf_scalar t) (encode_ordered_component t) (decode_ordered_component t) (scalar_less t)"
proof (induction t)
  case (ArrayT e)
  show ?case
  proof (rule ordered_codecI)
    fix v a
    assume "wf_scalar (ArrayT e) v" "encode_ordered_component (ArrayT e) v = Inr a"
    then show "decode_ordered_component (ArrayT e) a = Inr v"
      using ordered_codec.array_ordered_decode [OF ArrayT.IH]
      by (auto simp: ordered_iff with_ordered_payload_value with_ordered_payload_null
          simp del: encode_ordered_component.simps)
  next
    fix v w a b
    assume "wf_scalar (ArrayT e) v" "wf_scalar (ArrayT e) w"
      "encode_ordered_component (ArrayT e) v = Inr a" "encode_ordered_component (ArrayT e) w = Inr b"
    then show "(a < b) = scalar_less (ArrayT e) v w"
      using ordered_codec.array_ordered_less [OF ArrayT.IH]
      by (auto simp: ordered_iff nulls_first_def simp del: encode_ordered_component.simps)
  qed
next
  case (MapT k e)
  have map: "map_ordered_codec (wf_scalar k) (encode_ordered_component k) (decode_ordered_component k)
      (scalar_less k) (wf_scalar e) (encode_ordered_component e) (decode_ordered_component e) (scalar_less e)"
    using MapT.IH by (simp add: map_ordered_codec_def)
  show ?case
  proof (rule ordered_codecI)
    fix v a
    assume "wf_scalar (MapT k e) v" "encode_ordered_component (MapT k e) v = Inr a"
    then show "decode_ordered_component (MapT k e) a = Inr v"
      using map_ordered_codec.map_ordered_decode [OF map]
      by (auto simp: ordered_iff wf_entries_def with_ordered_payload_value with_ordered_payload_null
          simp del: encode_ordered_component.simps)
  next
    fix v w a b
    assume "wf_scalar (MapT k e) v" "wf_scalar (MapT k e) w"
      "encode_ordered_component (MapT k e) v = Inr a" "encode_ordered_component (MapT k e) w = Inr b"
    then show "(a < b) = scalar_less (MapT k e) v w"
      using map_ordered_codec.map_ordered_less [OF map]
      by (auto simp: ordered_iff wf_entries_def nulls_first_def simp del: encode_ordered_component.simps)
  qed
qed (rule flat_ordered_codec; simp)+

interpretation ordered: ordered_codec "wf_scalar t" "encode_ordered_component t"
    "decode_ordered_component t" "scalar_less t" for t
  by (rule ordered_codec_scalar)

text \<open>C14. Ordered components sort as their values do: for every logical type, byte comparison of
  two encoded components is the order of the type (nulls first, signed integers by value,
  floats by the IEEE total order, text and binary by bytes, containers lexicographically). The
  values are well formed: what the Rust types guarantee, and at most 100,000 elements in every
  array and map.\<close>

theorem ordered_component_order:
  assumes "wf_scalar t v" "wf_scalar t w"
    and "encode_ordered_component t v = Inr a" "encode_ordered_component t w = Inr b"
  shows "(a < b) = scalar_less t v w"
  using assms by (rule ordered.enc_less)

theorem ordered_component_order_witness:
  "encode_ordered_component (SignedT Bits16) (SignedV (- 3)) = Inr [1, 0x7f, 0xfd]
   \<and> encode_ordered_component (SignedT Bits16) (SignedV 5) = Inr [1, 0x80, 5]
   \<and> scalar_less (SignedT Bits16) (SignedV (- 3)) (SignedV 5)"
proof -
  have try_from: "signed_try_from (- 3 :: 64 word) = Some (- 3 :: 16 word)"
    "signed_try_from (5 :: 64 word) = Some (5 :: 16 word)"
    by (simp_all add: signed_try_from_Some)
  have e: "encode_ordered_component (SignedT Bits16) (SignedV (- 3)) = Inr [1, 0x7f, 0xfd]"
    "encode_ordered_component (SignedT Bits16) (SignedV 5) = Inr [1, 0x80, 5]"
    by (simp_all add: try_from ordered_value_def flip_sign_def
        to_be_bytes_def to_le_bytes_def MAX_ORDERED_SCALAR_BYTES_def MAX_SCALAR_BYTES_def)
  have "([1, 0x7f, 0xfd] :: bytes) < [1, 0x80, 5]" by simp
  with ordered_component_order [OF _ _ e] e show ?thesis by simp
qed

section \<open>What decodes\<close>

text \<open>The loops of the container decoders stop at 100,000 elements, each accepted by the element decoder.\<close>

lemma decode_array_ordered_loop_bound:
  assumes "decode_array_ordered_loop dec remaining vs = Inr ws" "\<And>b v. dec b = Inr v \<Longrightarrow> P v"
    and "length vs \<le> 100000" "list_all P vs"
  shows "length ws \<le> 100000 \<and> list_all P ws"
  using assms
proof (induction dec remaining vs rule: decode_array_ordered_loop.induct)
  case (1 dec remaining vs)
  note step = "1.prems"(1) [unfolded decode_array_ordered_loop.simps [of dec remaining vs]]
  show ?case
  proof (cases "remaining = [0, 0]")
    case True
    with step "1.prems"(3,4) show ?thesis by simp
  next
    case False
    with step obtain stop component v where head: "\<not> take 2 remaining = [0, 0]" "\<not> 100000 \<le> length vs"
        "memcomparable_component_end remaining = Inr stop"
        "decode_memcomparable_bytes (take stop remaining) = Inr component" "dec component = Inr v"
      and rest: "decode_array_ordered_loop dec (drop stop remaining) (vs @ [v]) = Inr ws"
      by (auto simp: attempt_eq_Inr simp del: decode_array_ordered_loop.simps split: if_splits)
    show ?thesis
      using "1.IH" [OF False head rest "1.prems"(2)] "1.prems"(2) [OF head(5)] "1.prems"(4) head(2) by simp
  qed
qed

lemma decode_map_ordered_loop_bound:
  assumes "decode_map_ordered_loop dk dv remaining prev es = Inr fs" "\<And>b k. dk b = Inr k \<Longrightarrow> P k" "\<And>b v. dv b = Inr v \<Longrightarrow> Q v"
    and "length es \<le> 100000" "list_all P (map fst es)" "list_all Q (map snd es)"
  shows "length fs \<le> 100000 \<and> list_all P (map fst fs) \<and> list_all Q (map snd fs)"
  using assms
proof (induction dk dv remaining prev es rule: decode_map_ordered_loop.induct)
  case (1 dk dv remaining prev es)
  note step = "1.prems"(1) [unfolded decode_map_ordered_loop.simps [of dk dv remaining prev es]]
  show ?case
  proof (cases "remaining = [0, 0]")
    case True
    with step "1.prems"(4-6) show ?thesis by simp
  next
    case False
    with step obtain ke kc k ve vc v where head: "\<not> 100000 \<le> length es"
        "memcomparable_component_end remaining = Inr ke" "decode_memcomparable_bytes (take ke remaining) = Inr kc"
        "dk kc = Inr k" "\<not> (k = NullV \<or> key_out_of_order prev kc)"
      and tail: "memcomparable_component_end (drop ke remaining) = Inr ve"
        "decode_memcomparable_bytes (take ve (drop ke remaining)) = Inr vc" "dv vc = Inr v"
      and rest: "decode_map_ordered_loop dk dv (drop ve (drop ke remaining)) (Some kc) (es @ [(k, v)]) = Inr fs"
      by (auto simp: attempt_eq_Inr Let_def simp del: decode_map_ordered_loop.simps split: if_splits)
    show ?thesis
      using "1.IH" [OF False head refl tail rest "1.prems"(2,3)] "1.prems"(2) [OF head(4)] "1.prems"(3) [OF tail(3)]
        "1.prems"(5,6) head(1) by simp
  qed
qed

lemma with_ordered_payload_Inr:
  "with_ordered_payload a dec = Inr v \<Longrightarrow> v = NullV \<or> (\<exists>payload. dec payload = Inr v)"
  by (auto simp: with_ordered_payload_def split: list.splits if_splits)

lemma decode_vector_ordered_canonical:
  assumes "decode_vector_ordered p vt = Inr vs"
  shows "list_all canonical_f32 vs"
proof -
  let ?f = "\<lambda>b. attempt (exact_scalar_bytes 4 b) (\<lambda>b. decode_canonical_f32 (unsortable_f32_bits (from_be_bytes b)))"
  have chunks: "list_all canonical_f32 vs" if "collect_chunks f p = Inr vs" "\<And>b v. f b = Inr v \<Longrightarrow> canonical_f32 v" for f
    using that by (induction f p arbitrary: vs rule: collect_chunks.induct) (auto simp: attempt_eq_Inr)
  have "collect_chunks ?f p = Inr vs" using assms by (simp add: decode_vector_ordered_def split: if_splits)
  then show ?thesis by (rule chunks) (auto simp: attempt_eq_Inr decode_canonical_f32_Inr)
qed

lemma decode_ordered_wf: "decode_ordered_component t a = Inr v \<Longrightarrow> wf_scalar t v"
proof (induction t arbitrary: a v)
  case (ArrayT e)
  then show ?case
    using decode_array_ordered_loop_bound [of "decode_ordered_component e" _ "[]" _ "wf_scalar e"]
    by (fastforce simp: decode_array_ordered_def attempt_eq_Inr dest!: with_ordered_payload_Inr)
next
  case (MapT k e)
  then show ?case
    using decode_map_ordered_loop_bound [of "decode_ordered_component k" "decode_ordered_component e" _ None "[]" _ "wf_scalar k" "wf_scalar e"]
    by (fastforce simp: decode_map_ordered_def attempt_eq_Inr dest!: with_ordered_payload_Inr)
qed (auto simp: attempt_eq_Inr result_simps decode_canonical_f32_Inr decode_canonical_f64_Inr
    dest!: with_ordered_payload_Inr decode_vector_ordered_canonical split: if_splits)

text \<open>C15. An ordered component decodes back to the value it encodes exactly when the value is well
  formed: its floats are canonical, its text is UTF-8 and its UUIDs have sixteen bytes, as the Rust
  types guarantee, and none of its arrays and maps, at any depth, has more than 100,000 elements.
  The encoder does not check the last condition, and components of larger containers do not decode.\<close>

theorem ordered_component_roundtrip:
  assumes "encode_ordered_component t v = Inr a"
  shows "(decode_ordered_component t a = Inr v) = wf_scalar t v"
  using ordered.dec_enc [OF _ assms] decode_ordered_wf by blast

theorem ordered_component_roundtrip_witness:
  "decode_ordered_component (ArrayT TextT) [1, 1, 0x41, 0, 0xff, 0, 0xff, 0, 0, 0, 0xff, 0, 0, 0, 0]
    = Inr (ArrayV [TextV [0x41], NullV])"
proof -
  have "encode_ordered_component (ArrayT TextT) (ArrayV [TextV [0x41], NullV])
      = Inr [1, 1, 0x41, 0, 0xff, 0, 0xff, 0, 0, 0, 0xff, 0, 0, 0, 0]"
    by (simp add: encode_array_ordered_def ensure_scalar_length_def encode_memcomparable_bytes_def
        ordered_value_def MAX_SCALAR_BYTES_def MAX_ORDERED_SCALAR_BYTES_def)
  from ordered_component_roundtrip [OF this] show ?thesis by simp
qed

end
