(* ===== verification/OrderedMap.thy ===== *)
theory OrderedMap
  imports Main
begin

text \<open>
  \<^verbatim>\<open>BTreeMap\<close> of the Rust standard library: the entries in strictly increasing key order, which
  is the order of its iterators.
\<close>

type_synonym ('k, 'v) ordered_map = "('k \<times> 'v) list"

definition om_sorted :: "('k::linorder, 'v) ordered_map \<Rightarrow> bool" where
  "om_sorted m = sorted_wrt (<) (map fst m)"

abbreviation om_get :: "('k, 'v) ordered_map \<Rightarrow> 'k \<Rightarrow> 'v option" where
  "om_get \<equiv> map_of"

fun om_insert :: "'k::linorder \<Rightarrow> 'v \<Rightarrow> ('k, 'v) ordered_map \<Rightarrow> ('k, 'v) ordered_map" where
  "om_insert k v [] = [(k, v)]"
| "om_insert k v ((k', v') # m) =
     (if k < k' then (k, v) # (k', v') # m
      else if k = k' then (k, v) # m
      else (k', v') # om_insert k v m)"

lemma om_sorted_simps [simp]:
  "om_sorted []" "om_sorted ((k, v) # m) = ((\<forall>x \<in> set (map fst m). k < x) \<and> om_sorted m)"
  by (auto simp: om_sorted_def)

lemma om_insert_keys: "set (map fst (om_insert k v m)) = insert k (set (map fst m))"
  by (induction k v m rule: om_insert.induct) (simp_all add: insert_commute)

lemma om_insert_sorted [simp]: "om_sorted m \<Longrightarrow> om_sorted (om_insert k v m)"
proof (induction k v m rule: om_insert.induct)
  case (2 k v k' v' m)
  then show ?case using om_insert_keys [of k v m] by (simp add: less_trans [of k k']) force
qed simp

lemma om_get_none: "om_sorted ((k', v') # m) \<Longrightarrow> k \<le> k' \<Longrightarrow> om_get m k = None"
  by (auto simp: map_of_eq_None_iff)

lemma om_get_insert [simp]: "om_sorted m \<Longrightarrow> om_get (om_insert k v m) = (om_get m)(k \<mapsto> v)"
proof (induction k v m rule: om_insert.induct)
  case (2 k v k' v' m)
  then show ?case by (auto simp: fun_eq_iff)
qed simp

text \<open>Two maps with the same entries are the same list.\<close>

lemma om_ext: "om_sorted m \<Longrightarrow> om_sorted m' \<Longrightarrow> om_get m = om_get m' \<Longrightarrow> m = m'"
proof (induction m arbitrary: m')
  case Nil
  show ?case
  proof (cases m')
    case (Cons e n)
    have "om_get m' (fst e) = None" using fun_cong [OF Nil.prems(3), of "fst e"] by simp
    then show ?thesis by (simp add: Cons)
  qed simp
next
  case (Cons e m)
  obtain k v where e: "e = (k, v)" by (cases e)
  have get: "om_get (e # m) x = om_get m' x" for x
    using Cons.prems(3) by (rule fun_cong)
  have "m' \<noteq> []" using get [of k] e by auto
  then obtain k' v' n where m': "m' = (k', v') # n" by (metis list.exhaust surj_pair)
  have "k = k'"
  proof (rule linorder_cases [of k k'])
    assume "k < k'"
    then have "om_get m' k = None" using Cons.prems(2) m' om_get_none [of k' v' n k] by auto
    with get [of k] e show ?thesis by simp
  next
    assume "k' < k"
    then have "om_get (e # m) k' = None" using Cons.prems(1) e om_get_none [of k v m k'] by auto
    with get [of k'] m' show ?thesis by simp
  qed
  moreover from this get [of k] e m' have "v = v'" by simp
  moreover have "om_get m = om_get n"
  proof
    fix x
    show "om_get m x = om_get n x"
      using get [of x] Cons.prems(1,2) e m' \<open>k = k'\<close> om_get_none [of k v m x] om_get_none [of k' v' n x]
      by (cases "x = k") auto
  qed
  with Cons have "m = n" using e m' by simp
  ultimately show ?case using e m' by simp
qed

end
