(* ===== verification/Mvcc.thy ===== *)
theory Mvcc
  imports LogicalTypes OrderedMap "HOL-Library.Product_Lexorder" "HOL-Library.Option_ord"
begin

text \<open>
  Snapshots, write conflicts and root publication (\<^verbatim>\<open>crates/hyphae-native-mvcc/src/lib.rs\<close>).
  This theory holds the data and the operations; the conflict table is verified in
  \<^verbatim>\<open>MvccConflicts\<close> and the commit coordinator in \<^verbatim>\<open>MvccCoordinator\<close>.

  The BLAKE3 hash is a parameter \<open>H\<close>: a hasher fed piecewise hashes the concatenation. The
  coordinator's two locks appear as their poison flags; the writer mutex also serialises
  writers, which is a rule of the step relation.
\<close>

section \<open>Ordered keys\<close>

instantiation engine_kind :: linorder
begin

definition less_eq_engine_kind :: "engine_kind \<Rightarrow> engine_kind \<Rightarrow> bool" where
  "less_eq_engine_kind a b = (engine_code a \<le> engine_code b)"

definition less_engine_kind :: "engine_kind \<Rightarrow> engine_kind \<Rightarrow> bool" where
  "less_engine_kind a b = (engine_code a < engine_code b)"

instance
proof
  fix a b :: engine_kind
  show "a \<le> b \<Longrightarrow> b \<le> a \<Longrightarrow> a = b"
    by (cases a; cases b) (auto simp: less_eq_engine_kind_def word_le_nat_alt)
qed (auto simp: less_eq_engine_kind_def less_engine_kind_def)

end

datatype root_slot = RootSlot engine_kind u16

fun slot_key :: "root_slot \<Rightarrow> engine_kind \<times> u16" where
  "slot_key (RootSlot engine part) = (engine, part)"

lemma slot_key_inject: "(slot_key a = slot_key b) = (a = b)"
  by (cases a; cases b) auto

instantiation root_slot :: linorder
begin

definition less_eq_root_slot :: "root_slot \<Rightarrow> root_slot \<Rightarrow> bool" where
  "less_eq_root_slot a b = (slot_key a \<le> slot_key b)"

definition less_root_slot :: "root_slot \<Rightarrow> root_slot \<Rightarrow> bool" where
  "less_root_slot a b = (slot_key a < slot_key b)"

instance
  by standard (auto simp: less_eq_root_slot_def less_root_slot_def slot_key_inject [symmetric])

end

datatype write_key = WriteKey engine_kind "object_id option" bytes

fun conflict_key :: "write_key \<Rightarrow> engine_kind \<times> object_id option \<times> bytes" where
  "conflict_key (WriteKey engine object key) = (engine, object, key)"

lemma conflict_key_inject: "(conflict_key a = conflict_key b) = (a = b)"
  by (cases a; cases b) auto

instantiation write_key :: linorder
begin

definition less_eq_write_key :: "write_key \<Rightarrow> write_key \<Rightarrow> bool" where
  "less_eq_write_key a b = (conflict_key a \<le> conflict_key b)"

definition less_write_key :: "write_key \<Rightarrow> write_key \<Rightarrow> bool" where
  "less_write_key a b = (conflict_key a < conflict_key b)"

instance
  by standard (auto simp: less_eq_write_key_def less_write_key_def conflict_key_inject [symmetric])

end

section \<open>The conflict table\<close>

record write_conflict =
  conflict_write_key :: write_key
  latest_commit :: csn
  conflict_read_csn :: "csn option"

type_synonym conflict_table = "(write_key, csn) ordered_map"

fun validate :: "conflict_table \<Rightarrow> csn option \<Rightarrow> write_key list \<Rightarrow> write_conflict + unit" where
  "validate latest read_csn [] = Inr ()"
| "validate latest read_csn (key # keys) =
     (case om_get latest key of
        None \<Rightarrow> validate latest read_csn keys
      | Some commit \<Rightarrow>
          if (case read_csn of None \<Rightarrow> True | Some read \<Rightarrow> commit > read)
          then Inl \<lparr>conflict_write_key = key, latest_commit = commit, conflict_read_csn = read_csn\<rparr>
          else validate latest read_csn keys)"

fun publish_committed :: "conflict_table \<Rightarrow> csn \<Rightarrow> write_key list \<Rightarrow> conflict_table" where
  "publish_committed latest commit_csn [] = latest"
| "publish_committed latest commit_csn (key # keys) =
     publish_committed
       (om_insert key
          (case om_get latest key of None \<Rightarrow> commit_csn | Some old \<Rightarrow> max old commit_csn) latest)
       commit_csn keys"

section \<open>Root sets\<close>

datatype mvcc_error =
    Poisoned
  | CsnExhausted
  | InvalidWalAnchor
  | UncommittedRootSet
  | InvalidStorageTransition
  | EmptyGroup

record wal_anchor =
  anchor_lsn :: lsn
  anchor_digest :: digest

definition wal_anchor_new :: "lsn \<Rightarrow> digest \<Rightarrow> mvcc_error + wal_anchor" where
  "wal_anchor_new l d =
     (if d = 0 then Inl InvalidWalAnchor else Inr \<lparr>anchor_lsn = l, anchor_digest = d\<rparr>)"

record root_set =
  rs_visible_csn :: "csn option"
  rs_catalog_version :: catalog_version
  rs_wal_anchor :: "wal_anchor option"
  rs_roots :: "(root_slot, page_id) ordered_map"
  rs_blob_generation :: u64
  rs_page_generation :: page_generation
  rs_retention_floor_csn :: "csn option"
  rs_digest :: digest

fun root_entry_bytes :: "root_slot \<times> page_id \<Rightarrow> bytes" where
  "root_entry_bytes (RootSlot engine part, page) =
     engine_code engine # to_le_bytes part @ to_le_bytes (get page)"

text \<open>The bytes the hasher receives.\<close>

definition root_set_preimage :: "root_set \<Rightarrow> bytes" where
  "root_set_preimage r =
     ascii ''hyphae-native-root-set-v1''
     @ to_le_bytes (get_or_zero (rs_visible_csn r))
     @ to_le_bytes (get (rs_catalog_version r))
     @ (case rs_wal_anchor r of
          Some anchor \<Rightarrow> to_le_bytes (get (anchor_lsn anchor)) @ to_be_bytes (anchor_digest anchor)
        | None \<Rightarrow> to_le_bytes (0 :: u64) @ replicate 32 0)
     @ to_le_bytes (rs_blob_generation r)
     @ concat (map root_entry_bytes (rs_roots r))
     @ (if rs_page_generation r \<noteq> FIRST
            \<or> (case rs_retention_floor_csn r of None \<Rightarrow> False | Some floor \<Rightarrow> floor \<noteq> FIRST)
        then ascii ''hyphae-native-page-storage-v1''
             @ to_le_bytes (get (rs_page_generation r))
             @ to_le_bytes (get_or_zero (rs_retention_floor_csn r))
        else [])"

definition compute_digest :: "(bytes \<Rightarrow> digest) \<Rightarrow> root_set \<Rightarrow> digest" where
  "compute_digest H r = H (root_set_preimage r)"

definition genesis :: "(bytes \<Rightarrow> digest) \<Rightarrow> catalog_version \<Rightarrow> root_set" where
  "genesis H version =
     (let root = \<lparr>rs_visible_csn = None, rs_catalog_version = version, rs_wal_anchor = None,
        rs_roots = [], rs_blob_generation = 0, rs_page_generation = FIRST,
        rs_retention_floor_csn = None, rs_digest = 0\<rparr>
      in root\<lparr>rs_digest := compute_digest H root\<rparr>)"

definition committed_with_storage ::
    "(bytes \<Rightarrow> digest) \<Rightarrow> csn \<Rightarrow> catalog_version \<Rightarrow> wal_anchor \<Rightarrow> (root_slot, page_id) ordered_map
      \<Rightarrow> u64 \<Rightarrow> page_generation \<Rightarrow> csn \<Rightarrow> mvcc_error + root_set"
where
  "committed_with_storage H visible version anchor roots blob_generation page_generation floor =
     (if anchor_digest anchor = 0 then Inl InvalidWalAnchor
      else if floor > visible then Inl InvalidStorageTransition
      else
        let root = \<lparr>rs_visible_csn = Some visible, rs_catalog_version = version,
          rs_wal_anchor = Some anchor, rs_roots = roots, rs_blob_generation = blob_generation,
          rs_page_generation = page_generation, rs_retention_floor_csn = Some floor, rs_digest = 0\<rparr>
        in Inr (root\<lparr>rs_digest := compute_digest H root\<rparr>))"

definition committed ::
    "(bytes \<Rightarrow> digest) \<Rightarrow> csn \<Rightarrow> catalog_version \<Rightarrow> wal_anchor \<Rightarrow> (root_slot, page_id) ordered_map
      \<Rightarrow> u64 \<Rightarrow> mvcc_error + root_set"
where
  "committed H visible version anchor roots blob_generation =
     committed_with_storage H visible version anchor roots blob_generation FIRST FIRST"

section \<open>Snapshots and version windows\<close>

record snapshot =
  sn_visible_csn :: "csn option"
  sn_catalog_version :: catalog_version
  sn_logical_time_micros :: i64
  sn_roots :: root_set

definition from_committed_root :: "root_set \<Rightarrow> i64 \<Rightarrow> mvcc_error + snapshot" where
  "from_committed_root r time =
     attempt (ok_or UncommittedRootSet (rs_visible_csn r)) (\<lambda>visible.
     if rs_wal_anchor r = None then Inl UncommittedRootSet
     else Inr \<lparr>sn_visible_csn = Some visible, sn_catalog_version = rs_catalog_version r,
            sn_logical_time_micros = time, sn_roots = r\<rparr>)"

record version_window =
  vw_begin :: csn
  vw_end :: "csn option"

definition is_visible_at :: "version_window \<Rightarrow> csn option \<Rightarrow> bool" where
  "is_visible_at w visible_csn =
     (case visible_csn of
        None \<Rightarrow> False
      | Some visible \<Rightarrow>
          vw_begin w \<le> visible \<and> (case vw_end w of None \<Rightarrow> True | Some e \<Rightarrow> visible < e))"

section \<open>The commit coordinator\<close>

record coordinator =
  co_current :: root_set
  co_next_csn :: u64
  co_current_poisoned :: bool
  co_writer_poisoned :: bool

definition coordinator_new :: "(bytes \<Rightarrow> digest) \<Rightarrow> catalog_version \<Rightarrow> coordinator" where
  "coordinator_new H version = \<lparr>co_current = genesis H version, co_next_csn = 1,
     co_current_poisoned = False, co_writer_poisoned = False\<rparr>"

definition coordinator_restore :: "root_set \<Rightarrow> mvcc_error + coordinator" where
  "coordinator_restore root =
     attempt (ok_or UncommittedRootSet (rs_visible_csn root)) (\<lambda>visible.
     if rs_wal_anchor root = None then Inl UncommittedRootSet
     else Inr \<lparr>co_current = root,
       co_next_csn = (case checked_add (get visible) 1 of None \<Rightarrow> 0 | Some n \<Rightarrow> n),
       co_current_poisoned = False, co_writer_poisoned = False\<rparr>)"

definition root_snapshot :: "root_set \<Rightarrow> i64 \<Rightarrow> snapshot" where
  "root_snapshot r time = \<lparr>sn_visible_csn = rs_visible_csn r,
     sn_catalog_version = rs_catalog_version r, sn_logical_time_micros = time, sn_roots = r\<rparr>"

definition take_snapshot :: "coordinator \<Rightarrow> i64 \<Rightarrow> mvcc_error + snapshot" where
  "take_snapshot co time =
     (if co_current_poisoned co then Inl Poisoned else Inr (root_snapshot (co_current co) time))"

record root_transaction =
  tx_base :: root_set
  tx_roots :: "(root_slot, page_id) ordered_map"
  tx_blob_generation :: "u64 option"
  tx_page_generation :: "page_generation option"
  tx_retention_floor_csn :: "csn option"

definition begin_write :: "coordinator \<Rightarrow> mvcc_error + root_transaction" where
  "begin_write co =
     (if co_writer_poisoned co then Inl Poisoned
      else if co_next_csn co = 0 then Inl CsnExhausted
      else if co_current_poisoned co then Inl Poisoned
      else Inr \<lparr>tx_base = co_current co, tx_roots = rs_roots (co_current co),
        tx_blob_generation = None, tx_page_generation = None, tx_retention_floor_csn = None\<rparr>)"

definition csn_new :: "u64 \<Rightarrow> mvcc_error + csn" where
  "csn_new v = map_err (\<lambda>_. CsnExhausted) (identity_new ''Csn'' v)"

definition commit_csn :: "coordinator \<Rightarrow> mvcc_error + csn" where
  "commit_csn co = csn_new (co_next_csn co)"

definition set_root :: "root_slot \<Rightarrow> page_id \<Rightarrow> root_transaction \<Rightarrow> root_transaction" where
  "set_root slot page tx = tx\<lparr>tx_roots := om_insert slot page (tx_roots tx)\<rparr>"

definition set_blob_generation :: "u64 \<Rightarrow> root_transaction \<Rightarrow> root_transaction" where
  "set_blob_generation generation tx = tx\<lparr>tx_blob_generation := Some generation\<rparr>"

definition set_page_generation :: "page_generation \<Rightarrow> root_transaction \<Rightarrow> root_transaction" where
  "set_page_generation generation tx = tx\<lparr>tx_page_generation := Some generation\<rparr>"

definition set_retention_floor :: "csn \<Rightarrow> root_transaction \<Rightarrow> root_transaction" where
  "set_retention_floor floor tx = tx\<lparr>tx_retention_floor_csn := Some floor\<rparr>"

text \<open>\<^verbatim>\<open>unwrap_or\<close> and \<^verbatim>\<open>or\<close> of \<^verbatim>\<open>Option\<close>.\<close>

definition unwrap_or :: "'a option \<Rightarrow> 'a \<Rightarrow> 'a" where
  "unwrap_or opt d = (case opt of None \<Rightarrow> d | Some x \<Rightarrow> x)"

definition option_or :: "'a option \<Rightarrow> 'a option \<Rightarrow> 'a option" where
  "option_or a b = (case a of None \<Rightarrow> b | Some x \<Rightarrow> Some x)"

definition valid_transition :: "root_set \<Rightarrow> page_generation \<Rightarrow> csn \<Rightarrow> csn \<Rightarrow> bool" where
  "valid_transition base page_generation floor commit =
     (if rs_visible_csn base = None then page_generation = FIRST \<and> floor = commit
      else if page_generation \<noteq> rs_page_generation base then
        checked_next (rs_page_generation base) = Some page_generation \<and> floor = commit
      else rs_retention_floor_csn base = Some floor)"

text \<open>A commit consumes the transaction and returns the coordinator and the result.\<close>

definition commit_transaction ::
    "(bytes \<Rightarrow> digest) \<Rightarrow> coordinator \<Rightarrow> root_transaction \<Rightarrow> catalog_version \<Rightarrow> wal_anchor
      \<Rightarrow> coordinator \<times> (mvcc_error + root_set)"
where
  "commit_transaction H co tx version anchor =
     (let result =
        (if anchor_digest anchor = 0 then Inl InvalidWalAnchor
         else
           attempt (csn_new (co_next_csn co)) (\<lambda>commit.
           attempt (ok_or CsnExhausted (checked_add (co_next_csn co) 1)) (\<lambda>next.
           let page_generation = unwrap_or (tx_page_generation tx) (rs_page_generation (tx_base tx));
               floor = unwrap_or (option_or (tx_retention_floor_csn tx)
                 (rs_retention_floor_csn (tx_base tx))) commit
           in
             if \<not> valid_transition (tx_base tx) page_generation floor commit
             then Inl InvalidStorageTransition
             else
               attempt (committed_with_storage H commit version anchor (tx_roots tx)
                 (unwrap_or (tx_blob_generation tx) (rs_blob_generation (tx_base tx)))
                 page_generation floor) (\<lambda>root.
               if co_current_poisoned co then Inl Poisoned else Inr (root, next)))))
      in case result of
           Inl e \<Rightarrow> (co, Inl e)
         | Inr (root, next) \<Rightarrow> (co\<lparr>co_current := root, co_next_csn := next\<rparr>, Inr root))"

record root_group =
  gr_initial :: root_set
  gr_staged :: "root_set list"

definition begin_group_write :: "coordinator \<Rightarrow> mvcc_error + root_group" where
  "begin_group_write co =
     (if co_writer_poisoned co then Inl Poisoned
      else if co_next_csn co = 0 then Inl CsnExhausted
      else if co_current_poisoned co then Inl Poisoned
      else Inr \<lparr>gr_initial = co_current co, gr_staged = []\<rparr>)"

definition group_base_roots :: "root_group \<Rightarrow> root_set" where
  "group_base_roots g = (if gr_staged g = [] then gr_initial g else last (gr_staged g))"

definition group_base_snapshot :: "root_group \<Rightarrow> u64 \<Rightarrow> snapshot" where
  "group_base_snapshot g time = root_snapshot (group_base_roots g) time"

definition commit_csn_at_offset :: "coordinator \<Rightarrow> nat \<Rightarrow> mvcc_error + csn" where
  "commit_csn_at_offset co offset =
     (if offset \<ge> 2 ^ 64 then Inl CsnExhausted
      else attempt (ok_or CsnExhausted (checked_add (co_next_csn co) (word_of_nat offset))) csn_new)"

definition next_commit_csn :: "coordinator \<Rightarrow> root_group \<Rightarrow> mvcc_error + csn" where
  "next_commit_csn co g = commit_csn_at_offset co (length (gr_staged g))"

definition stage_commit ::
    "(bytes \<Rightarrow> digest) \<Rightarrow> coordinator \<Rightarrow> root_group \<Rightarrow> catalog_version \<Rightarrow> wal_anchor
      \<Rightarrow> (root_slot, page_id) ordered_map \<Rightarrow> u64 \<Rightarrow> root_group \<times> (mvcc_error + root_set)"
where
  "stage_commit H co g version anchor roots blob_generation =
     (let base = group_base_roots g;
          result =
            attempt (next_commit_csn co g) (\<lambda>commit.
            committed_with_storage H commit version anchor roots blob_generation
              (rs_page_generation base) (unwrap_or (rs_retention_floor_csn base) commit))
      in case result of
           Inl e \<Rightarrow> (g, Inl e)
         | Inr root \<Rightarrow> (g\<lparr>gr_staged := gr_staged g @ [root]\<rparr>, Inr root))"

definition publish_group :: "coordinator \<Rightarrow> root_group \<Rightarrow> coordinator \<times> (mvcc_error + root_set)" where
  "publish_group co g =
     (let result =
        (if gr_staged g = [] then Inl EmptyGroup
         else
           let root = last (gr_staged g) in
           attempt (ok_or UncommittedRootSet (rs_visible_csn root)) (\<lambda>visible.
           attempt (ok_or CsnExhausted (checked_add (get visible) 1)) (\<lambda>next.
           if co_current_poisoned co then Inl Poisoned else Inr (root, next))))
      in case result of
           Inl e \<Rightarrow> (co, Inl e)
         | Inr (root, next) \<Rightarrow> (co\<lparr>co_current := root, co_next_csn := next\<rparr>, Inr root))"

end
