(* ===== verification/MvccConflicts.thy ===== *)
theory MvccConflicts
  imports Mvcc
begin

text \<open>
  First-committer-wins validation. The conflict table rebuilt from a set of committed
  transactions does not depend on the order or the repetition of their replay, and a
  sequence of validated transactions never loses an update.
\<close>

section \<open>The table\<close>

definition newer :: "csn option \<Rightarrow> csn \<Rightarrow> csn option" where
  "newer old c = Some (case old of None \<Rightarrow> c | Some l \<Rightarrow> max l c)"

lemma publish_committed_sorted [simp]: "om_sorted T \<Longrightarrow> om_sorted (publish_committed T c keys)"
  by (induction keys arbitrary: T) auto

lemma newer_newer [simp]: "newer (newer old c) c = newer old c"
  by (cases old) (auto simp: newer_def)

lemma publish_committed_get:
  assumes "om_sorted T"
  shows "om_get (publish_committed T c keys) k = (if k \<in> set keys then newer (om_get T k) c else om_get T k)"
  using assms
proof (induction keys arbitrary: T)
  case (Cons key keys)
  have "om_get (publish_committed T c (key # keys)) k
      = (if k \<in> set keys then newer (((om_get T)(key := newer (om_get T key) c)) k) c
         else ((om_get T)(key := newer (om_get T key) c)) k)"
    using Cons by (simp add: newer_def)
  then show ?case by auto
qed simp

lemma validate_ok_iff:
  "(validate T read keys = Inr ())
    = (\<forall>key \<in> set keys. \<forall>c. om_get T key = Some c \<longrightarrow> (\<exists>r. read = Some r \<and> c \<le> r))"
  by (induction keys) (auto split: option.splits)

lemma validate_conflict:
  "validate T read keys = Inl e \<Longrightarrow>
    \<exists>before after. keys = before @ conflict_write_key e # after
      \<and> validate T read before = Inr ()
      \<and> om_get T (conflict_write_key e) = Some (latest_commit e) \<and> conflict_read_csn e = read
      \<and> (\<forall>r. read = Some r \<longrightarrow> latest_commit e > r)"
proof (induction keys)
  case (Cons key keys)
  show ?case
  proof (cases "validate T read [key] = Inr ()")
    case True
    then have pass: "validate T read (key # ks) = validate T read ks" for ks
      by (auto split: option.splits if_splits)
    with Cons obtain before after where "keys = before @ conflict_write_key e # after"
      "validate T read before = Inr ()"
      "om_get T (conflict_write_key e) = Some (latest_commit e) \<and> conflict_read_csn e = read
      \<and> (\<forall>r. read = Some r \<longrightarrow> latest_commit e > r)"
      by auto
    then show ?thesis using pass [of before] by (intro exI [of _ "key # before"] exI [of _ after]) simp
  next
    case False
    with Cons.prems show ?thesis
      by (intro exI [of _ "[]"] exI [of _ keys]) (auto split: option.splits if_splits)
  qed
qed simp

text \<open>C16. Validation accepts a write set exactly when the snapshot has seen the latest commit of
  every key of the set; a rejection names the first conflicting key, its latest commit and
  the snapshot.\<close>

theorem validate_first_committer_wins:
  "case validate T read keys of
     Inr u \<Rightarrow> list_all (\<lambda>key. case om_get T key of None \<Rightarrow> True
                    | Some c \<Rightarrow> (case read of None \<Rightarrow> False | Some r \<Rightarrow> c \<le> r)) keys
   | Inl e \<Rightarrow> (\<exists>before after. keys = before @ conflict_write_key e # after
        \<and> validate T read before = Inr ()
        \<and> om_get T (conflict_write_key e) = Some (latest_commit e)
        \<and> conflict_read_csn e = read
        \<and> (case read of None \<Rightarrow> True | Some r \<Rightarrow> r < latest_commit e))"
proof (cases "validate T read keys")
  case (Inl e)
  then show ?thesis using validate_conflict [OF Inl] by (auto split: option.splits)
next
  case (Inr u)
  then have "validate T read keys = Inr ()" by simp
  then have "\<forall>key \<in> set keys. \<forall>c. om_get T key = Some c \<longrightarrow> (\<exists>r. read = Some r \<and> c \<le> r)"
    by (simp only: validate_ok_iff)
  then show ?thesis
    by (fastforce simp: Inr list_all_iff split: option.splits)
qed

section \<open>Replay\<close>

text \<open>Recovery publishes every committed transaction of the log.\<close>

fun replay_committed :: "conflict_table \<Rightarrow> (csn \<times> write_key list) list \<Rightarrow> conflict_table" where
  "replay_committed T [] = T"
| "replay_committed T ((c, keys) # log) = replay_committed (publish_committed T c keys) log"

definition writers :: "(csn \<times> write_key list) list \<Rightarrow> write_key \<Rightarrow> csn set" where
  "writers log k = set (map fst (filter (\<lambda>e. k \<in> set (snd e)) log))"

definition latest_in :: "csn set \<Rightarrow> csn option" where
  "latest_in S = (if S = {} then None else Some (Max S))"

lemma replay_committed_sorted [simp]: "om_sorted T \<Longrightarrow> om_sorted (replay_committed T log)"
  by (induction T log rule: replay_committed.induct) auto

lemma finite_writers [simp]: "finite (writers log k)"
  by (simp add: writers_def)

lemma writers_Cons: "writers ((c, keys) # log) k = (if k \<in> set keys then insert c (writers log k) else writers log k)"
  by (simp add: writers_def)

lemma latest_in_newer:
  assumes "finite R"
  shows "latest_in (set_option (newer old c) \<union> R) = latest_in (set_option old \<union> insert c R)"
proof (cases old)
  case None
  then show ?thesis by (simp add: newer_def)
next
  case (Some l)
  show ?thesis
    by (cases "R = {}") (use assms in \<open>auto simp: newer_def latest_in_def Some ac_simps\<close>)
qed

lemma replay_committed_get:
  assumes "om_sorted T"
  shows "om_get (replay_committed T log) k = latest_in (set_option (om_get T k) \<union> writers log k)"
  using assms
proof (induction T log rule: replay_committed.induct)
  case (1 T)
  then show ?case by (cases "om_get T k") (auto simp: writers_def latest_in_def)
next
  case (2 T c keys log)
  then show ?case
    by (simp add: publish_committed_get writers_Cons latest_in_newer)
qed

text \<open>C17. The table rebuilt from a log depends only on the set of its committed transactions:
  replaying them in another order, or some of them twice, gives the same table.\<close>

theorem replay_order_independent:
  assumes "om_sorted T" and "set log = set log'"
  shows "replay_committed T log = replay_committed T log'"
proof (rule om_ext)
  have "writers log k = writers log' k" for k using assms(2) by (simp add: writers_def)
  then show "om_get (replay_committed T log) = om_get (replay_committed T log')"
    using assms(1) by (simp add: fun_eq_iff replay_committed_get)
qed (use assms(1) in auto)

theorem replay_order_independent_witness:
  "replay_committed [] [(nz 2, [WriteKey Search None [1]]), (nz 1, [WriteKey Search None [1]])]
   = replay_committed [] [(nz 1, [WriteKey Search None [1]]), (nz 2, [WriteKey Search None [1]]),
       (nz 1, [WriteKey Search None [1]])]"
  by (rule replay_order_independent) auto

section \<open>No lost updates\<close>

record transaction =
  t_read :: "csn option"
  t_commit :: csn
  t_keys :: "write_key list"

text \<open>Transactions are validated and published one after the other.\<close>

fun admit_all :: "conflict_table \<Rightarrow> transaction list \<Rightarrow> write_conflict + conflict_table" where
  "admit_all T [] = Inr T"
| "admit_all T (t # ts) =
     attempt (validate T (t_read t) (t_keys t)) (\<lambda>_.
     admit_all (publish_committed T (t_commit t) (t_keys t)) ts)"

lemma publish_committed_grows:
  assumes "om_sorted T" "om_get T k = Some c"
  shows "\<exists>c'. om_get (publish_committed T d keys) k = Some c' \<and> c \<le> c'"
  using assms by (auto simp: publish_committed_get newer_def)

lemma admitted_sees:
  assumes "om_sorted T" "om_get T k = Some c" "admit_all T ts = Inr T'"
    and "j < length ts" "k \<in> set (t_keys (ts ! j))"
  shows "\<exists>r. t_read (ts ! j) = Some r \<and> c \<le> r"
  using assms
proof (induction ts arbitrary: T c j)
  case (Cons t ts)
  then have valid: "validate T (t_read t) (t_keys t) = Inr ()"
    and rest: "admit_all (publish_committed T (t_commit t) (t_keys t)) ts = Inr T'"
    by (auto simp: attempt_eq_Inr)
  show ?case
  proof (cases j)
    case 0
    with valid Cons.prems show ?thesis by (auto simp: validate_ok_iff)
  next
    case (Suc i)
    obtain c' where "om_get (publish_committed T (t_commit t) (t_keys t)) k = Some c'" "c \<le> c'"
      using publish_committed_grows [OF Cons.prems(1,2)] by blast
    with Cons.IH [OF _ _ rest, of c' i] Cons.prems Suc show ?thesis by fastforce
  qed
qed simp

lemma admit_all_pair:
  assumes "om_sorted T" "admit_all T ts = Inr T'" "i < j" "j < length ts"
    and "k \<in> set (t_keys (ts ! i))" "k \<in> set (t_keys (ts ! j))"
  shows "\<exists>r. t_read (ts ! j) = Some r \<and> t_commit (ts ! i) \<le> r"
  using assms
proof (induction ts arbitrary: T i j)
  case (Cons t ts)
  then have rest: "admit_all (publish_committed T (t_commit t) (t_keys t)) ts = Inr T'"
    by (auto simp: attempt_eq_Inr)
  obtain j' where j: "j = Suc j'" using Cons.prems(3) by (cases j) auto
  show ?case
  proof (cases i)
    case 0
    then obtain c where "om_get (publish_committed T (t_commit t) (t_keys t)) k = Some c" "t_commit t \<le> c"
      using Cons.prems by (auto simp: publish_committed_get newer_def split: option.splits)
    with admitted_sees [OF _ _ rest, of k c j'] Cons.prems 0 j show ?thesis by fastforce
  next
    case (Suc i')
    with Cons.IH [OF _ rest, of i' j'] Cons.prems j show ?thesis by simp
  qed
qed simp

text \<open>C18. No update is lost: in any sequence of admitted transactions, a transaction that writes a
  key some earlier one wrote has read a snapshot that contains the earlier commit.\<close>

theorem no_lost_updates:
  assumes "admit_all [] ts = Inr T" and "i < j" and "j < length ts"
    and "set (t_keys (ts ! i)) \<inter> set (t_keys (ts ! j)) \<noteq> {}"
  shows "\<exists>r. t_read (ts ! j) = Some r \<and> t_commit (ts ! i) \<le> r"
  using assms admit_all_pair [of "[]" ts T i j] by auto

theorem no_lost_updates_witness:
  "(let k = WriteKey Relational None [7];
        ts = [\<lparr>t_read = None, t_commit = nz 1, t_keys = [k]\<rparr>,
              \<lparr>t_read = Some (nz 1), t_commit = nz 2, t_keys = [k]\<rparr>]
    in (\<exists>T. admit_all [] ts = Inr T)
       \<and> (\<exists>r. t_read (ts ! 1) = Some r \<and> t_commit (ts ! 0) \<le> r))"
proof -
  define k where "k = WriteKey Relational None [7]"
  define ts where "ts = [\<lparr>t_read = None, t_commit = nz 1, t_keys = [k]\<rparr>,
    \<lparr>t_read = Some (nz 1), t_commit = nz 2, t_keys = [k]\<rparr>]"
  have "admit_all [] ts = Inr (publish_committed (publish_committed [] (nz 1) [k]) (nz 2) [k])"
    by (simp add: ts_def)
  moreover have "\<exists>r. t_read (ts ! 1) = Some r \<and> t_commit (ts ! 0) \<le> r"
    by (rule no_lost_updates [OF calculation]) (simp_all add: ts_def)
  ultimately show ?thesis by (simp add: Let_def ts_def k_def)
qed

section \<open>Version windows\<close>

text \<open>The versions of one row: each ends where the next begins, and the last is open.\<close>

fun version_chain :: "version_window list \<Rightarrow> bool" where
  "version_chain [] = False"
| "version_chain [w] = (vw_end w = None)"
| "version_chain (w # w' # ws) =
     (vw_end w = Some (vw_begin w') \<and> vw_begin w < vw_begin w' \<and> version_chain (w' # ws))"

lemma version_chain_before:
  "version_chain ws \<Longrightarrow> w \<in> set ws \<Longrightarrow> vw_begin (hd ws) \<le> vw_begin w"
  by (induction ws rule: version_chain.induct) (auto dest: less_imp_le order_trans)

text \<open>A snapshot at or after the first version of a row sees exactly one version of it.\<close>

theorem version_chain_unique:
  assumes "version_chain ws" and "vw_begin (hd ws) \<le> v"
  shows "length (filter (\<lambda>w. is_visible_at w (Some v)) ws) = 1"
  using assms
proof (induction ws rule: version_chain.induct)
  case (3 w w' ws)
  show ?case
  proof (cases "vw_begin w' \<le> v")
    case True
    with 3 show ?thesis by (simp add: is_visible_at_def)
  next
    case False
    have "\<forall>u \<in> set (w' # ws). \<not> is_visible_at u (Some v)"
      using version_chain_before [of "w' # ws"] 3 False by (fastforce simp: is_visible_at_def)
    then have "filter (\<lambda>u. is_visible_at u (Some v)) (w' # ws) = []"
      by (simp only: filter_empty_conv)
    with 3 False show ?thesis by (simp add: is_visible_at_def)
  qed
qed (auto simp: is_visible_at_def)

theorem version_chain_unique_witness:
  "length (filter (\<lambda>w. is_visible_at w (Some (nz 5)))
     [\<lparr>vw_begin = nz 2, vw_end = Some (nz 4)\<rparr>, \<lparr>vw_begin = nz 4, vw_end = None\<rparr>]) = 1"
  by (rule version_chain_unique) (simp_all add: less_nonzero_def less_eq_nonzero_def)

end
