(* ===== verification/MvccCoordinator.thy ===== *)
theory MvccCoordinator
  imports MvccConflicts
begin

text \<open>
  The commit coordinator as a state machine: one writer at a time (a transaction or a group),
  any number of snapshots. The invariant of its reachable states gives snapshot
  isolation, the commit sequence numbers and the storage transitions; a published
  group is shown to refine a sequence of single commits.
\<close>

section \<open>Root sets\<close>

definition visible_number :: "root_set \<Rightarrow> nat" where
  "visible_number r = unat (get_or_zero (rs_visible_csn r))"

definition floor_number :: "root_set \<Rightarrow> nat" where
  "floor_number r = unat (get_or_zero (rs_retention_floor_csn r))"

definition wf_root :: "(bytes \<Rightarrow> digest) \<Rightarrow> root_set \<Rightarrow> bool" where
  "wf_root H r =
     (om_sorted (rs_roots r) \<and> rs_digest r = compute_digest H r \<and>
      (case rs_visible_csn r of
         None \<Rightarrow> rs_wal_anchor r = None \<and> rs_retention_floor_csn r = None
           \<and> rs_page_generation r = FIRST
       | Some v \<Rightarrow>
           (case rs_wal_anchor r of None \<Rightarrow> False | Some a \<Rightarrow> anchor_digest a \<noteq> 0)
           \<and> (case rs_retention_floor_csn r of None \<Rightarrow> False | Some f \<Rightarrow> f \<le> v)))"

text \<open>A later root set: a larger commit number, no older floor or page generation.\<close>

definition root_advance :: "root_set \<Rightarrow> root_set \<Rightarrow> bool" where
  "root_advance old new =
     (visible_number old < visible_number new \<and> floor_number old \<le> floor_number new
      \<and> rs_page_generation old \<le> rs_page_generation new)"

lemma root_advance_trans: "root_advance a b \<Longrightarrow> root_advance b c \<Longrightarrow> root_advance a c"
  by (auto simp: root_advance_def)

lemma preimage_digest [simp]: "root_set_preimage (r\<lparr>rs_digest := d\<rparr>) = root_set_preimage r"
  by (simp add: root_set_preimage_def)

lemma wf_genesis [simp]: "wf_root H (genesis H version)"
  by (simp add: wf_root_def genesis_def compute_digest_def root_set_preimage_def Let_def)

lemma visible_genesis [simp]: "visible_number (genesis H version) = 0"
  by (simp add: visible_number_def genesis_def Let_def get_or_zero_def)

lemma committed_with_storage_Inr:
  assumes "committed_with_storage H visible version anchor roots blob gen floor = Inr r"
  shows "rs_visible_csn r = Some visible" "rs_roots r = roots" "rs_page_generation r = gen"
    "rs_retention_floor_csn r = Some floor" "om_sorted roots \<Longrightarrow> wf_root H r"
  using assms
  by (auto simp: committed_with_storage_def wf_root_def Let_def compute_digest_def
      root_set_preimage_def split: if_splits)

lemma floor_le_visible: "wf_root H r \<Longrightarrow> floor_number r \<le> visible_number r"
  by (auto simp: wf_root_def floor_number_def visible_number_def get_or_zero_def less_eq_nonzero_def
      word_le_nat_alt split: option.splits)

section \<open>The coordinator invariant\<close>

definition coordinator_inv :: "(bytes \<Rightarrow> digest) \<Rightarrow> coordinator \<Rightarrow> bool" where
  "coordinator_inv H co =
     (wf_root H (co_current co)
      \<and> unat (co_next_csn co) = (visible_number (co_current co) + 1) mod 2 ^ 64)"

lemma coordinator_inv_new: "coordinator_inv H (coordinator_new H version)"
  by (simp add: coordinator_inv_def coordinator_new_def)

lemma coordinator_inv_restore:
  assumes "coordinator_restore root = Inr co" and "wf_root H root"
  shows "coordinator_inv H co"
proof -
  obtain v where v: "rs_visible_csn root = Some v"
    and co: "co_current co = root"
      "co_next_csn co = (case checked_add (get v) 1 of None \<Rightarrow> 0 | Some n \<Rightarrow> n)"
    using assms(1) by (auto simp: coordinator_restore_def attempt_eq_Inr ok_or_eq_Inr split: if_splits)
  have "unat (get v) < 2 ^ 64" using unsigned_less [of "get v"] by simp
  then have "unat (co_next_csn co) = (unat (get v) + 1) mod 2 ^ 64"
    by (cases "unat (get v) = 2 ^ 64 - 1") (auto simp: co checked_add_def unat_word_ariths)
  then show ?thesis
    using assms(2) co v by (simp add: coordinator_inv_def visible_number_def get_or_zero_def)
qed

lemma next_csn_number:
  assumes "coordinator_inv H co" and "csn_new (co_next_csn co) = Inr c"
  shows "unat (get c) = visible_number (co_current co) + 1" "get c = co_next_csn co"
proof -
  show c: "get c = co_next_csn co"
    using assms(2) by (simp add: csn_new_def map_err_eq_Inr identity_new_Inr)
  have "unat (get_or_zero (rs_visible_csn (co_current co))) < 2 ^ 64"
    using unsigned_less [of "get_or_zero (rs_visible_csn (co_current co))"] by simp
  moreover have "unat (co_next_csn co) \<noteq> 0" using c get_nonzero [of c] by (simp add: unat_eq_0)
  ultimately have "visible_number (co_current co) + 1 < 2 ^ 64"
    using assms(1) unfolding coordinator_inv_def visible_number_def
    by (cases "unat (get_or_zero (rs_visible_csn (co_current co))) + 1 = 2 ^ 64") auto
  then show "unat (get c) = visible_number (co_current co) + 1"
    using assms(1) by (simp add: c coordinator_inv_def)
qed

section \<open>Commits\<close>

lemma commit_transaction_cases:
  assumes "commit_transaction H co tx version anchor = (co', result)"
  obtains (error) e where "result = Inl e" "co' = co"
  | (published) root c n gen floor where
    "result = Inr root" "co' = co\<lparr>co_current := root, co_next_csn := n\<rparr>"
    "csn_new (co_next_csn co) = Inr c" "checked_add (co_next_csn co) 1 = Some n"
    "gen = unwrap_or (tx_page_generation tx) (rs_page_generation (tx_base tx))"
    "valid_transition (tx_base tx) gen floor c"
    "committed_with_storage H c version anchor (tx_roots tx)
       (unwrap_or (tx_blob_generation tx) (rs_blob_generation (tx_base tx))) gen floor = Inr root"
proof (cases result)
  case (Inl e)
  with assms show thesis
    by (intro error) (auto simp: commit_transaction_def Let_def split: sum.splits)
next
  case (Inr root)
  define gen where "gen = unwrap_or (tx_page_generation tx) (rs_page_generation (tx_base tx))"
  from assms Inr obtain c n floor where "csn_new (co_next_csn co) = Inr c"
    "checked_add (co_next_csn co) 1 = Some n" "valid_transition (tx_base tx) gen floor c"
    "committed_with_storage H c version anchor (tx_roots tx)
       (unwrap_or (tx_blob_generation tx) (rs_blob_generation (tx_base tx))) gen floor = Inr root"
    "co' = co\<lparr>co_current := root, co_next_csn := n\<rparr>"
    unfolding commit_transaction_def Let_def gen_def
    by (auto simp: attempt_eq_Inr ok_or_eq_Inr split: sum.splits if_splits)
  with Inr show thesis by (intro published [of root n c gen floor]) (simp_all add: gen_def)
qed

lemma commit_transaction_error: "commit_transaction H co tx version anchor = (co', Inl e) \<Longrightarrow> co' = co"
  by (erule commit_transaction_cases) simp_all

lemma commit_transaction_inv:
  assumes inv: "coordinator_inv H co" and base: "tx_base tx = co_current co" "om_sorted (tx_roots tx)"
    and commit: "commit_transaction H co tx version anchor = (co', Inr root)"
  shows "coordinator_inv H co'" "co_current co' = root" "root_advance (co_current co) root"
    "visible_number root = visible_number (co_current co) + 1"
proof -
  from commit obtain c n gen floor where
    co': "co' = co\<lparr>co_current := root, co_next_csn := n\<rparr>"
    and c: "csn_new (co_next_csn co) = Inr c" and n: "checked_add (co_next_csn co) 1 = Some n"
    and t: "valid_transition (tx_base tx) gen floor c"
    and root: "committed_with_storage H c version anchor (tx_roots tx)
       (unwrap_or (tx_blob_generation tx) (rs_blob_generation (tx_base tx))) gen floor = Inr root"
    by (rule commit_transaction_cases) auto
  note fields = committed_with_storage_Inr [OF root]
  show vis: "visible_number root = visible_number (co_current co) + 1"
    using next_csn_number [OF inv c] by (simp add: visible_number_def fields get_or_zero_def)
  show "co_current co' = root" by (simp add: co')
  have "unat n = unat (co_next_csn co) + 1" using n by (simp add: checked_add_Some)
  moreover have "unat n < 2 ^ 64" using unsigned_less [of n] by simp
  ultimately show "coordinator_inv H co'"
    using fields(5) base(2) vis next_csn_number [OF inv c] by (simp add: coordinator_inv_def co')
  have "floor_number (co_current co) \<le> visible_number (co_current co)"
    using inv by (auto simp: coordinator_inv_def intro: floor_le_visible [of H])
  then have "floor_number (co_current co) \<le> floor_number root"
    using t vis fields base(1) next_csn_number(1) [OF inv c]
    by (auto simp: valid_transition_def floor_number_def get_or_zero_def split: if_splits)
  moreover have "rs_page_generation (co_current co) \<le> rs_page_generation root"
    using t base(1) inv fields checked_next_greater
    by (fastforce simp: valid_transition_def coordinator_inv_def wf_root_def split: if_splits)
  ultimately show "root_advance (co_current co) root" using vis by (simp add: root_advance_def)
qed

section \<open>Groups\<close>

text \<open>The staged chain: consecutive commit numbers, each root set an advance over the initial one.\<close>

definition group_inv :: "(bytes \<Rightarrow> digest) \<Rightarrow> coordinator \<Rightarrow> root_group \<Rightarrow> bool" where
  "group_inv H co g =
     (gr_initial g = co_current co \<and> co_next_csn co \<noteq> 0
      \<and> (\<forall>i < length (gr_staged g).
           wf_root H (gr_staged g ! i)
           \<and> visible_number (gr_staged g ! i) = unat (co_next_csn co) + i
           \<and> root_advance (co_current co) (gr_staged g ! i)))"

lemma group_base_inv:
  assumes "coordinator_inv H co" "group_inv H co g"
  shows "wf_root H (group_base_roots g)"
    and "visible_number (group_base_roots g) + 1 = unat (co_next_csn co) + length (gr_staged g)"
    and "group_base_roots g = co_current co \<or> root_advance (co_current co) (group_base_roots g)"
proof -
  have next_ok: "unat (co_next_csn co) = visible_number (co_current co) + 1"
  proof -
    have "visible_number (co_current co) < 2 ^ 64"
      using unsigned_less [of "get_or_zero (rs_visible_csn (co_current co))"] by (simp add: visible_number_def)
    moreover have "unat (co_next_csn co) \<noteq> 0" using assms(2) by (simp add: group_inv_def unat_eq_0)
    ultimately show ?thesis
      using assms(1) by (cases "visible_number (co_current co) + 1 = 2 ^ 64") (auto simp: coordinator_inv_def)
  qed
  show "wf_root H (group_base_roots g)"
    "visible_number (group_base_roots g) + 1 = unat (co_next_csn co) + length (gr_staged g)"
    "group_base_roots g = co_current co \<or> root_advance (co_current co) (group_base_roots g)"
    using assms next_ok
    by (auto simp: group_base_roots_def group_inv_def coordinator_inv_def last_conv_nth)
qed

lemma stage_commit_cases:
  assumes "stage_commit H co g version anchor roots blob = (g', result)"
  obtains (error) e where "result = Inl e" "g' = g"
  | (staged) root c where "result = Inr root" "g' = g\<lparr>gr_staged := gr_staged g @ [root]\<rparr>"
    "next_commit_csn co g = Inr c"
    "committed_with_storage H c version anchor roots blob (rs_page_generation (group_base_roots g))
       (unwrap_or (rs_retention_floor_csn (group_base_roots g)) c) = Inr root"
proof (cases result)
  case (Inl e)
  with assms show thesis by (intro error) (auto simp: stage_commit_def Let_def split: sum.splits)
next
  case (Inr root)
  with assms show thesis
    by (auto simp: stage_commit_def Let_def attempt_eq_Inr split: sum.splits intro: staged)
qed

lemma next_commit_csn_number:
  "next_commit_csn co g = Inr c \<Longrightarrow> unat (get c) = unat (co_next_csn co) + length (gr_staged g)"
  by (auto simp: next_commit_csn_def commit_csn_at_offset_def attempt_eq_Inr ok_or_eq_Inr csn_new_def
      map_err_eq_Inr identity_new_Inr checked_add_Some unat_word_of_nat split: if_splits)

lemma stage_commit_inv:
  assumes "coordinator_inv H co" "group_inv H co g" "om_sorted roots"
    and "stage_commit H co g version anchor roots blob = (g', result)"
  shows "group_inv H co g'"
  using assms(4)
proof (cases rule: stage_commit_cases)
  case (error e)
  with assms(2) show ?thesis by simp
next
  case (staged root c)
  note base = group_base_inv [OF assms(1,2)] and fields = committed_with_storage_Inr [OF staged(4)]
  have vis: "visible_number root = unat (co_next_csn co) + length (gr_staged g)"
    using next_commit_csn_number [OF staged(3)] by (simp add: visible_number_def fields get_or_zero_def)
  have "floor_number (group_base_roots g) \<le> floor_number root"
    using base(1) by (auto simp: floor_number_def fields unwrap_or_def get_or_zero_def split: option.splits)
  then have "root_advance (group_base_roots g) root"
    using base(2) vis by (simp add: root_advance_def fields)
  then have "root_advance (co_current co) root"
    using base(3) root_advance_trans by metis
  with assms(2,3) vis fields(5) staged(2) show ?thesis
    by (auto simp: group_inv_def nth_append less_Suc_eq)
qed

lemma publish_group_cases:
  assumes "publish_group co g = (co', result)"
  obtains (error) e where "result = Inl e" "co' = co"
  | (published) v n where "result = Inr (last (gr_staged g))" "gr_staged g \<noteq> []"
    "co' = co\<lparr>co_current := last (gr_staged g), co_next_csn := n\<rparr>"
    "rs_visible_csn (last (gr_staged g)) = Some v" "checked_add (get v) 1 = Some n"
proof (cases result)
  case (Inl e)
  with assms show thesis by (intro error) (auto simp: publish_group_def Let_def split: sum.splits)
next
  case (Inr root)
  with assms show thesis
    by (auto simp: publish_group_def Let_def attempt_eq_Inr ok_or_eq_Inr
        split: sum.splits if_splits intro: published)
qed

lemma publish_group_error: "publish_group co g = (co', Inl e) \<Longrightarrow> co' = co"
  by (erule publish_group_cases) simp_all

lemma publish_group_inv:
  assumes "coordinator_inv H co" "group_inv H co g" "publish_group co g = (co', Inr root)"
  shows "coordinator_inv H co'" "co_current co' = root" "root_advance (co_current co) root"
    "visible_number root = visible_number (co_current co) + length (gr_staged g)"
proof -
  note base = group_base_inv [OF assms(1,2)]
  from assms(3) obtain v n where root: "root = last (gr_staged g)" "gr_staged g \<noteq> []"
    "co' = co\<lparr>co_current := root, co_next_csn := n\<rparr>" "rs_visible_csn root = Some v"
    and n: "checked_add (get v) 1 = Some n"
    by (cases rule: publish_group_cases) auto
  have "unat n = unat (get v) + 1" using n by (simp add: checked_add_Some)
  moreover have "unat n < 2 ^ 64" using unsigned_less [of n] by simp
  ultimately show "coordinator_inv H co'"
    using base(1) root by (simp add: coordinator_inv_def group_base_roots_def visible_number_def get_or_zero_def)
  show "co_current co' = root" by (simp add: root)
  show adv: "root_advance (co_current co) root"
    using assms(2) root(1,2) by (simp add: group_inv_def last_conv_nth)
  have "unat (co_next_csn co) = visible_number (co_current co) + 1"
    using group_base_inv(2) [of H co "g\<lparr>gr_staged := []\<rparr>"] assms(1,2)
    by (simp add: group_inv_def group_base_roots_def)
  then show "visible_number root = visible_number (co_current co) + length (gr_staged g)"
    using base(2) root(1,2) by (simp add: group_base_roots_def)
qed

section \<open>A published group is a sequence of commits\<close>

record commit_request =
  rq_version :: catalog_version
  rq_anchor :: wal_anchor
  rq_roots :: "(root_slot, page_id) ordered_map"
  rq_blob_generation :: u64

text \<open>The single transaction that writes the roots and blob generation of a request.\<close>

definition request_transaction :: "coordinator \<Rightarrow> commit_request \<Rightarrow> root_transaction" where
  "request_transaction co q =
     \<lparr>tx_base = co_current co, tx_roots = rq_roots q, tx_blob_generation = Some (rq_blob_generation q),
      tx_page_generation = None, tx_retention_floor_csn = None\<rparr>"

fun commit_all :: "(bytes \<Rightarrow> digest) \<Rightarrow> coordinator \<Rightarrow> commit_request list \<Rightarrow> mvcc_error + coordinator" where
  "commit_all H co [] = Inr co"
| "commit_all H co (q # qs) =
     (case commit_transaction H co (request_transaction co q) (rq_version q) (rq_anchor q) of
        (co', Inl e) \<Rightarrow> Inl e
      | (co', Inr root) \<Rightarrow> commit_all H co' qs)"

fun stage_all :: "(bytes \<Rightarrow> digest) \<Rightarrow> coordinator \<Rightarrow> root_group \<Rightarrow> commit_request list \<Rightarrow> mvcc_error + root_group" where
  "stage_all H co g [] = Inr g"
| "stage_all H co g (q # qs) =
     (case stage_commit H co g (rq_version q) (rq_anchor q) (rq_roots q) (rq_blob_generation q) of
        (g', Inl e) \<Rightarrow> Inl e
      | (g', Inr root) \<Rightarrow> stage_all H co g' qs)"

text \<open>The coordinator that has committed what the group has staged.\<close>

definition staged_coordinator :: "coordinator \<Rightarrow> root_group \<Rightarrow> coordinator" where
  "staged_coordinator co g =
     co\<lparr>co_current := group_base_roots g,
        co_next_csn := co_next_csn co + word_of_nat (length (gr_staged g))\<rparr>"

lemma stage_commit_simulates:
  assumes inv: "coordinator_inv H co" "group_inv H co g"
    and ok: "\<not> co_current_poisoned co" "unat (co_next_csn co) + length (gr_staged g) + 1 < 2 ^ 64"
    and stage: "stage_commit H co g (rq_version q) (rq_anchor q) (rq_roots q) (rq_blob_generation q) = (g', Inr root)"
  shows "commit_transaction H (staged_coordinator co g) (request_transaction (staged_coordinator co g) q)
      (rq_version q) (rq_anchor q) = (staged_coordinator co g', Inr root)"
proof -
  let ?co = "staged_coordinator co g" and ?base = "group_base_roots g"
  let ?n = "word_of_nat (length (gr_staged g)) :: u64"
  from stage obtain c where g': "g' = g\<lparr>gr_staged := gr_staged g @ [root]\<rparr>"
    and c: "next_commit_csn co g = Inr c"
    and root: "committed_with_storage H c (rq_version q) (rq_anchor q) (rq_roots q) (rq_blob_generation q)
      (rs_page_generation ?base) (unwrap_or (rs_retention_floor_csn ?base) c) = Inr root"
    by (cases rule: stage_commit_cases) auto
  have n: "unat ?n = length (gr_staged g)" using ok(2) by (intro unat_word_of_nat) simp
  have next_n: "unat (co_next_csn co + ?n) = unat (co_next_csn co) + length (gr_staged g)"
    using ok(2) n by (simp add: unat_add_small)
  then have "get c = co_next_csn co + ?n"
    using next_commit_csn_number [OF c] by (simp add: word_unat_eq_iff)
  then have csn: "csn_new (co_next_csn ?co) = Inr c"
    by (simp add: csn_new_def map_err_eq_Inr identity_new_Inr staged_coordinator_def)
  have "checked_add (co_next_csn ?co) 1 = Some (co_next_csn ?co + 1)"
    using ok(2) next_n by (simp add: checked_add_def staged_coordinator_def)
  moreover have "co_next_csn ?co + 1 = co_next_csn (staged_coordinator co g')"
    by (simp add: staged_coordinator_def g')
  moreover have "valid_transition ?base (rs_page_generation ?base) (unwrap_or (rs_retention_floor_csn ?base) c) c"
    using group_base_inv(1) [OF inv]
    by (auto simp: valid_transition_def wf_root_def unwrap_or_def split: option.splits)
  moreover have "anchor_digest (rq_anchor q) \<noteq> 0"
    using root by (auto simp: committed_with_storage_def split: if_splits)
  ultimately show ?thesis
    using csn root ok(1)
    by (simp add: commit_transaction_def request_transaction_def unwrap_or_def option_or_def
        staged_coordinator_def g' group_base_roots_def split: option.splits)
qed

lemma stage_all_inv:
  "stage_all H co g qs = Inr g' \<Longrightarrow> coordinator_inv H co \<Longrightarrow> group_inv H co g
    \<Longrightarrow> \<forall>q \<in> set qs. om_sorted (rq_roots q) \<Longrightarrow> group_inv H co g'"
proof (induction qs arbitrary: g)
  case (Cons q qs)
  then show ?case using stage_commit_inv [of H co g] by (fastforce split: prod.splits sum.splits)
qed simp

lemma stage_all_simulates:
  assumes "stage_all H co g qs = Inr g'" "coordinator_inv H co" "group_inv H co g"
    and "\<not> co_current_poisoned co" "unat (co_next_csn co) + length (gr_staged g') < 2 ^ 64"
    and "\<forall>q \<in> set qs. om_sorted (rq_roots q)"
  shows "commit_all H (staged_coordinator co g) qs = Inr (staged_coordinator co g')
    \<and> length (gr_staged g) + length qs = length (gr_staged g') \<and> group_inv H co g'"
  using assms
proof (induction qs arbitrary: g)
  case (Cons q qs)
  obtain g1 root where stage: "stage_commit H co g (rq_version q) (rq_anchor q) (rq_roots q)
      (rq_blob_generation q) = (g1, Inr root)" and rest: "stage_all H co g1 qs = Inr g'"
    using Cons.prems(1) by (auto split: prod.splits sum.splits)
  have inv1: "group_inv H co g1" using stage_commit_inv [OF Cons.prems(2,3) _ stage] Cons.prems(6) by simp
  have ih: "commit_all H (staged_coordinator co g1) qs = Inr (staged_coordinator co g')
      \<and> length (gr_staged g1) + length qs = length (gr_staged g') \<and> group_inv H co g'"
    using Cons.prems by (intro Cons.IH [OF rest _ inv1]) auto
  have len: "length (gr_staged g1) = length (gr_staged g) + 1"
    using stage by (cases rule: stage_commit_cases) auto
  with ih Cons.prems(5) have "unat (co_next_csn co) + length (gr_staged g) + 1 < 2 ^ 64" by linarith
  from stage_commit_simulates [OF Cons.prems(2,3,4) this stage] ih len show ?case by simp
qed auto

lemma staged_coordinator_begin:
  "begin_group_write co = Inr g \<Longrightarrow> staged_coordinator co g = co \<and> \<not> co_current_poisoned co
    \<and> (coordinator_inv H co \<longrightarrow> group_inv H co g)"
  by (auto simp: begin_group_write_def staged_coordinator_def group_base_roots_def group_inv_def
      split: if_splits)

text \<open>C19. A group refines single commits: staging requests and publishing the group leaves the
  coordinator in exactly the state that committing the requests one by one leaves.\<close>

theorem group_refines_commits:
  assumes "coordinator_inv H co" and "list_all (\<lambda>q. om_sorted (rq_roots q)) qs"
    and "begin_group_write co = Inr g" and "stage_all H co g qs = Inr g'"
    and "publish_group co g' = (co', Inr root)"
  shows "commit_all H co qs = Inr co'"
proof -
  note start = staged_coordinator_begin [OF assms(3), of H]
  from assms(5) obtain v n where pub: "gr_staged g' \<noteq> []"
    "co' = co\<lparr>co_current := last (gr_staged g'), co_next_csn := n\<rparr>"
    "rs_visible_csn (last (gr_staged g')) = Some v" "checked_add (get v) 1 = Some n"
    by (cases rule: publish_group_cases) auto
  have sorted: "\<forall>q \<in> set qs. om_sorted (rq_roots q)" using assms(2) by (simp add: list_all_iff)
  have inv': "group_inv H co g'" using stage_all_inv [OF assms(4,1)] start assms(1) sorted by blast
  have v: "visible_number (last (gr_staged g')) = unat (get v)"
    by (simp add: visible_number_def pub get_or_zero_def)
  have "unat n < 2 ^ 64" using unsigned_less [of n] by simp
  then have n: "unat n = unat (get v) + 1" "unat n < 2 ^ 64"
    using pub(4) by (simp_all add: checked_add_Some)
  have "visible_number (last (gr_staged g')) + 1 = unat (co_next_csn co) + length (gr_staged g')"
    using group_base_inv(2) [OF assms(1) inv'] pub(1) by (simp add: group_base_roots_def)
  with v n have bound: "unat (co_next_csn co) + length (gr_staged g') = unat n" by simp
  have "commit_all H co qs = Inr (staged_coordinator co g')"
    using stage_all_simulates [OF assms(4,1)] start assms(1) sorted bound n(2) by simp
  moreover have "co_next_csn co + word_of_nat (length (gr_staged g')) = n"
    using bound n(2) by (simp add: word_unat_eq_iff unat_add_small unat_word_of_nat)
  ultimately show ?thesis
    using pub by (simp add: staged_coordinator_def group_base_roots_def)
qed

definition sample_request :: "commit_request" where
  "sample_request = \<lparr>rq_version = nz 1, rq_anchor = \<lparr>anchor_lsn = nz 1, anchor_digest = 1\<rparr>,
     rq_roots = [], rq_blob_generation = 0\<rparr>"

definition sample_root :: "u64 \<Rightarrow> root_set" where
  "sample_root n = \<lparr>rs_visible_csn = Some (nz n), rs_catalog_version = nz 1,
     rs_wal_anchor = Some \<lparr>anchor_lsn = nz 1, anchor_digest = 1\<rparr>, rs_roots = [],
     rs_blob_generation = 0, rs_page_generation = FIRST, rs_retention_floor_csn = Some (nz 1),
     rs_digest = 5\<rparr>"

lemma sample_committed:
  "n \<noteq> 0 \<Longrightarrow> committed_with_storage (\<lambda>_. 5) (nz n) (nz 1) \<lparr>anchor_lsn = nz 1, anchor_digest = 1\<rparr> [] 0 FIRST (nz 1)
    = Inr (sample_root n)"
  by (simp add: committed_with_storage_def sample_root_def compute_digest_def less_nonzero_def Let_def)

theorem group_refines_commits_witness:
  "\<exists>g g' co' root. begin_group_write (coordinator_new (\<lambda>_. 5) (nz 1)) = Inr g
     \<and> stage_all (\<lambda>_. 5) (coordinator_new (\<lambda>_. 5) (nz 1)) g [sample_request, sample_request] = Inr g'
     \<and> publish_group (coordinator_new (\<lambda>_. 5) (nz 1)) g' = (co', Inr root)
     \<and> commit_all (\<lambda>_. 5) (coordinator_new (\<lambda>_. 5) (nz 1)) [sample_request, sample_request] = Inr co'
     \<and> rs_visible_csn root = Some (nz 2)"
proof -
  let ?co = "coordinator_new (\<lambda>_. 5) (nz 1)" and ?q = sample_request
  let ?g = "\<lparr>gr_initial = genesis (\<lambda>_. 5) (nz 1), gr_staged = []\<rparr>"
  let ?g1 = "?g\<lparr>gr_staged := [sample_root 1]\<rparr>" and ?g2 = "?g\<lparr>gr_staged := [sample_root 1, sample_root 2]\<rparr>"
  let ?co2 = "?co\<lparr>co_current := sample_root 2, co_next_csn := 3\<rparr>"
  have start: "begin_group_write ?co = Inr ?g"
    by (simp add: begin_group_write_def coordinator_new_def)
  have stage1: "stage_commit (\<lambda>_. 5) ?co ?g (nz 1) \<lparr>anchor_lsn = nz 1, anchor_digest = 1\<rparr> [] 0
      = (?g1, Inr (sample_root 1))"
    using sample_committed [of 1]
    by (simp add: stage_commit_def next_commit_csn_def commit_csn_at_offset_def group_base_roots_def
        coordinator_new_def checked_add_def csn_new_def identity_new_def genesis_def unwrap_or_def)
  have stage2: "stage_commit (\<lambda>_. 5) ?co ?g1 (nz 1) \<lparr>anchor_lsn = nz 1, anchor_digest = 1\<rparr> [] 0
      = (?g2, Inr (sample_root 2))"
    using sample_committed [of 2]
    by (simp add: stage_commit_def next_commit_csn_def commit_csn_at_offset_def group_base_roots_def
        coordinator_new_def checked_add_def csn_new_def identity_new_def sample_root_def unwrap_or_def)
  have staged: "stage_all (\<lambda>_. 5) ?co ?g [?q, ?q] = Inr ?g2"
    using stage1 stage2 by (simp add: sample_request_def)
  have pub: "publish_group ?co ?g2 = (?co2, Inr (sample_root 2))"
    by (simp add: publish_group_def sample_root_def checked_add_def coordinator_new_def)
  have "commit_all (\<lambda>_. 5) ?co [?q, ?q] = Inr ?co2"
    by (rule group_refines_commits [OF coordinator_inv_new _ start staged pub]) (simp add: sample_request_def)
  moreover have "rs_visible_csn (sample_root 2) = Some (nz 2)" by (simp add: sample_root_def)
  ultimately show ?thesis using start staged pub by blast
qed

section \<open>The state machine\<close>

datatype writer = Idle | Single root_transaction | Grouped root_group

record mvcc_system =
  sys_coordinator :: coordinator
  sys_writer :: writer
  sys_snapshots :: "snapshot list"
  sys_published :: "root_set list"

text \<open>
  One step is one call on the coordinator or on the value that holds the writer lock; a
  dropped transaction or group releases the lock. Root sets are recorded when they become
  visible, the newest first.
\<close>

definition record_root :: "mvcc_error + root_set \<Rightarrow> root_set list \<Rightarrow> root_set list" where
  "record_root result roots = (case result of Inl e \<Rightarrow> roots | Inr root \<Rightarrow> root # roots)"

inductive mvcc_step :: "(bytes \<Rightarrow> digest) \<Rightarrow> mvcc_system \<Rightarrow> mvcc_system \<Rightarrow> bool" for H where
  snapshot: "take_snapshot (sys_coordinator s) time = Inr n
    \<Longrightarrow> mvcc_step H s (s\<lparr>sys_snapshots := n # sys_snapshots s\<rparr>)"
| begin_write: "sys_writer s = Idle \<Longrightarrow> begin_write (sys_coordinator s) = Inr tx
    \<Longrightarrow> mvcc_step H s (s\<lparr>sys_writer := Single tx\<rparr>)"
| set_root: "sys_writer s = Single tx \<Longrightarrow> mvcc_step H s (s\<lparr>sys_writer := Single (set_root slot page tx)\<rparr>)"
| set_blob_generation: "sys_writer s = Single tx
    \<Longrightarrow> mvcc_step H s (s\<lparr>sys_writer := Single (set_blob_generation b tx)\<rparr>)"
| set_page_generation: "sys_writer s = Single tx
    \<Longrightarrow> mvcc_step H s (s\<lparr>sys_writer := Single (set_page_generation p tx)\<rparr>)"
| set_retention_floor: "sys_writer s = Single tx
    \<Longrightarrow> mvcc_step H s (s\<lparr>sys_writer := Single (set_retention_floor f tx)\<rparr>)"
| commit: "sys_writer s = Single tx
    \<Longrightarrow> commit_transaction H (sys_coordinator s) tx version anchor = (co', result)
    \<Longrightarrow> mvcc_step H s (s\<lparr>sys_coordinator := co', sys_writer := Idle,
          sys_published := record_root result (sys_published s)\<rparr>)"
| begin_group: "sys_writer s = Idle \<Longrightarrow> begin_group_write (sys_coordinator s) = Inr g
    \<Longrightarrow> mvcc_step H s (s\<lparr>sys_writer := Grouped g\<rparr>)"
| stage: "sys_writer s = Grouped g \<Longrightarrow> om_sorted roots
    \<Longrightarrow> stage_commit H (sys_coordinator s) g version anchor roots blob = (g', result)
    \<Longrightarrow> mvcc_step H s (s\<lparr>sys_writer := Grouped g'\<rparr>)"
| publish: "sys_writer s = Grouped g \<Longrightarrow> publish_group (sys_coordinator s) g = (co', result)
    \<Longrightarrow> mvcc_step H s (s\<lparr>sys_coordinator := co', sys_writer := Idle,
          sys_published := record_root result (sys_published s)\<rparr>)"
| drop_writer: "mvcc_step H s (s\<lparr>sys_writer := Idle\<rparr>)"
| poison: "mvcc_step H s (s\<lparr>sys_coordinator := (sys_coordinator s)
    \<lparr>co_current_poisoned := True, co_writer_poisoned := True\<rparr>\<rparr>)"

definition initial_system :: "coordinator \<Rightarrow> mvcc_system" where
  "initial_system co = \<lparr>sys_coordinator = co, sys_writer = Idle, sys_snapshots = [],
     sys_published = [co_current co]\<rparr>"

inductive mvcc_reachable :: "(bytes \<Rightarrow> digest) \<Rightarrow> mvcc_system \<Rightarrow> bool" for H where
  fresh: "mvcc_reachable H (initial_system (coordinator_new H version))"
| restored: "coordinator_restore root = Inr co \<Longrightarrow> wf_root H root \<Longrightarrow> mvcc_reachable H (initial_system co)"
| step: "mvcc_reachable H s \<Longrightarrow> mvcc_step H s s' \<Longrightarrow> mvcc_reachable H s'"

definition writer_inv :: "(bytes \<Rightarrow> digest) \<Rightarrow> coordinator \<Rightarrow> writer \<Rightarrow> bool" where
  "writer_inv H co w =
     (case w of
        Idle \<Rightarrow> True
      | Single tx \<Rightarrow> tx_base tx = co_current co \<and> om_sorted (tx_roots tx)
      | Grouped g \<Rightarrow> group_inv H co g)"

definition system_inv :: "(bytes \<Rightarrow> digest) \<Rightarrow> mvcc_system \<Rightarrow> bool" where
  "system_inv H s =
     (coordinator_inv H (sys_coordinator s)
      \<and> writer_inv H (sys_coordinator s) (sys_writer s)
      \<and> sorted_wrt (\<lambda>new old. root_advance old new) (sys_published s)
      \<and> sys_published s \<noteq> [] \<and> hd (sys_published s) = co_current (sys_coordinator s)
      \<and> (\<forall>n \<in> set (sys_snapshots s). sn_roots n \<in> set (sys_published s)
           \<and> sn_visible_csn n = rs_visible_csn (sn_roots n)))"

lemma sorted_publish:
  assumes "sorted_wrt (\<lambda>new old. root_advance old new) roots" "roots \<noteq> []" "root_advance (hd roots) root"
  shows "sorted_wrt (\<lambda>new old. root_advance old new) (root # roots)"
  using assms by (cases roots) (auto intro: root_advance_trans)

lemma mvcc_step_inv:
  assumes "mvcc_step H s s'" "system_inv H s"
  shows "system_inv H s'"
  using assms
proof cases
  case (snapshot time n)
  then have n: "n = root_snapshot (co_current (sys_coordinator s)) time"
    by (auto simp: take_snapshot_def split: if_splits)
  have "co_current (sys_coordinator s) \<in> set (sys_published s)"
    using assms(2) by (metis hd_in_set system_inv_def)
  with snapshot n assms(2) show ?thesis by (auto simp: system_inv_def root_snapshot_def)
next
  case (commit tx version anchor co' result)
  show ?thesis
  proof (cases result)
    case (Inl e)
    then have "co' = sys_coordinator s" using commit(3) commit_transaction_error by blast
    with Inl commit assms(2) show ?thesis by (auto simp: system_inv_def writer_inv_def record_root_def)
  next
    case (Inr root)
    note inv = commit_transaction_inv [OF _ _ _ commit(3) [unfolded Inr]]
    show ?thesis
      using commit(1,2) Inr assms(2) inv sorted_publish [of "sys_published s" root]
      by (auto simp: system_inv_def writer_inv_def record_root_def)
  qed
next
  case (publish g co' result)
  show ?thesis
  proof (cases result)
    case (Inl e)
    then have "co' = sys_coordinator s" using publish(3) publish_group_error by blast
    with Inl publish assms(2) show ?thesis by (auto simp: system_inv_def writer_inv_def record_root_def)
  next
    case (Inr root)
    note inv = publish_group_inv [OF _ _ publish(3) [unfolded Inr]]
    show ?thesis
      using publish(1,2) Inr assms(2) inv sorted_publish [of "sys_published s" root]
      by (auto simp: system_inv_def writer_inv_def record_root_def)
  qed
next
  case (stage g roots version anchor blob g' result)
  then show ?thesis
    using assms(2) stage_commit_inv by (fastforce simp: system_inv_def writer_inv_def)
qed (auto simp: system_inv_def writer_inv_def begin_write_def begin_group_write_def set_root_def
    set_blob_generation_def set_page_generation_def set_retention_floor_def coordinator_inv_def
    wf_root_def group_inv_def split: if_splits writer.splits)

lemma mvcc_reachable_inv: "mvcc_reachable H s \<Longrightarrow> system_inv H s"
proof (induction rule: mvcc_reachable.induct)
  case (fresh version)
  then show ?case
    using coordinator_inv_new by (simp add: system_inv_def initial_system_def writer_inv_def)
next
  case (restored root co)
  then show ?case
    using coordinator_inv_restore by (simp add: system_inv_def initial_system_def writer_inv_def)
qed (rule mvcc_step_inv)

section \<open>What readers and writers may rely on\<close>

lemma sorted_visible_unique:
  "sorted_wrt (\<lambda>new old. root_advance old new) roots \<Longrightarrow> a \<in> set roots \<Longrightarrow> b \<in> set roots
    \<Longrightarrow> visible_number a = visible_number b \<Longrightarrow> a = b"
  by (induction roots) (auto simp: root_advance_def)

lemma sorted_visible_hd:
  "sorted_wrt (\<lambda>new old. root_advance old new) roots \<Longrightarrow> a \<in> set roots
    \<Longrightarrow> visible_number a \<le> visible_number (hd roots)"
  by (cases roots) (auto simp: root_advance_def)

text \<open>C20. Snapshot isolation: in every reachable state, two snapshots at the same commit see the
  same root set, and no snapshot is ahead of the visible commit.\<close>

theorem snapshot_isolation:
  assumes "mvcc_reachable H s" and "n \<in> set (sys_snapshots s)" and "n' \<in> set (sys_snapshots s)"
  shows "(sn_visible_csn n = sn_visible_csn n') = (sn_roots n = sn_roots n')
    \<and> visible_number (sn_roots n) \<le> visible_number (co_current (sys_coordinator s))"
proof -
  have inv: "system_inv H s" using assms(1) by (rule mvcc_reachable_inv)
  then have "sn_roots n \<in> set (sys_published s)" "sn_roots n' \<in> set (sys_published s)"
    and vis: "sn_visible_csn n = rs_visible_csn (sn_roots n)" "sn_visible_csn n' = rs_visible_csn (sn_roots n')"
    and sorted: "sorted_wrt (\<lambda>new old. root_advance old new) (sys_published s)"
    and hd: "hd (sys_published s) = co_current (sys_coordinator s)"
    using assms(2,3) by (auto simp: system_inv_def)
  with sorted_visible_unique [OF sorted] sorted_visible_hd [OF sorted] show ?thesis
    by (auto simp: visible_number_def)
qed

text \<open>C21. The commit sequence: in every reachable state the visible root set is consistent (a
  commit number, a WAL anchor and a retention floor not above the commit number, or none of
  them), the next commit number is the visible one plus one unless the numbers are
  exhausted, and the root sets published so far have strictly increasing commit numbers with
  retention floors and page generations that never go back.\<close>

theorem commit_sequence:
  assumes "mvcc_reachable H s"
  shows "wf_root H (co_current (sys_coordinator s))
    \<and> unat (co_next_csn (sys_coordinator s))
      = (visible_number (co_current (sys_coordinator s)) + 1) mod 2 ^ 64
    \<and> sorted_wrt (\<lambda>new old. root_advance old new) (sys_published s)
    \<and> hd (sys_published s) = co_current (sys_coordinator s)"
  using mvcc_reachable_inv [OF assms] by (simp add: system_inv_def coordinator_inv_def)

text \<open>C22. A commit publishes the staged roots under the next commit number, or fails and leaves
  the coordinator as it was.\<close>

theorem commit_publishes_next:
  assumes "coordinator_inv H co" and "tx_base tx = co_current co" and "om_sorted (tx_roots tx)"
    and "commit_transaction H co tx version anchor = (co', result)"
  shows "case result of
      Inl e \<Rightarrow> co' = co
    | Inr root \<Rightarrow> co_current co' = root \<and> coordinator_inv H co' \<and> rs_roots root = tx_roots tx
        \<and> visible_number root = visible_number (co_current co) + 1
        \<and> root_advance (co_current co) root"
proof (cases result)
  case (Inl e)
  then show ?thesis using assms(4) commit_transaction_error by auto
next
  case (Inr root)
  have "rs_roots root = tx_roots tx"
    using assms(4) Inr by (auto elim!: commit_transaction_cases dest: committed_with_storage_Inr)
  then show ?thesis
    using commit_transaction_inv [OF assms(1-3) assms(4) [unfolded Inr]] Inr by simp
qed

text \<open>A run: one commit, a snapshot, a second commit, a second snapshot.\<close>

definition sample_tx :: "root_set \<Rightarrow> root_transaction" where
  "sample_tx base = \<lparr>tx_base = base, tx_roots = [], tx_blob_generation = None,
     tx_page_generation = None, tx_retention_floor_csn = None\<rparr>"

lemma sample_commit:
  "commit_transaction (\<lambda>_. 5) (coordinator_new (\<lambda>_. 5) (nz 1)) (sample_tx (genesis (\<lambda>_. 5) (nz 1)))
     (nz 1) \<lparr>anchor_lsn = nz 1, anchor_digest = 1\<rparr>
    = ((coordinator_new (\<lambda>_. 5) (nz 1))\<lparr>co_current := sample_root 1, co_next_csn := 2\<rparr>, Inr (sample_root 1))"
  using sample_committed [of 1]
  by (simp add: commit_transaction_def coordinator_new_def sample_tx_def genesis_def csn_new_def
      identity_new_def checked_add_def unwrap_or_def option_or_def valid_transition_def)

theorem commit_publishes_next_witness:
  "visible_number (sample_root 1) = visible_number (genesis (\<lambda>_. 5) (nz 1)) + 1"
  using commit_publishes_next [OF coordinator_inv_new _ _ sample_commit]
  by (simp add: sample_tx_def coordinator_new_def)

definition sample_system :: mvcc_system where
  "sample_system =
     \<lparr>sys_coordinator = (coordinator_new (\<lambda>_. 5) (nz 1))\<lparr>co_current := sample_root 1, co_next_csn := 2\<rparr>,
      sys_writer = Idle, sys_snapshots = [root_snapshot (sample_root 1) 9, root_snapshot (sample_root 1) 7],
      sys_published = [sample_root 1, genesis (\<lambda>_. 5) (nz 1)]\<rparr>"

lemma sample_reachable: "mvcc_reachable (\<lambda>_. 5) sample_system"
proof -
  let ?co = "coordinator_new (\<lambda>_. 5) (nz 1)" and ?tx = "sample_tx (genesis (\<lambda>_. 5) (nz 1))"
  let ?s0 = "initial_system ?co" and ?co1 = "?co\<lparr>co_current := sample_root 1, co_next_csn := 2\<rparr>"
  let ?s1 = "?s0\<lparr>sys_writer := Single ?tx\<rparr>"
  have "mvcc_reachable (\<lambda>_. 5) ?s0" by (rule mvcc_reachable.fresh)
  moreover have "begin_write ?co = Inr ?tx"
    by (simp add: begin_write_def coordinator_new_def sample_tx_def genesis_def)
  then have "mvcc_step (\<lambda>_. 5) ?s0 (?s0\<lparr>sys_writer := Single ?tx\<rparr>)"
    by (intro mvcc_step.begin_write) (simp_all add: initial_system_def)
  ultimately have "mvcc_reachable (\<lambda>_. 5) (?s0\<lparr>sys_writer := Single ?tx\<rparr>)" by (rule mvcc_reachable.step)
  moreover have "mvcc_step (\<lambda>_. 5) ?s1 (?s1\<lparr>sys_coordinator := ?co1, sys_writer := Idle,
      sys_published := record_root (Inr (sample_root 1)) (sys_published ?s1)\<rparr>)"
  proof (rule mvcc_step.commit)
    show "sys_writer ?s1 = Single ?tx" by simp
    show "commit_transaction (\<lambda>_. 5) (sys_coordinator ?s1) ?tx (nz 1) \<lparr>anchor_lsn = nz 1, anchor_digest = 1\<rparr>
        = (?co1, Inr (sample_root 1))"
      using sample_commit by (simp add: initial_system_def)
  qed
  then have "mvcc_step (\<lambda>_. 5) ?s1 (sample_system\<lparr>sys_snapshots := []\<rparr>)"
    by (simp add: initial_system_def sample_system_def record_root_def coordinator_new_def)
  ultimately have "mvcc_reachable (\<lambda>_. 5) (sample_system\<lparr>sys_snapshots := []\<rparr>)"
    by (rule mvcc_reachable.step)
  moreover have snap: "mvcc_step (\<lambda>_. 5) (sample_system\<lparr>sys_snapshots := ns\<rparr>)
      (sample_system\<lparr>sys_snapshots := root_snapshot (sample_root 1) t # ns\<rparr>)" for ns t
    using mvcc_step.snapshot [of "sample_system\<lparr>sys_snapshots := ns\<rparr>" t "root_snapshot (sample_root 1) t" "\<lambda>_. 5"]
    by (simp add: take_snapshot_def sample_system_def coordinator_new_def)
  ultimately have "mvcc_reachable (\<lambda>_. 5) (sample_system\<lparr>sys_snapshots :=
      root_snapshot (sample_root 1) 9 # [root_snapshot (sample_root 1) 7]\<rparr>)"
    by (blast intro: mvcc_reachable.step)
  then show ?thesis by (simp add: sample_system_def)
qed

theorem snapshot_isolation_witness:
  "sn_visible_csn (root_snapshot (sample_root 1) 9) = sn_visible_csn (root_snapshot (sample_root 1) 7)
   \<and> visible_number (sample_root 1) \<le> visible_number (co_current (sys_coordinator sample_system))"
  using snapshot_isolation [OF sample_reachable, of "root_snapshot (sample_root 1) 9" "root_snapshot (sample_root 1) 7"]
  by (simp add: sample_system_def root_snapshot_def)

theorem commit_sequence_witness:
  "unat (co_next_csn (sys_coordinator sample_system)) = 2
   \<and> hd (sys_published sample_system) = co_current (sys_coordinator sample_system)
   \<and> wf_root (\<lambda>_. 5) (co_current (sys_coordinator sample_system))"
  using commit_sequence [OF sample_reachable]
  by (simp add: sample_system_def sample_root_def visible_number_def get_or_zero_def)

section \<open>The root set digest\<close>

lemma concat_fixed_inject:
  assumes "\<And>x. length (f x) = k" "\<And>x y. f x = f y \<Longrightarrow> x = y" "k > 0"
    and "concat (map f xs) = concat (map f ys)"
  shows "xs = ys"
  using assms(4)
proof (induction xs arbitrary: ys)
  case Nil
  then show ?case using assms(1,3) by (cases ys) (auto simp: length_0_conv [symmetric] simp del: length_0_conv)
next
  case (Cons x xs)
  have "concat (map f (x # xs)) \<noteq> []" using assms(1) [of x] assms(3) by auto
  with Cons.prems obtain y zs where "ys = y # zs" by (cases ys) auto
  with Cons assms(1,2) show ?case by auto
qed

lemma root_entry_length [simp]: "length (root_entry_bytes e) = 11"
  by (cases e rule: root_entry_bytes.cases) simp

lemma engine_code_inject: "engine_code a = engine_code b \<Longrightarrow> a = b"
  by (cases a; cases b) auto

lemma root_entry_inject: "root_entry_bytes e = root_entry_bytes f \<Longrightarrow> e = f"
  by (cases e rule: root_entry_bytes.cases; cases f rule: root_entry_bytes.cases)
    (auto simp: to_le_bytes_inj dest: engine_code_inject)

definition anchor_bytes :: "wal_anchor option \<Rightarrow> bytes" where
  "anchor_bytes a = (case a of
     Some anchor \<Rightarrow> to_le_bytes (get (anchor_lsn anchor)) @ to_be_bytes (anchor_digest anchor)
   | None \<Rightarrow> to_le_bytes (0 :: u64) @ replicate 32 0)"

definition storage_bytes :: "root_set \<Rightarrow> bytes" where
  "storage_bytes r = (if rs_page_generation r \<noteq> FIRST
            \<or> (case rs_retention_floor_csn r of None \<Rightarrow> False | Some floor \<Rightarrow> floor \<noteq> FIRST)
        then ascii ''hyphae-native-page-storage-v1''
             @ to_le_bytes (get (rs_page_generation r))
             @ to_le_bytes (get_or_zero (rs_retention_floor_csn r))
        else [])"

lemma anchor_bytes_length [simp]: "length (anchor_bytes a) = 40"
  by (cases a) (auto simp: anchor_bytes_def)

lemma anchor_bytes_inject: "anchor_bytes a = anchor_bytes b \<Longrightarrow> a = b"
proof -
  have zero: "to_le_bytes (get l) \<noteq> replicate 8 0" for l :: lsn
    using to_le_bytes_inj [of "get l" 0] by simp
  assume "anchor_bytes a = anchor_bytes b"
  then show "a = b"
    by (cases a; cases b)
      (auto simp: anchor_bytes_def to_le_bytes_inj to_be_bytes_inj zero zero [symmetric]
        intro: wal_anchor.equality)
qed

lemma storage_bytes_length: "length (storage_bytes r) = 0 \<or> length (storage_bytes r) = 45"
  by (simp add: storage_bytes_def)

lemma storage_bytes_inject:
  assumes "storage_bytes r = storage_bytes r'" "wf_root H r" "wf_root H' r'"
    and "rs_visible_csn r = rs_visible_csn r'"
  shows "rs_page_generation r = rs_page_generation r' \<and> rs_retention_floor_csn r = rs_retention_floor_csn r'"
  using assms
  by (auto simp: storage_bytes_def wf_root_def to_le_bytes_inj get_or_zero_inj split: if_splits option.splits)

lemma preimage_parts:
  "root_set_preimage r = (ascii ''hyphae-native-root-set-v1''
     @ to_le_bytes (get_or_zero (rs_visible_csn r)) @ to_le_bytes (get (rs_catalog_version r))
     @ anchor_bytes (rs_wal_anchor r) @ to_le_bytes (rs_blob_generation r))
     @ concat (map root_entry_bytes (rs_roots r)) @ storage_bytes r"
  by (simp add: root_set_preimage_def anchor_bytes_def storage_bytes_def)

lemma length_root_entries: "length (concat (map root_entry_bytes es)) = 11 * length es"
  by (induction es) auto

text \<open>The digest covers everything: two consistent root sets with the same digest preimage
  agree in every field, so different root sets have different digests unless the hash
  collides.\<close>

theorem root_set_preimage_injective:
  assumes "wf_root H r" and "wf_root H' r'" and "root_set_preimage r = root_set_preimage r'"
  shows "r\<lparr>rs_digest := 0\<rparr> = r'\<lparr>rs_digest := 0\<rparr>"
proof -
  note eq = assms(3) [unfolded preimage_parts]
  have head: "rs_visible_csn r = rs_visible_csn r'" "rs_catalog_version r = rs_catalog_version r'"
      "rs_wal_anchor r = rs_wal_anchor r'" "rs_blob_generation r = rs_blob_generation r'"
    and tail: "concat (map root_entry_bytes (rs_roots r)) @ storage_bytes r
      = concat (map root_entry_bytes (rs_roots r')) @ storage_bytes r'"
    using eq by (auto simp: to_le_bytes_inj get_or_zero_inj dest: anchor_bytes_inject)
  have "11 * length (rs_roots r) + length (storage_bytes r)
      = 11 * length (rs_roots r') + length (storage_bytes r')"
    using arg_cong [OF tail, of length] by (simp add: length_root_entries)
  then have "length (storage_bytes r) = length (storage_bytes r')"
    using storage_bytes_length [of r] storage_bytes_length [of r'] by (elim disjE) presburger+
  with tail have roots: "concat (map root_entry_bytes (rs_roots r)) = concat (map root_entry_bytes (rs_roots r'))"
    and storage: "storage_bytes r = storage_bytes r'"
    by simp_all
  have "rs_roots r = rs_roots r'"
    by (rule concat_fixed_inject [OF _ _ _ roots]) (auto dest: root_entry_inject)
  with head storage_bytes_inject [OF storage assms(1,2) head(1)] show ?thesis
    by (simp add: root_set.equality)
qed

theorem root_set_preimage_injective_witness:
  "wf_root (\<lambda>_. 5) (sample_root 1) \<and> wf_root (\<lambda>_. 7) (genesis (\<lambda>_. 7) (nz 1))
   \<and> root_set_preimage (sample_root 1) \<noteq> root_set_preimage (genesis (\<lambda>_. 7) (nz 1))"
proof -
  have wf: "wf_root (\<lambda>_. 5) (sample_root 1)"
    by (simp add: wf_root_def sample_root_def compute_digest_def)
  have "(sample_root 1)\<lparr>rs_digest := 0\<rparr> \<noteq> (genesis (\<lambda>_. 7) (nz 1))\<lparr>rs_digest := 0\<rparr>"
    by (simp add: sample_root_def genesis_def)
  with root_set_preimage_injective [OF wf wf_genesis] wf wf_genesis show ?thesis by blast
qed

end
