(* ===== verification/Crypto.thy ===== *)
theory Crypto
  imports Endian
begin

text \<open>
  The third-party checksum and hash functions, CRC32C and BLAKE3, as a parameter of the storage
  components. A BLAKE3 hasher fed piecewise hashes the concatenation, so one function on byte
  strings suffices; CRC32C also has an incremental form.
\<close>

record crypto =
  crc32c :: "bytes \<Rightarrow> u32"
  crc32c_append :: "u32 \<Rightarrow> bytes \<Rightarrow> u32"
  blake3 :: "bytes \<Rightarrow> digest"

text \<open>A stand-in for the third-party functions that satisfies their laws: byte sums.\<close>

definition sum_crypto :: crypto where
  "sum_crypto = \<lparr>crc32c = \<lambda>bs. sum_list (map ucast bs), crc32c_append = \<lambda>c bs. c + sum_list (map ucast bs),
     blake3 = \<lambda>bs. 1 + sum_list (map ucast bs)\<rparr>"

end
