(* ===== verification/Wal.thy ===== *)
theory Wal
  imports LogicalTypes Crypto
begin

text \<open>
  The write-ahead log (\<^verbatim>\<open>crates/hyphae-native-wal/src/lib.rs\<close>): records framed in fixed-size
  blocks that are chained by digest. This theory holds the record and block codecs, which are
  verified in \<^verbatim>\<open>WalCodec\<close>; the file operations are in \<^verbatim>\<open>WalFile\<close> and the behaviour over whole
  executions in \<^verbatim>\<open>WalRecovery\<close>.

  CRC32C and BLAKE3 are third-party functions and appear as a parameter of type \<open>crypto\<close>; a
  BLAKE3 hasher fed piecewise hashes the concatenation.
\<close>

section \<open>Records\<close>

definition WAL_BLOCK_SIZE :: nat where "WAL_BLOCK_SIZE = 65536"
definition WAL_BLOCK_HEADER_SIZE :: nat where "WAL_BLOCK_HEADER_SIZE = 112"
definition WAL_BLOCK_PAYLOAD_SIZE :: nat where
  "WAL_BLOCK_PAYLOAD_SIZE = WAL_BLOCK_SIZE - WAL_BLOCK_HEADER_SIZE"
definition WAL_RECORD_HEADER_SIZE :: nat where "WAL_RECORD_HEADER_SIZE = 44"
definition WAL_RECORD_BODY_SIZE :: nat where
  "WAL_RECORD_BODY_SIZE = WAL_BLOCK_PAYLOAD_SIZE - WAL_RECORD_HEADER_SIZE"

datatype record_kind = Begin | Mutation | Commit | Abort | Checkpoint | Catalog

datatype wal_error =
    Io
  | InvalidBlockLength nat
  | InvalidMagic
  | UnsupportedFormat u16 u16
  | BlockSequenceMismatch u64 u64
  | PreviousDigestMismatch u64
  | ReservedNonzero
  | BlockPayloadTooLarge nat
  | NonzeroPadding
  | BlockChecksumMismatch
  | BlockDigestMismatch
  | EmptyBlock
  | RecordBodyTooLarge nat
  | InvalidRecordLength nat
  | UnknownRecordKind u8
  | UnknownEngineKind u8
  | RecordReservedNonzero
  | RecordLsnMismatch u64 u64
  | RecordChecksumMismatch u64
  | WalPoisoned
  | AddressExhausted
  | InvalidRetentionAnchorLength nat
  | InvalidRetentionAnchorPreamble
  | InvalidRetentionAnchorIdentity
  | RetentionAnchorChecksumMismatch
  | RetentionAnchorDigestMismatch
  | InvalidPhysicalBase
  | UnexpectedRetentionEntry
  | InvalidRetentionAnchorChain
  | RetentionAnchorLineageMismatch
  | RetentionPublicationTargetExists

fun record_kind_code :: "record_kind \<Rightarrow> u8" where
  "record_kind_code Begin = 1"
| "record_kind_code Mutation = 2"
| "record_kind_code Commit = 3"
| "record_kind_code Abort = 4"
| "record_kind_code Checkpoint = 5"
| "record_kind_code Catalog = 6"

definition record_kind_try_from :: "u8 \<Rightarrow> wal_error + record_kind" where
  "record_kind_try_from value =
     (if value = 1 then Inr Begin
      else if value = 2 then Inr Mutation
      else if value = 3 then Inr Commit
      else if value = 4 then Inr Abort
      else if value = 5 then Inr Checkpoint
      else if value = 6 then Inr Catalog
      else Inl (UnknownRecordKind value))"

definition decode_engine_kind :: "u8 \<Rightarrow> wal_error + engine_kind" where
  "decode_engine_kind value =
     (if value = 0 then Inr Kernel
      else if value = 1 then Inr Relational
      else if value = 2 then Inr Structure
      else if value = 3 then Inr Search
      else Inl (UnknownEngineKind value))"

record pending_record =
  pr_kind :: record_kind
  pr_engine :: engine_kind
  pr_flags :: u16
  pr_transaction_id :: transaction_id
  pr_body :: bytes

definition pending_record_new ::
    "record_kind \<Rightarrow> engine_kind \<Rightarrow> u16 \<Rightarrow> transaction_id \<Rightarrow> bytes \<Rightarrow> wal_error + pending_record"
where
  "pending_record_new kind engine flags transaction_id body =
     (if length body > WAL_RECORD_BODY_SIZE then Inl (RecordBodyTooLarge (length body))
      else Inr \<lparr>pr_kind = kind, pr_engine = engine, pr_flags = flags,
             pr_transaction_id = transaction_id, pr_body = body\<rparr>)"

definition encoded_length :: "pending_record \<Rightarrow> nat" where
  "encoded_length r = WAL_RECORD_HEADER_SIZE + length (pr_body r)"

record wal_record =
  wr_lsn :: lsn
  wr_kind :: record_kind
  wr_engine :: engine_kind
  wr_flags :: u16
  wr_transaction_id :: transaction_id
  wr_body :: bytes

definition record_checksum :: "crypto \<Rightarrow> bytes \<Rightarrow> u32" where
  "record_checksum C encoded = crc32c C (put 36 (replicate 4 0) encoded)"

definition wal_record_encode :: "crypto \<Rightarrow> wal_record \<Rightarrow> wal_error + bytes" where
  "wal_record_encode C r =
     (let total_length = WAL_RECORD_HEADER_SIZE + length (wr_body r) in
      if total_length \<ge> 2 ^ 32 then Inl AddressExhausted
      else
        let encoded = replicate total_length 0;
            encoded = put 0 (to_le_bytes (word_of_nat total_length :: u32)) encoded;
            encoded = put 4 (to_le_bytes (word_of_nat (length (wr_body r)) :: u32)) encoded;
            encoded = put 8 [record_kind_code (wr_kind r)] encoded;
            encoded = put 9 [engine_code (wr_engine r)] encoded;
            encoded = put 10 (to_le_bytes (wr_flags r)) encoded;
            encoded = put 12 (to_le_bytes (get (wr_lsn r))) encoded;
            encoded = put 20 (to_le_bytes (get (wr_transaction_id r))) encoded;
            encoded = put WAL_RECORD_HEADER_SIZE (wr_body r) encoded;
            checksum = record_checksum C encoded
        in Inr (put 36 (to_le_bytes checksum) encoded))"

text \<open>\<^verbatim>\<open>read_u16\<close>, \<^verbatim>\<open>read_u32\<close>, \<^verbatim>\<open>read_u64\<close> and \<^verbatim>\<open>read_u128\<close> are \<open>from_le_bytes\<close> at their types.\<close>

definition wal_record_decode :: "crypto \<Rightarrow> bytes \<Rightarrow> lsn \<Rightarrow> wal_error + wal_record" where
  "wal_record_decode C encoded expected_lsn =
     (if length encoded < WAL_RECORD_HEADER_SIZE then Inl (InvalidRecordLength 0)
      else
        let total_length = unat (from_le_bytes (seg 0 4 encoded) :: u32);
            body_length = unat (from_le_bytes (seg 4 8 encoded) :: u32)
        in
        if total_length \<noteq> length encoded \<or> body_length \<noteq> total_length - WAL_RECORD_HEADER_SIZE
        then Inl (InvalidRecordLength 0)
        else if list_ex (\<lambda>byte. byte \<noteq> 0) (seg 40 44 encoded) then Inl RecordReservedNonzero
        else
          let found_lsn = from_le_bytes (seg 12 20 encoded) in
          if found_lsn \<noteq> get expected_lsn then Inl (RecordLsnMismatch (get expected_lsn) found_lsn)
          else if record_checksum C encoded \<noteq> from_le_bytes (seg 36 40 encoded)
          then Inl (RecordChecksumMismatch found_lsn)
          else
            attempt (map_err (\<lambda>_. RecordReservedNonzero)
              (identity_new ''TransactionId'' (from_le_bytes (seg 20 36 encoded)))) (\<lambda>transaction_id.
            attempt (record_kind_try_from (encoded ! 8)) (\<lambda>kind.
            attempt (decode_engine_kind (encoded ! 9)) (\<lambda>engine.
            Inr \<lparr>wr_lsn = expected_lsn, wr_kind = kind, wr_engine = engine,
              wr_flags = from_le_bytes (seg 10 12 encoded), wr_transaction_id = transaction_id,
              wr_body = drop WAL_RECORD_HEADER_SIZE encoded\<rparr>))))"

section \<open>Blocks\<close>

record wal_block =
  wb_sequence :: u64
  wb_previous_digest :: digest
  wb_digest :: digest
  wb_records :: "wal_record list"

definition block_checksum :: "crypto \<Rightarrow> bytes \<Rightarrow> u32" where
  "block_checksum C encoded =
     (let checksum = crc32c C (seg 0 44 encoded);
          checksum = crc32c_append C checksum (replicate 4 0);
          checksum = crc32c_append C checksum (seg 48 80 encoded);
          checksum = crc32c_append C checksum (replicate 32 0)
      in crc32c_append C checksum (drop 112 encoded))"

definition block_digest :: "crypto \<Rightarrow> bytes \<Rightarrow> digest" where
  "block_digest C encoded = blake3 C (seg 0 80 encoded @ replicate 32 0 @ drop 112 encoded)"

text \<open>Concatenation of the encoded records, or the first error.\<close>

fun encode_records :: "crypto \<Rightarrow> wal_record list \<Rightarrow> wal_error + bytes" where
  "encode_records C [] = Inr []"
| "encode_records C (r # rs) =
     attempt (wal_record_encode C r) (\<lambda>encoded.
     attempt (encode_records C rs) (\<lambda>payload. Inr (encoded @ payload)))"

definition MAGIC :: bytes where "MAGIC = ascii ''HYWAL001''"

definition encode_with_zero_digest :: "crypto \<Rightarrow> wal_block \<Rightarrow> wal_error + bytes" where
  "encode_with_zero_digest C b =
     (if wb_records b = [] then Inl EmptyBlock
      else
        attempt (encode_records C (wb_records b)) (\<lambda>payload.
        if length payload > WAL_BLOCK_PAYLOAD_SIZE then Inl (BlockPayloadTooLarge (length payload))
        else
          let encoded = replicate WAL_BLOCK_SIZE 0;
              encoded = put 0 MAGIC encoded;
              encoded = put 8 (to_le_bytes (1 :: u16)) encoded;
              encoded = put 10 (to_le_bytes (112 :: u16)) encoded;
              encoded = put 16 (to_le_bytes (wb_sequence b)) encoded;
              encoded = put 24 (to_le_bytes (get (wr_lsn (hd (wb_records b))))) encoded;
              encoded = put 32 (to_le_bytes (get (wr_lsn (last (wb_records b))))) encoded;
              encoded = put 40 (to_le_bytes (word_of_nat (length payload) :: u32)) encoded;
              encoded = put 48 (to_be_bytes (wb_previous_digest b)) encoded;
              encoded = put WAL_BLOCK_HEADER_SIZE payload encoded;
              checksum = block_checksum C encoded
          in Inr (put 44 (to_le_bytes checksum) encoded)))"

definition wal_block_encode :: "crypto \<Rightarrow> wal_block \<Rightarrow> wal_error + bytes" where
  "wal_block_encode C b =
     attempt (encode_with_zero_digest C b) (\<lambda>encoded. Inr (put 80 (to_be_bytes (wb_digest b)) encoded))"

text \<open>\<^verbatim>\<open>block_offset.checked_add(112).and_then(|value| value.checked_add(payload_offset))\<close>.\<close>

definition record_lsn :: "u64 \<Rightarrow> nat \<Rightarrow> wal_error + lsn" where
  "record_lsn block_offset payload_offset =
     attempt (ok_or AddressExhausted
       (case checked_add block_offset 112 of
          None \<Rightarrow> None
        | Some v \<Rightarrow> checked_add v (word_of_nat payload_offset))) (\<lambda>lsn_raw.
     map_err (\<lambda>_. AddressExhausted) (identity_new ''Lsn'' lsn_raw))"

text \<open>\<^verbatim>\<open>sequence.checked_sub(1).and_then(|value| value.checked_mul(WAL_BLOCK_SIZE))\<close>.\<close>

definition block_offset :: "u64 \<Rightarrow> wal_error + u64" where
  "block_offset sequence =
     ok_or AddressExhausted
       (case checked_sub sequence 1 of None \<Rightarrow> None | Some v \<Rightarrow> checked_mul v 65536)"

fun assign_lsns ::
    "u64 \<Rightarrow> nat \<Rightarrow> pending_record list \<Rightarrow> wal_record list \<Rightarrow> wal_error + wal_record list"
where
  "assign_lsns offset payload_offset [] records = Inr records"
| "assign_lsns offset payload_offset (r # pending) records =
     (let next_payload_offset = payload_offset + encoded_length r in
      if next_payload_offset > WAL_BLOCK_PAYLOAD_SIZE then Inl (BlockPayloadTooLarge next_payload_offset)
      else
        attempt (record_lsn offset payload_offset) (\<lambda>l.
        assign_lsns offset next_payload_offset pending
          (records @ [\<lparr>wr_lsn = l, wr_kind = pr_kind r, wr_engine = pr_engine r,
             wr_flags = pr_flags r, wr_transaction_id = pr_transaction_id r, wr_body = pr_body r\<rparr>])))"

definition build_encoded ::
    "crypto \<Rightarrow> u64 \<Rightarrow> digest \<Rightarrow> pending_record list \<Rightarrow> wal_error + (wal_block \<times> bytes)"
where
  "build_encoded C sequence previous_digest pending =
     (if sequence = 0 then Inl AddressExhausted
      else if pending = [] then Inl EmptyBlock
      else
        attempt (block_offset sequence) (\<lambda>offset.
        attempt (assign_lsns offset 0 pending []) (\<lambda>records.
        let block = \<lparr>wb_sequence = sequence, wb_previous_digest = previous_digest, wb_digest = 0,
                     wb_records = records\<rparr> in
        attempt (encode_with_zero_digest C block) (\<lambda>encoded.
        let block = block\<lparr>wb_digest := block_digest C encoded\<rparr> in
        Inr (block, put 80 (to_be_bytes (wb_digest block)) encoded)))))"

definition decode_block_header ::
    "crypto \<Rightarrow> u64 \<Rightarrow> digest \<Rightarrow> bytes \<Rightarrow> wal_error + (nat \<times> digest)"
where
  "decode_block_header C expected_sequence expected_previous_digest encoded =
     (if length encoded \<noteq> WAL_BLOCK_SIZE then Inl (InvalidBlockLength (length encoded))
      else if seg 0 8 encoded \<noteq> MAGIC then Inl InvalidMagic
      else
        let version = from_le_bytes (seg 8 10 encoded);
            header_length = from_le_bytes (seg 10 12 encoded)
        in
        if version \<noteq> 1 \<or> unat header_length \<noteq> WAL_BLOCK_HEADER_SIZE
        then Inl (UnsupportedFormat version header_length)
        else if list_ex (\<lambda>byte. byte \<noteq> 0) (seg 12 16 encoded) then Inl ReservedNonzero
        else
          let found_sequence = from_le_bytes (seg 16 24 encoded) in
          if found_sequence \<noteq> expected_sequence
          then Inl (BlockSequenceMismatch expected_sequence found_sequence)
          else if seg 48 80 encoded \<noteq> to_be_bytes expected_previous_digest
          then Inl (PreviousDigestMismatch expected_sequence)
          else
            let payload_length = unat (from_le_bytes (seg 40 44 encoded) :: u32) in
            if payload_length = 0 then Inl EmptyBlock
            else if payload_length > WAL_BLOCK_PAYLOAD_SIZE
            then Inl (BlockPayloadTooLarge payload_length)
            else if list_ex (\<lambda>byte. byte \<noteq> 0) (drop (WAL_BLOCK_HEADER_SIZE + payload_length) encoded)
            then Inl NonzeroPadding
            else if block_checksum C encoded \<noteq> from_le_bytes (seg 44 48 encoded)
            then Inl BlockChecksumMismatch
            else
              let expected_digest = from_be_bytes (seg 80 112 encoded) in
              if block_digest C encoded \<noteq> expected_digest then Inl BlockDigestMismatch
              else Inr (payload_length, expected_digest))"

function decode_records_loop ::
    "crypto \<Rightarrow> u64 \<Rightarrow> nat \<Rightarrow> bytes \<Rightarrow> nat \<Rightarrow> wal_record list \<Rightarrow> wal_error + wal_record list"
where
  "decode_records_loop C offset payload_length encoded payload_offset records =
     (if payload_offset < payload_length then
        let remaining = payload_length - payload_offset;
            start = WAL_BLOCK_HEADER_SIZE + payload_offset
        in
        if remaining < WAL_RECORD_HEADER_SIZE then Inl (InvalidRecordLength payload_offset)
        else
          let total_length = unat (from_le_bytes (seg start (start + 4) encoded) :: u32) in
          if total_length < WAL_RECORD_HEADER_SIZE \<or> total_length > remaining
          then Inl (InvalidRecordLength payload_offset)
          else
            attempt (record_lsn offset payload_offset) (\<lambda>expected_lsn.
            attempt (wal_record_decode C (seg start (start + total_length) encoded) expected_lsn) (\<lambda>r.
            decode_records_loop C offset payload_length encoded (payload_offset + total_length)
              (records @ [r])))
      else Inr records)"
  by pat_completeness auto
termination
  by (relation "measure (\<lambda>(_, _, payload_length, _, payload_offset, _). payload_length - payload_offset)")
    (auto simp: WAL_RECORD_HEADER_SIZE_def)

declare decode_records_loop.simps [simp del]

definition decode_block_records :: "crypto \<Rightarrow> u64 \<Rightarrow> nat \<Rightarrow> bytes \<Rightarrow> wal_error + wal_record list" where
  "decode_block_records C expected_sequence payload_length encoded =
     attempt (block_offset expected_sequence) (\<lambda>offset.
     decode_records_loop C offset payload_length encoded 0 [])"

definition validate_block_record_range :: "wal_record list \<Rightarrow> bytes \<Rightarrow> wal_error + unit" where
  "validate_block_record_range records encoded =
     (if records = [] then Inl EmptyBlock
      else
        let first_lsn = get (wr_lsn (hd records));
            last_lsn = get (wr_lsn (last records))
        in
        if from_le_bytes (seg 24 32 encoded) \<noteq> first_lsn \<or> from_le_bytes (seg 32 40 encoded) \<noteq> last_lsn
        then Inl (RecordLsnMismatch first_lsn (from_le_bytes (seg 24 32 encoded)))
        else Inr ())"

definition wal_block_decode :: "crypto \<Rightarrow> u64 \<Rightarrow> digest \<Rightarrow> bytes \<Rightarrow> wal_error + wal_block" where
  "wal_block_decode C expected_sequence expected_previous_digest encoded =
     attempt (decode_block_header C expected_sequence expected_previous_digest encoded)
       (\<lambda>(payload_length, expected_digest).
     attempt (decode_block_records C expected_sequence payload_length encoded) (\<lambda>records.
     attempt (validate_block_record_range records encoded) (\<lambda>_.
     Inr \<lparr>wb_sequence = expected_sequence, wb_previous_digest = expected_previous_digest,
       wb_digest = expected_digest, wb_records = records\<rparr>)))"

end
