(* ===== verification/WalCodec.thy ===== *)
theory WalCodec
  imports Wal
begin

text \<open>
  The record and block codecs of the write-ahead log: both are canonical (the decoders accept
  exactly the bytes the encoders write), the streaming block checksum is the checksum of the
  zeroed copy, and the records of a block carry the addresses at which they are stored.
\<close>

section \<open>Records\<close>

definition record_head :: "wal_record \<Rightarrow> bytes" where
  "record_head r = to_le_bytes (word_of_nat (44 + length (wr_body r)) :: u32)
     @ to_le_bytes (word_of_nat (length (wr_body r)) :: u32)
     @ [record_kind_code (wr_kind r), engine_code (wr_engine r)]
     @ to_le_bytes (wr_flags r) @ to_le_bytes (get (wr_lsn r)) @ to_le_bytes (get (wr_transaction_id r))"

lemma length_record_head [simp]: "length (record_head r) = 36"
  by (simp add: record_head_def)

lemma record_checksum_layout:
  "length pre = 36 \<Longrightarrow> length ck = 4
    \<Longrightarrow> record_checksum C (pre @ ck @ post) = crc32c C (pre @ replicate 4 0 @ post)"
  by (simp add: record_checksum_def put_middle)

lemma record_frame:
  assumes "length a = 4" "length b = 4" "length c = 1" "length d = 1" "length e = 2" "length f = 8"
    "length g = 16"
  shows "put 44 body (put 20 g (put 12 f (put 10 e (put 9 d (put 8 c (put 4 b (put 0 a
      (replicate (44 + length body) 0))))))))
    = a @ b @ c @ d @ e @ f @ g @ replicate 8 0 @ body"
proof -
  have "put 44 body (put 20 g (put 12 f (put 10 e (put 9 d (put 8 c (put 4 b (put 0 a
      (replicate (44 + length body) 0))))))))
    = (((((((a @ b) @ c) @ d) @ e) @ f) @ g) @ replicate 8 0) @ body"
    by (simp add: put_zeros_start put_zeros assms append_assoc [symmetric] del: append_assoc)
  then show ?thesis by simp
qed

lemma wal_record_encode_layout:
  "wal_record_encode C r =
     (if 44 + length (wr_body r) \<ge> 2 ^ 32 then Inl AddressExhausted
      else Inr (record_head r
        @ to_le_bytes (crc32c C (record_head r @ replicate 4 0 @ replicate 4 0 @ wr_body r))
        @ replicate 4 0 @ wr_body r))"
proof -
  let ?n = "length (wr_body r)"
  have "put 44 (wr_body r) (put 20 (to_le_bytes (get (wr_transaction_id r)))
     (put 12 (to_le_bytes (get (wr_lsn r))) (put 10 (to_le_bytes (wr_flags r))
     (put 9 [engine_code (wr_engine r)] (put 8 [record_kind_code (wr_kind r)]
     (put 4 (to_le_bytes (word_of_nat ?n :: u32))
     (put 0 (to_le_bytes (word_of_nat (44 + ?n) :: u32)) (replicate (44 + ?n) 0))))))))
    = record_head r @ replicate 4 0 @ replicate 4 0 @ wr_body r"
    by (subst record_frame) (simp_all add: record_head_def replicate_add [of 4 4, simplified])
  then show ?thesis
    by (simp add: wal_record_encode_def WAL_RECORD_HEADER_SIZE_def Let_def record_checksum_layout put_middle)
qed

lemma record_kind_try_from_Inr [result_simps]: "(record_kind_try_from v = Inr k) = (v = record_kind_code k)"
  by (cases k) (auto simp: record_kind_try_from_def)

lemma decode_engine_kind_Inr [result_simps]: "(decode_engine_kind v = Inr e) = (v = engine_code e)"
  by (cases e) (auto simp: decode_engine_kind_def)

lemma record_kind_roundtrip [simp]: "record_kind_try_from (record_kind_code k) = Inr k"
  by (simp add: record_kind_try_from_Inr)

lemma engine_kind_roundtrip [simp]: "decode_engine_kind (engine_code e) = Inr e"
  by (simp add: decode_engine_kind_Inr)

lemma record_partition:
  assumes "44 \<le> length enc"
  shows "enc = seg 0 4 enc @ seg 4 8 enc @ [enc ! 8, enc ! 9] @ seg 10 12 enc @ seg 12 20 enc
    @ seg 20 36 enc @ seg 36 40 enc @ seg 40 44 enc @ drop 44 enc"
proof -
  have "seg 8 10 enc = [enc ! 8, enc ! 9]"
    using assms seg_split [of 8 9 10 enc] seg_one [of 8 enc] seg_one [of 9 enc] by simp
  moreover have "enc = seg 0 4 enc @ seg 4 8 enc @ seg 8 10 enc @ seg 10 12 enc @ seg 12 20 enc
    @ seg 20 36 enc @ seg 36 40 enc @ seg 40 44 enc @ seg 44 (length enc) enc"
    using assms by (simp flip: seg_split)
  ultimately show ?thesis using assms by (simp add: seg_tail)
qed

lemma wal_record_decode_encoded:
  assumes "wal_record_encode C r = Inr enc"
  shows "wal_record_decode C enc (wr_lsn r) = Inr r"
proof -
  let ?n = "length (wr_body r)" and ?z = "replicate 4 0 :: bytes"
  define ck where "ck = crc32c C (record_head r @ ?z @ ?z @ wr_body r)"
  have small: "44 + ?n < 2 ^ 32" and enc: "enc = record_head r @ to_le_bytes ck @ ?z @ wr_body r"
    using assms by (auto simp: wal_record_encode_layout ck_def split: if_splits)
  have n: "unat (word_of_nat (44 + ?n) :: u32) = 44 + ?n" "unat (word_of_nat ?n :: u32) = ?n"
    using small by (intro unat_word_of_nat; simp)+
  have parts: "seg 0 4 enc = to_le_bytes (word_of_nat (44 + ?n) :: u32)"
    "seg 4 8 enc = to_le_bytes (word_of_nat ?n :: u32)"
    "enc ! 8 = record_kind_code (wr_kind r)" "enc ! 9 = engine_code (wr_engine r)"
    "seg 10 12 enc = to_le_bytes (wr_flags r)" "seg 12 20 enc = to_le_bytes (get (wr_lsn r))"
    "seg 20 36 enc = to_le_bytes (get (wr_transaction_id r))" "seg 36 40 enc = to_le_bytes ck"
    "seg 40 44 enc = ?z" "drop 44 enc = wr_body r" "length enc = 44 + ?n"
    by (simp_all add: enc record_head_def seg_def nth_append)
  have "record_checksum C enc = ck"
    unfolding enc ck_def by (rule record_checksum_layout) simp_all
  then show ?thesis
    by (simp add: wal_record_decode_def WAL_RECORD_HEADER_SIZE_def parts n n(1) [simplified])
qed

lemma wal_record_encode_decoded:
  assumes "wal_record_decode C enc l = Inr r"
  shows "wal_record_encode C r = Inr enc" "wr_lsn r = l"
proof -
  let ?z = "replicate 4 0 :: bytes"
  define total :: u32 where "total = from_le_bytes (seg 0 4 enc)"
  define body :: u32 where "body = from_le_bytes (seg 4 8 enc)"
  have len: "44 \<le> length enc" "unat total = length enc" "unat body = length enc - 44"
    and zero: "seg 40 44 enc = replicate (length (seg 40 44 enc)) 0"
    and lsn: "from_le_bytes (seg 12 20 enc) = get l"
    and ck: "record_checksum C enc = from_le_bytes (seg 36 40 enc)"
    and r: "wr_lsn r = l" "enc ! 8 = record_kind_code (wr_kind r)" "enc ! 9 = engine_code (wr_engine r)"
      "wr_flags r = from_le_bytes (seg 10 12 enc)"
      "from_le_bytes (seg 20 36 enc) = get (wr_transaction_id r)" "wr_body r = drop 44 enc"
    using assms
    by (auto simp: wal_record_decode_def WAL_RECORD_HEADER_SIZE_def Let_def result_simps all_zero_iff
        total_def body_def split: if_splits)
  have words: "word_of_nat (44 + length (wr_body r)) = total" "word_of_nat (length (wr_body r)) = body"
  proof -
    have "44 + length (wr_body r) = unat total" "length (wr_body r) = unat body"
      using len r(6) by simp_all
    then show "word_of_nat (44 + length (wr_body r)) = total" "word_of_nat (length (wr_body r)) = body"
      by (simp_all only: word_of_nat_unat)
  qed
  have le: "to_le_bytes total = seg 0 4 enc" "to_le_bytes body = seg 4 8 enc"
    "to_le_bytes (wr_flags r) = seg 10 12 enc" "to_le_bytes (get (wr_lsn r)) = seg 12 20 enc"
    "to_le_bytes (get (wr_transaction_id r)) = seg 20 36 enc"
    using len(1) by (simp_all add: total_def body_def r(1,4) flip: lsn r(5))
  have head: "record_head r = seg 0 4 enc @ seg 4 8 enc @ [enc ! 8, enc ! 9] @ seg 10 12 enc @ seg 12 20 enc
      @ seg 20 36 enc"
    unfolding record_head_def words le r(2,3) ..
  have z: "seg 40 44 enc = ?z" using zero len(1) by simp
  have enc: "enc = record_head r @ seg 36 40 enc @ ?z @ wr_body r"
    using record_partition [OF len(1)] by (simp add: head r(6) flip: z)
  have "record_checksum C (record_head r @ seg 36 40 enc @ ?z @ wr_body r)
      = crc32c C (record_head r @ ?z @ ?z @ wr_body r)"
    by (rule record_checksum_layout) (use len(1) in simp_all)
  then have "crc32c C (record_head r @ ?z @ ?z @ wr_body r) = record_checksum C enc"
    by (simp only: flip: enc)
  then have "to_le_bytes (crc32c C (record_head r @ ?z @ ?z @ wr_body r)) = seg 36 40 enc"
    using len(1) by (simp add: ck)
  moreover have "44 + length (wr_body r) < 2 ^ 32"
    using len unat_u32_less [of total] by (simp add: r(6))
  ultimately show "wal_record_encode C r = Inr enc"
    using enc by (simp add: wal_record_encode_layout)
  show "wr_lsn r = l" by (rule r(1))
qed

interpretation wal_record: canonical_codec "\<lambda>r. wr_lsn r = l" "wal_record_encode C"
    "\<lambda>encoded. wal_record_decode C encoded l" for C l
  by unfold_locales (auto simp: wal_record_decode_encoded dest: wal_record_encode_decoded)

lemma wal_record_encode_length: "wal_record_encode C r = Inr enc \<Longrightarrow> length enc = 44 + length (wr_body r)"
  by (auto simp: wal_record_encode_layout split: if_splits)

lemma wal_record_encode_total_length:
  assumes "wal_record_encode C r = Inr enc"
  shows "unat (from_le_bytes (seg 0 4 enc) :: u32) = length enc"
proof -
  have "44 + length (wr_body r) < 2 ^ 32" "seg 0 4 enc = to_le_bytes (word_of_nat (44 + length (wr_body r)) :: u32)"
    using assms by (auto simp: wal_record_encode_layout record_head_def seg_def split: if_splits)
  moreover from this have "unat (word_of_nat (44 + length (wr_body r)) :: u32) = 44 + length (wr_body r)"
    by (intro unat_word_of_nat) simp
  ultimately show ?thesis using wal_record_encode_length [OF assms] by simp
qed

section \<open>The record sequence of a block\<close>

text \<open>Every record carries the address of its place in the payload.\<close>

fun lsns_at :: "u64 \<Rightarrow> nat \<Rightarrow> wal_record list \<Rightarrow> bool" where
  "lsns_at offset payload_offset [] = True"
| "lsns_at offset payload_offset (r # rs) =
     (record_lsn offset payload_offset = Inr (wr_lsn r)
      \<and> lsns_at offset (payload_offset + 44 + length (wr_body r)) rs)"

lemma decode_records_encoded:
  assumes "encode_records C rs = Inr payload" "lsns_at offset po rs" "length pre = 112 + po"
    and "plen = po + length payload" "encoded = pre @ payload @ post"
  shows "decode_records_loop C offset plen encoded po acc = Inr (acc @ rs)"
  using assms
proof (induction rs arbitrary: payload po pre acc)
  case Nil
  then show ?case by (simp add: decode_records_loop.simps)
next
  case (Cons r rs)
  from Cons.prems(1) obtain e rest where e: "wal_record_encode C r = Inr e"
    and rest: "encode_records C rs = Inr rest" and payload: "payload = e @ rest"
    by (auto simp: attempt_eq_Inr)
  note len = wal_record_encode_length [OF e]
  let ?start = "112 + po"
  have "seg ?start (?start + length e) encoded = e"
    using Cons.prems(3,5) by (simp add: payload seg_def)
  moreover have "seg ?start (?start + 4) encoded = seg 0 4 e"
    using Cons.prems(3,5) len by (simp add: payload seg_def)
  then have "unat (from_le_bytes (seg ?start (?start + 4) encoded) :: u32) = length e"
    using wal_record_encode_total_length [OF e] by simp
  moreover have "decode_records_loop C offset plen encoded (po + length e) (acc @ [r]) = Inr ((acc @ [r]) @ rs)"
    using Cons.prems len payload by (intro Cons.IH [OF rest, of _ "pre @ e"]) (simp_all add: add.assoc)
  moreover have "wal_record_decode C e (wr_lsn r) = Inr r"
    using e by (rule wal_record_decode_encoded)
  ultimately show ?case
    using Cons.prems(2,4) len payload
    by (subst decode_records_loop.simps)
      (simp add: WAL_BLOCK_HEADER_SIZE_def WAL_RECORD_HEADER_SIZE_def Let_def)
qed

lemma encode_records_decoded:
  assumes "decode_records_loop C offset plen encoded po acc = Inr out"
    and "112 + plen \<le> length encoded" "po \<le> plen"
  shows "\<exists>rs. out = acc @ rs \<and> lsns_at offset po rs
    \<and> encode_records C rs = Inr (seg (112 + po) (112 + plen) encoded)"
  using assms
proof (induction C offset plen encoded po acc rule: decode_records_loop.induct)
  case (1 C offset plen encoded po acc)
  show ?case
  proof (cases "po < plen")
    case False
    with "1.prems" show ?thesis by (auto simp: decode_records_loop.simps seg_def intro!: exI [of _ "[]"])
  next
    case True
    define total where "total = unat (from_le_bytes (seg (112 + po) (112 + po + 4) encoded) :: u32)"
    let ?e = "seg (112 + po) (112 + po + total) encoded"
    from "1.prems"(1) True obtain l r where
      total: "44 \<le> total" "total \<le> plen - po" and l: "record_lsn offset po = Inr l"
      and r: "wal_record_decode C ?e l = Inr r"
      and rest: "decode_records_loop C offset plen encoded (po + total) (acc @ [r]) = Inr out"
      by (subst (asm) decode_records_loop.simps)
        (auto simp: WAL_BLOCK_HEADER_SIZE_def WAL_RECORD_HEADER_SIZE_def Let_def result_simps total_def
          split: if_splits)
    note enc = wal_record_encode_decoded [OF r]
    have body: "44 + length (wr_body r) = total"
      using wal_record_encode_length [OF enc(1)] total "1.prems"(2) by simp
    have "\<exists>rs. out = (acc @ [r]) @ rs \<and> lsns_at offset (po + total) rs
        \<and> encode_records C rs = Inr (seg (112 + (po + total)) (112 + plen) encoded)"
      by (rule "1.IH" [of "plen - po" "112 + po" total l r])
        (use True total l r rest "1.prems"(2) in
          \<open>simp_all add: WAL_BLOCK_HEADER_SIZE_def WAL_RECORD_HEADER_SIZE_def total_def\<close>)
    then obtain rs where rs: "out = (acc @ [r]) @ rs" "lsns_at offset (po + total) rs"
      "encode_records C rs = Inr (seg (112 + (po + total)) (112 + plen) encoded)"
      by blast
    have "seg (112 + po) (112 + plen) encoded = ?e @ seg (112 + (po + total)) (112 + plen) encoded"
      using seg_split [of "112 + po" "112 + po + total" "112 + plen" encoded] total by (simp add: add.assoc)
    with rs enc l body show ?thesis
      by (intro exI [of _ "r # rs"]) (simp add: add.assoc)
  qed
qed

section \<open>Block layout\<close>

definition block_head :: "wal_block \<Rightarrow> bytes \<Rightarrow> bytes" where
  "block_head b payload = MAGIC @ to_le_bytes (1 :: u16) @ to_le_bytes (112 :: u16) @ replicate 4 0
     @ to_le_bytes (wb_sequence b) @ to_le_bytes (get (wr_lsn (hd (wb_records b))))
     @ to_le_bytes (get (wr_lsn (last (wb_records b)))) @ to_le_bytes (word_of_nat (length payload) :: u32)"

definition block_tail :: "bytes \<Rightarrow> bytes" where
  "block_tail payload = payload @ replicate (65424 - length payload) 0"

lemma length_MAGIC [simp]: "length MAGIC = 8"
  by (simp add: MAGIC_def)

lemma length_block_head [simp]: "length (block_head b payload) = 44"
  by (simp add: block_head_def)

lemma length_block_tail [simp]: "length payload \<le> 65424 \<Longrightarrow> length (block_tail payload) = 65424"
  by (simp add: block_tail_def)

lemma block_frame:
  assumes "length m = 8" "length v = 2" "length h = 2" "length s = 8" "length f = 8" "length l = 8"
    "length p = 4" "length d = 32" "length payload \<le> 65424"
  shows "put 112 payload (put 48 d (put 40 p (put 32 l (put 24 f (put 16 s (put 10 h (put 8 v (put 0 m
      (replicate 65536 0)))))))))
    = (m @ v @ h @ replicate 4 0 @ s @ f @ l @ p) @ replicate 4 0 @ d @ replicate 32 0 @ block_tail payload"
proof -
  have "put 112 payload (put 48 d (put 40 p (put 32 l (put 24 f (put 16 s (put 10 h (put 8 v (put 0 m
      (replicate 65536 0)))))))))
    = ((((((((((((m @ v) @ h) @ replicate 4 0) @ s) @ f) @ l) @ p) @ replicate 4 0) @ d) @ replicate 32 0)
        @ payload) @ replicate (65424 - length payload) 0)"
    by (simp add: put_zeros_start put_zeros assms append_assoc [symmetric] del: append_assoc)
  then show ?thesis by (simp add: block_tail_def)
qed

lemma block_checksum_layout:
  assumes "length head = 44" "length ck = 4" "length prev = 32" "length dg = 32"
  shows "block_checksum C (head @ ck @ prev @ dg @ tail)
    = crc32c_append C (crc32c_append C (crc32c_append C (crc32c_append C (crc32c C head) (replicate 4 0)) prev)
        (replicate 32 0)) tail"
  using assms by (simp add: block_checksum_def seg_def)

lemma block_digest_layout:
  assumes "length head = 44" "length ck = 4" "length prev = 32" "length dg = 32"
  shows "block_digest C (head @ ck @ prev @ dg @ tail) = blake3 C (head @ ck @ prev @ replicate 32 0 @ tail)"
  using assms by (simp add: block_digest_def seg_def)

text \<open>The checksum and the complete bytes of a block with a given digest field.\<close>

definition block_check :: "crypto \<Rightarrow> wal_block \<Rightarrow> bytes \<Rightarrow> u32" where
  "block_check C b payload = block_checksum C
     (block_head b payload @ replicate 4 0 @ to_be_bytes (wb_previous_digest b) @ replicate 32 0
        @ block_tail payload)"

definition block_bytes :: "crypto \<Rightarrow> wal_block \<Rightarrow> bytes \<Rightarrow> digest \<Rightarrow> bytes" where
  "block_bytes C b payload dg = block_head b payload @ to_le_bytes (block_check C b payload)
     @ to_be_bytes (wb_previous_digest b) @ to_be_bytes dg @ block_tail payload"

lemma encode_with_zero_digest_layout:
  "(encode_with_zero_digest C b = Inr e)
    = (wb_records b \<noteq> [] \<and> (\<exists>payload. encode_records C (wb_records b) = Inr payload
        \<and> length payload \<le> 65424 \<and> e = block_bytes C b payload 0))"
proof -
  have "put 112 payload (put 48 (to_be_bytes (wb_previous_digest b))
     (put 40 (to_le_bytes (word_of_nat (length payload) :: u32))
     (put 32 (to_le_bytes (get (wr_lsn (last (wb_records b)))))
     (put 24 (to_le_bytes (get (wr_lsn (hd (wb_records b))))) (put 16 (to_le_bytes (wb_sequence b))
     (put 10 (to_le_bytes (112 :: u16)) (put 8 (to_le_bytes (1 :: u16)) (put 0 MAGIC
      (replicate 65536 0)))))))))
    = block_head b payload @ replicate 4 0 @ to_be_bytes (wb_previous_digest b) @ replicate 32 0
        @ block_tail payload" if "length payload \<le> 65424" for payload
    unfolding block_head_def using that by (intro block_frame) simp_all
  note frame = this
  show ?thesis
    by (cases "encode_records C (wb_records b)") (auto simp: encode_with_zero_digest_def Let_def WAL_BLOCK_PAYLOAD_SIZE_def
        WAL_BLOCK_SIZE_def WAL_BLOCK_HEADER_SIZE_def frame put_middle block_bytes_def block_check_def
        simp del: to_le_bytes_zero split: if_splits)
qed

lemma wal_block_encode_layout:
  "(wal_block_encode C b = Inr e)
    = (wb_records b \<noteq> [] \<and> (\<exists>payload. encode_records C (wb_records b) = Inr payload
        \<and> length payload \<le> 65424 \<and> e = block_bytes C b payload (wb_digest b)))"
  by (auto simp: wal_block_encode_def attempt_eq_Inr encode_with_zero_digest_layout block_bytes_def
      put_def[of 80])

lemma block_bytes_parts:
  assumes "length payload \<le> 65424" and e: "e = block_bytes C b payload dg"
  shows "length e = 65536" "seg 0 8 e = MAGIC" "seg 8 10 e = to_le_bytes (1 :: u16)"
    "seg 10 12 e = to_le_bytes (112 :: u16)" "seg 12 16 e = replicate 4 0"
    "seg 16 24 e = to_le_bytes (wb_sequence b)"
    "seg 24 32 e = to_le_bytes (get (wr_lsn (hd (wb_records b))))"
    "seg 32 40 e = to_le_bytes (get (wr_lsn (last (wb_records b))))"
    "seg 40 44 e = to_le_bytes (word_of_nat (length payload) :: u32)"
    "seg 44 48 e = to_le_bytes (block_check C b payload)"
    "seg 48 80 e = to_be_bytes (wb_previous_digest b)" "seg 80 112 e = to_be_bytes dg"
    "drop 112 e = block_tail payload" "seg 0 44 e = block_head b payload"
  using assms(1) by (simp_all add: e block_bytes_def block_head_def seg_def)

lemma block_bytes_checksum:
  "block_checksum C (block_bytes C b payload dg) = block_check C b payload"
  by (simp add: block_bytes_def block_check_def block_checksum_layout)

lemma block_bytes_digest:
  "block_digest C (block_bytes C b payload dg) = block_digest C (block_bytes C b payload 0)"
  by (simp add: block_bytes_def block_digest_layout)

section \<open>The block codec\<close>

text \<open>A block whose records carry their addresses and whose digest is the digest of its bytes.\<close>

definition wf_block :: "crypto \<Rightarrow> wal_block \<Rightarrow> bool" where
  "wf_block C b =
     ((case block_offset (wb_sequence b) of Inl e \<Rightarrow> False | Inr offset \<Rightarrow> lsns_at offset 0 (wb_records b))
      \<and> (case encode_with_zero_digest C b of Inl e \<Rightarrow> False | Inr e \<Rightarrow> wb_digest b = block_digest C e))"

lemma encoding_wf:
  "(case encode_with_zero_digest C b of Inl e \<Rightarrow> False | Inr e \<Rightarrow> P e)
    = (wb_records b \<noteq> [] \<and> (\<exists>payload. encode_records C (wb_records b) = Inr payload
        \<and> length payload \<le> 65424 \<and> P (block_bytes C b payload 0)))"
proof -
  have "(case x of Inl e \<Rightarrow> False | Inr e \<Rightarrow> P e) = (\<exists>e. x = Inr e \<and> P e)" for x :: "wal_error + bytes"
    by (cases x) auto
  then show ?thesis by (simp only: encode_with_zero_digest_layout) blast
qed

lemma wf_block_layout:
  "(wf_block C b \<and> wal_block_encode C b = Inr e)
    = (wb_records b \<noteq> [] \<and> (\<exists>offset payload. block_offset (wb_sequence b) = Inr offset
        \<and> lsns_at offset 0 (wb_records b) \<and> encode_records C (wb_records b) = Inr payload
        \<and> length payload \<le> 65424 \<and> e = block_bytes C b payload (wb_digest b)
        \<and> wb_digest b = block_digest C e))"
proof -
  have dg: "block_digest C (block_bytes C b payload (wb_digest b)) = block_digest C (block_bytes C b payload 0)"
    for payload by (rule block_bytes_digest)
  show ?thesis
    unfolding wf_block_def encoding_wf wal_block_encode_layout
    by (cases "block_offset (wb_sequence b)"; cases "encode_records C (wb_records b)")
      (auto simp: dg block_bytes_digest [of C b _ "block_digest C (block_bytes C b _ 0)"])
qed

lemma wal_block_decode_encoded:
  assumes "wf_block C b" "wal_block_encode C b = Inr e"
  shows "wal_block_decode C (wb_sequence b) (wb_previous_digest b) e = Inr b"
proof -
  obtain offset payload where b: "wb_records b \<noteq> []" "block_offset (wb_sequence b) = Inr offset"
    "lsns_at offset 0 (wb_records b)" "encode_records C (wb_records b) = Inr payload"
    "length payload \<le> 65424" and e: "e = block_bytes C b payload (wb_digest b)"
    and dg: "wb_digest b = block_digest C e"
    using assms wf_block_layout [of C b e] by blast
  note parts = block_bytes_parts [OF b(5) e]
  let ?n = "length payload"
  have n: "unat (word_of_nat ?n :: u32) = ?n" using b(5) by (intro unat_word_of_nat) simp
  obtain r rs where "wb_records b = r # rs" using b(1) by (cases "wb_records b") auto
  then have pos: "?n \<noteq> 0" using b(4) by (auto simp: attempt_eq_Inr dest!: wal_record_encode_length)
  have "\<not> list_ex (\<lambda>byte. byte \<noteq> 0) (drop (112 + ?n) e)"
    using parts(13) by (simp add: add.commute [of 112] block_tail_def flip: drop_drop)
  moreover have "block_checksum C e = block_check C b payload" by (simp add: e block_bytes_checksum)
  ultimately have header: "decode_block_header C (wb_sequence b) (wb_previous_digest b) e
      = Inr (?n, wb_digest b)"
    using b(5) pos dg
    by (simp add: decode_block_header_def WAL_BLOCK_SIZE_def WAL_BLOCK_HEADER_SIZE_def
        WAL_BLOCK_PAYLOAD_SIZE_def parts n Let_def)
  have "e = take 112 e @ payload @ replicate (65424 - ?n) 0"
    using append_take_drop_id [of 112 e] by (simp add: parts(13) block_tail_def)
  then have "decode_records_loop C offset ?n e 0 [] = Inr ([] @ wb_records b)"
    using b parts(1) by (intro decode_records_encoded [of C _ payload _ _ "take 112 e"]) simp_all
  then have "decode_block_records C (wb_sequence b) ?n e = Inr (wb_records b)"
    by (simp add: decode_block_records_def b(2))
  with header show ?thesis
    using b(1) by (simp add: wal_block_decode_def validate_block_record_range_def parts)
qed

lemma block_partition:
  assumes "length enc = 65536"
  shows "enc = (seg 0 8 enc @ seg 8 10 enc @ seg 10 12 enc @ seg 12 16 enc @ seg 16 24 enc @ seg 24 32 enc
    @ seg 32 40 enc @ seg 40 44 enc) @ seg 44 48 enc @ seg 48 80 enc @ seg 80 112 enc @ drop 112 enc"
proof -
  have "drop 112 enc = seg 112 65536 enc" using assms by (simp add: seg_def)
  moreover have "enc = seg 0 65536 enc" using seg_all [of enc] assms by simp
  ultimately show ?thesis by (simp flip: seg_split)
qed

lemma wal_block_encode_decoded:
  assumes "wal_block_decode C seq prev enc = Inr b"
  shows "wf_block C b \<and> wal_block_encode C b = Inr enc \<and> wb_sequence b = seq \<and> wb_previous_digest b = prev"
proof -
  define plen :: u32 where "plen = from_le_bytes (seg 40 44 enc)"
  let ?n = "unat plen"
  from assms obtain dg where hdr: "decode_block_header C seq prev enc = Inr (?n, dg)"
    and recs: "decode_block_records C seq ?n enc = Inr (wb_records b)"
    and range: "validate_block_record_range (wb_records b) enc = Inr ()"
    and b: "wb_sequence b = seq" "wb_previous_digest b = prev" "wb_digest b = dg"
    by (auto simp: wal_block_decode_def result_simps decode_block_header_def Let_def plen_def
        split: if_splits)
  have len: "length enc = 65536" and magic: "seg 0 8 enc = MAGIC"
    and ver: "(from_le_bytes (seg 8 10 enc) :: u16) = 1" "unat (from_le_bytes (seg 10 12 enc) :: u16) = 112"
    and zero: "seg 12 16 enc = replicate (length (seg 12 16 enc)) 0"
    and seq: "from_le_bytes (seg 16 24 enc) = seq" and prev: "seg 48 80 enc = to_be_bytes prev"
    and n: "0 < ?n" "?n \<le> 65424"
    and pad: "drop (112 + ?n) enc = replicate (length (drop (112 + ?n) enc)) 0"
    and ck: "block_checksum C enc = from_le_bytes (seg 44 48 enc)"
    and dg: "block_digest C enc = dg" "from_be_bytes (seg 80 112 enc) = dg"
    using hdr by (auto simp: decode_block_header_def Let_def all_zero_iff plen_def WAL_BLOCK_SIZE_def
        WAL_BLOCK_HEADER_SIZE_def WAL_BLOCK_PAYLOAD_SIZE_def split: if_splits)
  obtain offset where off: "block_offset seq = Inr offset"
    and loop: "decode_records_loop C offset ?n enc 0 [] = Inr (wb_records b)"
    using recs by (auto simp: decode_block_records_def attempt_eq_Inr)
  let ?p = "seg 112 (112 + ?n) enc"
  have lsns: "lsns_at offset 0 (wb_records b)" and enc_records: "encode_records C (wb_records b) = Inr ?p"
    using encode_records_decoded [OF loop] n len by auto
  have ne: "wb_records b \<noteq> []"
    and lsn: "from_le_bytes (seg 24 32 enc) = get (wr_lsn (hd (wb_records b)))"
      "from_le_bytes (seg 32 40 enc) = get (wr_lsn (last (wb_records b)))"
    using range by (auto simp: validate_block_record_range_def Let_def split: if_splits)
  have plen: "length ?p = ?n" using n len by simp
  have le: "to_le_bytes (1 :: u16) = seg 8 10 enc" "to_le_bytes (112 :: u16) = seg 10 12 enc"
    "to_le_bytes seq = seg 16 24 enc" "to_le_bytes (get (wr_lsn (hd (wb_records b)))) = seg 24 32 enc"
    "to_le_bytes (get (wr_lsn (last (wb_records b)))) = seg 32 40 enc"
    "to_le_bytes (word_of_nat (length ?p) :: u32) = seg 40 44 enc" "replicate 4 0 = seg 12 16 enc"
  proof -
    have "from_le_bytes (seg 10 12 enc) = (112 :: u16)"
      using arg_cong [OF ver(2), of "word_of_nat :: nat \<Rightarrow> u16"] by (simp add: word_of_nat_unat)
    then show "to_le_bytes (112 :: u16) = seg 10 12 enc" using len by (intro to_le_bytes_eqI) simp_all
    show "to_le_bytes (word_of_nat (length ?p) :: u32) = seg 40 44 enc"
      unfolding plen word_of_nat_unat using len by (simp add: plen_def)
  qed (use len zero in \<open>simp_all flip: ver(1) seq lsn\<close>)
  have head: "block_head b ?p = seg 0 8 enc @ seg 8 10 enc @ seg 10 12 enc @ seg 12 16 enc @ seg 16 24 enc
    @ seg 24 32 enc @ seg 32 40 enc @ seg 40 44 enc"
    unfolding block_head_def b le magic ..
  have tail: "block_tail ?p = drop 112 enc"
    using pad len n seg_split [of 112 "112 + ?n" 65536 enc]
    by (simp add: block_tail_def plen seg_tail [of _ enc, unfolded len])
  note part = block_partition [OF len, folded head tail]
  have "block_checksum C enc = block_check C b ?p"
    unfolding block_check_def
    by (subst part, subst (1 2) block_checksum_layout) (use len in \<open>simp_all add: prev b\<close>)
  with ck len have "seg 44 48 enc = to_le_bytes (block_check C b ?p)" by simp
  moreover have "seg 80 112 enc = to_be_bytes dg" using len by (simp flip: dg(2))
  ultimately have enc: "enc = block_bytes C b ?p (wb_digest b)"
    using part by (simp add: block_bytes_def prev b)
  with ne off lsns enc_records plen n dg b show ?thesis
    unfolding conj_assoc [symmetric] wf_block_layout by auto
qed

interpretation wal_block: canonical_codec
    "\<lambda>b. wf_block C b \<and> wb_sequence b = sequence \<and> wb_previous_digest b = previous"
    "wal_block_encode C" "wal_block_decode C sequence previous" for C sequence previous
  by unfold_locales (auto simp: wal_block_decode_encoded dest: wal_block_encode_decoded)

lemma wf_block_encodes: "wf_block C b \<Longrightarrow> \<exists>e. wal_block_encode C b = Inr e"
  by (auto simp: wf_block_def encoding_wf wal_block_encode_layout split: sum.splits)

lemma wal_block_encode_length: "wal_block_encode C b = Inr e \<Longrightarrow> length e = 65536"
  by (auto simp: wal_block_encode_layout dest: block_bytes_parts(1) [OF _ refl])

section \<open>Addresses\<close>

lemma record_lsn_Inr:
  assumes "po < 2 ^ 64"
  shows "(record_lsn offset po = Inr l) = (unat (get l) = unat offset + 112 + po)"
proof (cases "checked_add offset 112")
  case None
  then have "2 ^ 64 \<le> unat offset + 112" by (simp add: checked_add_None)
  moreover have "record_lsn offset po \<noteq> Inr l" by (simp add: record_lsn_def None result_simps)
  ultimately show ?thesis using unat_u64_less [of "get l"] by simp
next
  case (Some a)
  then have "unat a = unat offset + 112" by (simp add: checked_add_Some)
  moreover have "unat (word_of_nat po :: u64) = po" using assms by (intro unat_word_of_nat) simp
  moreover have "(record_lsn offset po = Inr l) = (checked_add a (word_of_nat po) = Some (get l))"
    by (auto simp: record_lsn_def Some result_simps)
  ultimately show ?thesis by (simp add: checked_add_Some)
qed

lemma block_offset_Inr:
  "(block_offset s = Inr offset) = (s \<noteq> 0 \<and> unat offset = (unat s - 1) * 65536)"
proof (cases "s = 0")
  case False
  then have "unat (s - 1) = unat s - 1" by (intro unat_minus_one)
  moreover have "checked_sub s 1 = Some (s - 1)"
    using False by (simp add: checked_sub_def Suc_le_eq unat_gt_0)
  ultimately show ?thesis
    using False by (simp add: block_offset_def result_simps checked_mul_eq_Some)
qed (simp add: block_offset_def checked_sub_def result_simps)

text \<open>The block sequences whose addresses fit 64 bits.\<close>

definition MAX_SEQUENCE :: nat where "MAX_SEQUENCE = 2 ^ 48"

lemma block_offset_total:
  assumes "s \<noteq> 0" "unat s \<le> MAX_SEQUENCE"
  obtains offset where "block_offset s = Inr offset" "unat offset + 65536 \<le> 2 ^ 64"
proof
  let ?o = "word_of_nat ((unat s - 1) * 65536) :: u64"
  have "(unat s - 1) * 65536 + 65536 \<le> 2 ^ 64"
    using assms by (simp add: MAX_SEQUENCE_def unat_gt_0 diff_mult_distrib)
  then have "unat ?o = (unat s - 1) * 65536" by (intro unat_word_of_nat) simp
  then show "block_offset s = Inr ?o" "unat ?o + 65536 \<le> 2 ^ 64"
    using assms \<open>_ \<le> 2 ^ 64\<close> by (simp_all add: block_offset_Inr)
qed

section \<open>Building a block\<close>

definition pending_of :: "wal_record \<Rightarrow> pending_record" where
  "pending_of r = \<lparr>pr_kind = wr_kind r, pr_engine = wr_engine r, pr_flags = wr_flags r,
     pr_transaction_id = wr_transaction_id r, pr_body = wr_body r\<rparr>"

abbreviation group_length :: "pending_record list \<Rightarrow> nat" where
  "group_length rs \<equiv> sum_list (map encoded_length rs)"

lemma encoded_length_pending_of [simp]: "encoded_length (pending_of r) = 44 + length (wr_body r)"
  by (simp add: encoded_length_def pending_of_def WAL_RECORD_HEADER_SIZE_def)

lemma pending_of_record [simp]:
  "pending_of \<lparr>wr_lsn = l, wr_kind = pr_kind p, wr_engine = pr_engine p, wr_flags = pr_flags p,
     wr_transaction_id = pr_transaction_id p, wr_body = pr_body p\<rparr> = p"
  by (simp add: pending_of_def)

lemma encoded_length_body: "44 + length (pr_body p) = encoded_length p"
  by (simp add: encoded_length_def WAL_RECORD_HEADER_SIZE_def)

lemma assign_lsns_correct:
  assumes "assign_lsns offset po pending acc = Inr out" "po \<le> 65424"
  shows "\<exists>rs. out = acc @ rs \<and> lsns_at offset po rs \<and> map pending_of rs = pending
    \<and> po + group_length pending \<le> 65424"
  using assms
proof (induction pending arbitrary: po acc)
  case (Cons p pending)
  from Cons.prems obtain l where fits: "po + encoded_length p \<le> 65424" and l: "record_lsn offset po = Inr l"
    and rest: "assign_lsns offset (po + encoded_length p) pending
      (acc @ [\<lparr>wr_lsn = l, wr_kind = pr_kind p, wr_engine = pr_engine p, wr_flags = pr_flags p,
         wr_transaction_id = pr_transaction_id p, wr_body = pr_body p\<rparr>]) = Inr out"
    by (auto simp: Let_def result_simps WAL_BLOCK_PAYLOAD_SIZE_def WAL_BLOCK_SIZE_def
        WAL_BLOCK_HEADER_SIZE_def split: if_splits)
  from Cons.IH [OF rest fits] obtain rs where
    "out = acc @ \<lparr>wr_lsn = l, wr_kind = pr_kind p, wr_engine = pr_engine p, wr_flags = pr_flags p,
         wr_transaction_id = pr_transaction_id p, wr_body = pr_body p\<rparr> # rs"
    "lsns_at offset (po + encoded_length p) rs" "map pending_of rs = pending"
    "po + encoded_length p + group_length pending \<le> 65424"
    by auto
  with l show ?case
    by (intro exI [of _ "\<lparr>wr_lsn = l, wr_kind = pr_kind p, wr_engine = pr_engine p, wr_flags = pr_flags p,
         wr_transaction_id = pr_transaction_id p, wr_body = pr_body p\<rparr> # rs"])
      (simp add: encoded_length_body add.assoc)
qed simp

lemma assign_lsns_total:
  assumes "unat offset + 65536 \<le> 2 ^ 64" "po + group_length pending \<le> 65424"
  shows "\<exists>rs. assign_lsns offset po pending acc = Inr rs"
  using assms(2)
proof (induction pending arbitrary: po acc)
  case (Cons p pending)
  have "unat offset + 112 + po < 2 ^ 64" "0 < unat offset + 112 + po"
    using Cons.prems assms(1) by (simp_all add: encoded_length_def WAL_RECORD_HEADER_SIZE_def)
  then have "unat (word_of_nat (unat offset + 112 + po) :: u64) = unat offset + 112 + po"
    by (intro unat_word_of_nat) simp
  then have "unat (get (nz (word_of_nat (unat offset + 112 + po) :: u64))) = unat offset + 112 + po"
    by (auto simp: word_unat_eq_iff)
  then have "record_lsn offset po = Inr (nz (word_of_nat (unat offset + 112 + po)))"
    using Cons.prems by (subst record_lsn_Inr) simp_all
  moreover have "po + encoded_length p \<le> 65424" using Cons.prems by simp
  ultimately show ?case
    using Cons.IH [of "po + encoded_length p"] Cons.prems
    by (simp add: Let_def WAL_BLOCK_PAYLOAD_SIZE_def WAL_BLOCK_SIZE_def WAL_BLOCK_HEADER_SIZE_def add.assoc)
qed simp

lemma encode_records_length:
  "encode_records C rs = Inr payload \<Longrightarrow> length payload = group_length (map pending_of rs)"
  by (induction rs arbitrary: payload) (auto simp: attempt_eq_Inr dest!: wal_record_encode_length)

lemma encode_records_total:
  "group_length (map pending_of rs) \<le> 65424 \<Longrightarrow> \<exists>payload. encode_records C rs = Inr payload"
proof (induction rs)
  case (Cons r rs)
  then obtain payload where "encode_records C rs = Inr payload" by auto
  moreover obtain e where "wal_record_encode C r = Inr e"
    using Cons.prems by (simp add: wal_record_encode_layout)
  ultimately show ?case by simp
qed simp

lemma build_encoded_correct:
  assumes "build_encoded C sequence previous pending = Inr (b, e)"
  shows "wf_block C b \<and> wal_block_encode C b = Inr e \<and> wb_sequence b = sequence
    \<and> wb_previous_digest b = previous \<and> map pending_of (wb_records b) = pending"
proof -
  from assms obtain offset records e0 where off: "block_offset sequence = Inr offset"
    and records: "assign_lsns offset 0 pending [] = Inr records"
    and e0: "encode_with_zero_digest C \<lparr>wb_sequence = sequence, wb_previous_digest = previous,
      wb_digest = 0, wb_records = records\<rparr> = Inr e0"
    and b: "b = \<lparr>wb_sequence = sequence, wb_previous_digest = previous, wb_digest = block_digest C e0,
      wb_records = records\<rparr>" and e: "e = put 80 (to_be_bytes (block_digest C e0)) e0"
    by (auto simp: build_encoded_def Let_def result_simps split: if_splits)
  have "encode_with_zero_digest C b = Inr e0"
    using e0 by (simp add: b encode_with_zero_digest_layout block_bytes_def block_check_def block_head_def)
  moreover have "lsns_at offset 0 records" "map pending_of records = pending"
    using assign_lsns_correct [OF records] by auto
  ultimately show ?thesis
    using off by (simp add: wf_block_def wal_block_encode_def e) (simp add: b)
qed

lemma build_encoded_total:
  assumes "sequence \<noteq> 0" "unat sequence \<le> MAX_SEQUENCE" "pending \<noteq> []" "group_length pending \<le> 65424"
  shows "\<exists>b e. build_encoded C sequence previous pending = Inr (b, e)"
proof -
  obtain offset where off: "block_offset sequence = Inr offset" "unat offset + 65536 \<le> 2 ^ 64"
    using block_offset_total [OF assms(1,2)] .
  from assign_lsns_total [OF off(2), of 0 pending] obtain records
    where records: "assign_lsns offset 0 pending [] = Inr records" using assms(4) by auto
  from assign_lsns_correct [OF records] have p: "map pending_of records = pending" by auto
  then obtain payload where "encode_records C records = Inr payload"
    using encode_records_total assms(4) by metis
  moreover from this have "length payload \<le> 65424"
    using encode_records_length p assms(4) by metis
  moreover have "records \<noteq> []" using p assms(3) by auto
  ultimately have "\<exists>e. encode_with_zero_digest C \<lparr>wb_sequence = sequence, wb_previous_digest = previous,
      wb_digest = 0, wb_records = records\<rparr> = Inr e"
    by (simp add: encode_with_zero_digest_layout)
  then show ?thesis using assms off records by (auto simp: build_encoded_def Let_def)
qed

section \<open>Record addresses increase\<close>

lemma lsns_at_range:
  assumes "lsns_at offset po rs" "po + group_length (map pending_of rs) < 2 ^ 64" "r \<in> set rs"
  shows "unat offset + 112 + po \<le> unat (get (wr_lsn r))
    \<and> unat (get (wr_lsn r)) + encoded_length (pending_of r)
        \<le> unat offset + 112 + po + group_length (map pending_of rs)"
  using assms
proof (induction rs arbitrary: po)
  case (Cons a rs)
  have "unat (get (wr_lsn a)) = unat offset + 112 + po"
    using Cons.prems record_lsn_Inr [of po offset "wr_lsn a"] by simp
  with Cons show ?case by (fastforce simp: add.assoc)
qed simp

lemma lsns_at_increasing:
  assumes "lsns_at offset po rs" "po + group_length (map pending_of rs) < 2 ^ 64"
  shows "sorted_wrt (\<lambda>r s. wr_lsn r < wr_lsn s) rs"
  using assms
proof (induction rs arbitrary: po)
  case (Cons a rs)
  let ?po = "po + 44 + length (wr_body a)"
  have "unat (get (wr_lsn a)) = unat offset + 112 + po"
    using Cons.prems record_lsn_Inr [of po offset "wr_lsn a"] by simp
  moreover have "unat offset + 112 + ?po \<le> unat (get (wr_lsn s))" if "s \<in> set rs" for s
    using lsns_at_range [of offset ?po rs s] Cons.prems that by simp
  ultimately have "wr_lsn a < wr_lsn s" if "s \<in> set rs" for s
    using that by (fastforce simp: less_nonzero_def word_less_nat_alt)
  moreover have "sorted_wrt (\<lambda>r s. wr_lsn r < wr_lsn s) rs"
    using Cons.IH [of ?po] Cons.prems by simp
  ultimately show ?case by simp
qed simp

lemma wf_block_lsns:
  assumes "wf_block C b"
  shows "sorted_wrt (\<lambda>r s. wr_lsn r < wr_lsn s) (wb_records b) \<and> wb_sequence b \<noteq> 0
    \<and> (\<forall>r\<in>set (wb_records b). (unat (wb_sequence b) - 1) * 65536 < unat (get (wr_lsn r))
        \<and> unat (get (wr_lsn r)) < unat (wb_sequence b) * 65536)"
proof -
  obtain offset payload where off: "block_offset (wb_sequence b) = Inr offset"
    and lsns: "lsns_at offset 0 (wb_records b)" and payload: "encode_records C (wb_records b) = Inr payload"
      "length payload \<le> 65424"
    using assms wf_block_encodes [OF assms] wf_block_layout [of C b] by blast
  have len: "group_length (map pending_of (wb_records b)) \<le> 65424"
    using encode_records_length [OF payload(1)] payload(2) by simp
  have s: "wb_sequence b \<noteq> 0" "unat offset = (unat (wb_sequence b) - 1) * 65536"
    using off by (simp_all add: block_offset_Inr)
  then have "unat offset + 65536 = unat (wb_sequence b) * 65536"
    by (simp add: diff_mult_distrib unat_gt_0 Suc_le_eq)
  moreover have "unat offset < unat (get (wr_lsn r)) \<and> unat (get (wr_lsn r)) < unat offset + 65536"
    if "r \<in> set (wb_records b)" for r
    using lsns_at_range [OF lsns _ that] len by simp
  moreover have "sorted_wrt (\<lambda>r s. wr_lsn r < wr_lsn s) (wb_records b)"
    using len by (intro lsns_at_increasing [OF lsns]) simp
  ultimately show ?thesis using s by simp
qed

section \<open>Properties\<close>

text \<open>C3. The block decoder accepts exactly the images of the encoder: bytes decode to a block at the
  expected sequence and predecessor digest iff the block has that sequence and predecessor, its
  records carry the addresses at which they are stored, its digest is the digest of its
  contents, and encoding it gives those bytes.
\<close>

theorem wal_block_canonical:
  "(wal_block_decode C sequence previous encoded = Inr b)
    = (wf_block C b \<and> wb_sequence b = sequence \<and> wb_previous_digest b = previous
       \<and> wal_block_encode C b = Inr encoded)"
  using wal_block.dec_iff [of C sequence previous encoded b] by blast

text \<open>The streaming block checksum is the checksum of the copy with the checksum and digest
  fields zeroed, for a CRC whose append continues the computation.
\<close>

theorem block_checksum_streaming:
  assumes "\<And>xs ys. crc32c_append C (crc32c C xs) ys = crc32c C (xs @ ys)" "length encoded = WAL_BLOCK_SIZE"
  shows "block_checksum C encoded
    = crc32c C (put 80 (replicate 32 0) (put 44 (replicate 4 0) encoded))"
proof -
  have len: "length encoded = 65536" using assms(2) by (simp add: WAL_BLOCK_SIZE_def)
  let ?h = "seg 0 44 encoded" and ?p = "seg 48 80 encoded" and ?t = "drop 112 encoded"
  have "encoded = ?h @ seg 44 48 encoded @ ?p @ seg 80 112 encoded @ ?t"
    using seg_all [of encoded] len by (simp add: seg_tail [of 112 encoded, symmetric] flip: seg_split)
  then have "put 44 (replicate 4 0) encoded = put 44 (replicate 4 0) (?h @ seg 44 48 encoded @ (?p @ seg 80 112 encoded @ ?t))"
    by (rule arg_cong)
  also have "\<dots> = ?h @ replicate 4 0 @ (?p @ seg 80 112 encoded @ ?t)"
    by (rule put_middle) (simp_all add: len)
  also have "\<dots> = (?h @ replicate 4 0 @ ?p) @ seg 80 112 encoded @ ?t" by simp
  finally have "put 80 (replicate 32 0) (put 44 (replicate 4 0) encoded)
      = (?h @ replicate 4 0 @ ?p) @ replicate 32 0 @ ?t"
    by (simp only: put_middle [of 80 "?h @ replicate 4 0 @ ?p"] len length_append length_replicate length_seg)
  then show ?thesis by (simp add: block_checksum_def assms(1))
qed

theorem block_checksum_streaming_witness:
  "block_checksum sum_crypto (replicate 65536 7)
    = crc32c sum_crypto (put 80 (replicate 32 0) (put 44 (replicate 4 0) (replicate 65536 7)))"
  by (rule block_checksum_streaming) (simp_all add: sum_crypto_def WAL_BLOCK_SIZE_def)

end
