(* ===== verification/FileReads.thy ===== *)
theory FileReads
  imports Endian
begin

text \<open>
  Reading a range of a file (\<^verbatim>\<open>read_exact_at\<close> of the log and of the page file): the loop over
  \<^verbatim>\<open>read_at\<close> calls, with the number of bytes each call gives as an argument and the error that a failed
  or empty read turns into as a parameter.
\<close>

text \<open>One \<^verbatim>\<open>read_at\<close> call: \<open>None\<close> is an I/O error, \<open>Some k\<close> asks for up to \<open>k + 1\<close> bytes.\<close>

type_synonym reads = "nat \<Rightarrow> nat option"

function read_exact_at :: "'e \<Rightarrow> reads \<Rightarrow> bytes \<Rightarrow> nat \<Rightarrow> nat \<Rightarrow> 'e + bytes" where
  "read_exact_at e io content remaining offset =
     (if remaining = 0 then Inr []
      else case io 0 of
          None \<Rightarrow> Inl e
        | Some k \<Rightarrow>
            let read = min (Suc k) (min remaining (length content - offset)) in
            if read = 0 then Inl e
            else attempt (read_exact_at e (io \<circ> Suc) content (remaining - read) (offset + read)) (\<lambda>rest.
              Inr (seg offset (offset + read) content @ rest)))"
  by pat_completeness auto
termination
  by (relation "measure (\<lambda>(_, _, _, remaining, _). remaining)") auto

declare read_exact_at.simps [simp del]

section \<open>Exact results\<close>

lemma read_exact_at_sound:
  "read_exact_at e io content n offset = Inr bs
    \<Longrightarrow> bs = seg offset (offset + n) content \<and> (n = 0 \<or> offset + n \<le> length content)"
proof (induction e io content n offset arbitrary: bs rule: read_exact_at.induct)
  case (1 e io content n offset)
  show ?case
  proof (cases "n = 0")
    case True
    with "1.prems" show ?thesis by (simp add: read_exact_at.simps seg_def)
  next
    case False
    with "1.prems" obtain k where k: "io 0 = Some k" by (auto simp: read_exact_at.simps split: option.splits)
    define r where "r = min (Suc k) (min n (length content - offset))"
    from "1.prems" False k obtain rest where r: "0 < r" "r \<le> n" "offset + r \<le> length content"
      and rest: "read_exact_at e (io \<circ> Suc) content (n - r) (offset + r) = Inr rest"
      and bs: "bs = seg offset (offset + r) content @ rest"
      by (subst (asm) read_exact_at.simps) (auto simp: Let_def attempt_eq_Inr r_def split: if_splits)
    have "rest = seg (offset + r) (offset + r + (n - r)) content
        \<and> (n - r = 0 \<or> offset + r + (n - r) \<le> length content)"
      by (rule "1.IH" [OF False k r_def _ rest]) (use r in simp)
    with r bs show ?thesis using seg_split [of offset "offset + r" "offset + n" content] by auto
  qed
qed

lemma read_exact_at_complete:
  "\<forall>i. io i \<noteq> None \<Longrightarrow> offset + n \<le> length content
    \<Longrightarrow> read_exact_at e io content n offset = Inr (seg offset (offset + n) content)"
proof (induction e io content n offset rule: read_exact_at.induct)
  case (1 e io content n offset)
  show ?case
  proof (cases "n = 0")
    case True
    then show ?thesis by (simp add: read_exact_at.simps seg_def)
  next
    case False
    obtain k where k: "io 0 = Some k" using "1.prems"(1) by blast
    define r where "r = min (Suc k) (min n (length content - offset))"
    have r: "0 < r" "r \<le> n" "offset + r \<le> length content" using False "1.prems"(2) by (auto simp: r_def)
    have "read_exact_at e (io \<circ> Suc) content (n - r) (offset + r) = Inr (seg (offset + r) (offset + r + (n - r)) content)"
      by (rule "1.IH" [OF False k r_def]) (use r "1.prems" in \<open>auto simp: comp_def\<close>)
    with r k False show ?thesis
      using seg_split [of offset "offset + r" "offset + n" content]
      by (subst read_exact_at.simps) (simp add: Let_def flip: r_def)
  qed
qed

lemma read_exact_at_error: "read_exact_at e io content n offset = Inl x \<Longrightarrow> x = e"
proof (induction e io content n offset rule: read_exact_at.induct)
  case (1 e io content n offset)
  from "1.prems" show ?case
    by (subst (asm) read_exact_at.simps)
      (auto simp: Let_def attempt_def split: if_splits option.splits sum.splits
        intro: "1.IH" [OF _ _ refl])
qed

end
