(* ===== verification/WalFile.thy ===== *)
theory WalFile
  imports WalCodec FileReads
begin

text \<open>
  The WAL file (\<^verbatim>\<open>WalFile\<close>): creating, opening with verification and tail repair, appending
  with record packing, synchronizing, and resetting after retirement.

  The file contents are a byte list, together with the length up to which they have been
  synchronized. Writes append, since every successful operation leaves the cursor at the end and
  a failed one poisons the writer. An operation of the system that may fail takes its outcome as
  an argument: a read call gives an error or a positive number of bytes, a \<^verbatim>\<open>write_all\<close> succeeds
  or fails after some bytes, and truncating, seeking or synchronizing succeeds or fails. Byte
  counts of in-memory vectors do not overflow \<^verbatim>\<open>usize\<close>.
\<close>

section \<open>State\<close>

record block_receipt =
  br_sequence :: u64
  br_first_lsn :: lsn
  br_last_lsn :: lsn
  br_digest :: digest

record wal_recovery =
  rec_base_sequence :: u64
  rec_base_digest :: digest
  rec_records :: "wal_record list"
  rec_blocks :: "block_receipt list"
  rec_truncated_tail_bytes :: nat
  rec_last_sequence :: u64
  rec_last_digest :: digest

record wal_file =
  wf_content :: bytes
  wf_synced :: nat
  wf_next_sequence :: u64
  wf_previous_digest :: digest
  wf_poisoned :: bool

section \<open>Creating and opening\<close>

definition wal_create :: wal_file where
  "wal_create = \<lparr>wf_content = [], wf_synced = 0, wf_next_sequence = 1, wf_previous_digest = 0,
     wf_poisoned = False\<rparr>"

definition last_sequence :: "wal_file \<Rightarrow> u64" where
  "last_sequence w = wf_next_sequence w - 1"

definition receipt_of :: "wal_block \<Rightarrow> block_receipt" where
  "receipt_of block = \<lparr>br_sequence = wb_sequence block, br_first_lsn = wr_lsn (hd (wb_records block)),
     br_last_lsn = wr_lsn (last (wb_records block)), br_digest = wb_digest block\<rparr>"

text \<open>The verification loop of \<^verbatim>\<open>open_after\<close> over the block indices.\<close>

fun open_blocks ::
    "crypto \<Rightarrow> (nat \<Rightarrow> reads) \<Rightarrow> bytes \<Rightarrow> u64 \<Rightarrow> nat list \<Rightarrow> digest \<Rightarrow> wal_record list \<Rightarrow> block_receipt list
      \<Rightarrow> wal_error + (digest \<times> wal_record list \<times> block_receipt list)"
where
  "open_blocks C io content base_sequence [] previous_digest records blocks =
     Inr (previous_digest, records, blocks)"
| "open_blocks C io content base_sequence (index # indices) previous_digest records blocks =
     attempt (ok_or AddressExhausted
       (case checked_add base_sequence (word_of_nat index) of
          None \<Rightarrow> None
        | Some v \<Rightarrow> checked_add v 1)) (\<lambda>sequence.
     attempt (read_exact_at Io (io index) content WAL_BLOCK_SIZE (index * WAL_BLOCK_SIZE)) (\<lambda>encoded.
     attempt (wal_block_decode C sequence previous_digest encoded) (\<lambda>block.
     if wb_records block = [] then Inl EmptyBlock
     else open_blocks C io content base_sequence indices (wb_digest block)
       (records @ wb_records block) (blocks @ [receipt_of block]))))"

text \<open>
  The outcomes of opening the file, reading its length, cutting its tail, synchronizing it and moving
  to its end are arguments.
  The result of opening is paired with the contents the file is left with. What is read is what
  the disk holds, so the opened file counts as synchronized.
\<close>

definition open_after ::
    "crypto \<Rightarrow> (nat \<Rightarrow> reads) \<Rightarrow> bool \<Rightarrow> bool \<Rightarrow> bool \<Rightarrow> bool \<Rightarrow> bool \<Rightarrow> bytes \<Rightarrow> u64 \<Rightarrow> digest
      \<Rightarrow> (wal_error + (wal_file \<times> wal_recovery)) \<times> bytes"
where
  "open_after C io open_ok len_ok set_len_ok sync_ok seek_ok content base_sequence base_digest =
     (if (base_sequence = 0) \<noteq> (base_digest = 0) then (Inl InvalidPhysicalBase, content)
      else if \<not> open_ok \<or> \<not> len_ok then (Inl Io, content)
      else
        let complete_blocks = length content div WAL_BLOCK_SIZE;
            tail_bytes = length content mod WAL_BLOCK_SIZE
        in case open_blocks C io content base_sequence [0..<complete_blocks] base_digest [] [] of
            Inl e \<Rightarrow> (Inl e, content)
          | Inr (previous_digest, records, blocks) \<Rightarrow>
              if tail_bytes \<noteq> 0 \<and> \<not> set_len_ok then (Inl Io, content)
              else
                let content = take (complete_blocks * WAL_BLOCK_SIZE) content in
                if tail_bytes \<noteq> 0 \<and> \<not> sync_ok then (Inl Io, content)
                else if \<not> seek_ok then (Inl Io, content)
                else
                  (attempt (ok_or AddressExhausted (checked_add base_sequence (word_of_nat complete_blocks)))
                     (\<lambda>last_sequence.
                   attempt (ok_or AddressExhausted (checked_add last_sequence 1)) (\<lambda>next_sequence.
                   Inr (\<lparr>wf_content = content, wf_synced = length content,
                          wf_next_sequence = next_sequence, wf_previous_digest = previous_digest,
                          wf_poisoned = False\<rparr>,
                        \<lparr>rec_base_sequence = base_sequence, rec_base_digest = base_digest,
                          rec_records = records, rec_blocks = blocks,
                          rec_truncated_tail_bytes = tail_bytes, rec_last_sequence = last_sequence,
                          rec_last_digest = previous_digest\<rparr>))), content))"

definition wal_open ::
    "crypto \<Rightarrow> (nat \<Rightarrow> reads) \<Rightarrow> bool \<Rightarrow> bool \<Rightarrow> bool \<Rightarrow> bool \<Rightarrow> bool \<Rightarrow> bytes
      \<Rightarrow> (wal_error + (wal_file \<times> wal_recovery)) \<times> bytes"
where
  "wal_open C io open_ok len_ok set_len_ok sync_ok seek_ok content =
     open_after C io open_ok len_ok set_len_ok sync_ok seek_ok content 0 0"

section \<open>Appending\<close>

text \<open>The packing loop of \<^verbatim>\<open>append_records\<close>.\<close>

fun pack_records ::
    "pending_record list \<Rightarrow> pending_record list list \<Rightarrow> pending_record list \<Rightarrow> nat \<Rightarrow> pending_record list list"
where
  "pack_records [] groups current current_bytes =
     (if current \<noteq> [] then groups @ [current] else groups)"
| "pack_records (r # records) groups current current_bytes =
     (let record_bytes = encoded_length r in
      if current_bytes + record_bytes > WAL_BLOCK_PAYLOAD_SIZE
      then pack_records records (groups @ [current]) [r] record_bytes
      else pack_records records groups (current @ [r]) (current_bytes + record_bytes))"

text \<open>
  The writing loop. A fault \<open>Some k\<close> makes the \<^verbatim>\<open>write_all\<close> of that block fail after \<open>k\<close> bytes;
  a missing outcome is success.
\<close>

fun append_groups ::
    "crypto \<Rightarrow> nat option list \<Rightarrow> wal_file \<Rightarrow> pending_record list list \<Rightarrow> block_receipt list
      \<Rightarrow> (wal_error + block_receipt list) \<times> wal_file"
where
  "append_groups C faults w [] receipts = (Inr receipts, w)"
| "append_groups C faults w (grp # groups) receipts =
     (case build_encoded C (wf_next_sequence w) (wf_previous_digest w) grp of
        Inl e \<Rightarrow> (Inl e, w)
      | Inr (block, encoded) \<Rightarrow>
          (case faults of
             Some k # _ \<Rightarrow> (Inl Io, w\<lparr>wf_content := wf_content w @ take k encoded\<rparr>)
           | _ \<Rightarrow>
               let w = w\<lparr>wf_content := wf_content w @ encoded\<rparr> in
               if wb_records block = [] then (Inl EmptyBlock, w)
               else
                 let w = w\<lparr>wf_previous_digest := wb_digest block\<rparr> in
                 (case checked_add (wf_next_sequence w) 1 of
                    None \<Rightarrow> (Inl AddressExhausted, w)
                  | Some next_sequence \<Rightarrow>
                      append_groups C (tl faults) (w\<lparr>wf_next_sequence := next_sequence\<rparr>) groups
                        (receipts @ [receipt_of block]))))"

definition append_records ::
    "crypto \<Rightarrow> nat option list \<Rightarrow> bool \<Rightarrow> wal_file \<Rightarrow> pending_record list \<Rightarrow> bool
      \<Rightarrow> (wal_error + block_receipt list) \<times> wal_file"
where
  "append_records C faults sync_ok w records synchronize =
     (if wf_poisoned w then (Inl WalPoisoned, w)
      else if records = [] then (Inl EmptyBlock, w)
      else
        (case append_groups C faults (w\<lparr>wf_poisoned := True\<rparr>) (pack_records records [] [] 0) [] of
           (Inl e, w) \<Rightarrow> (Inl e, w)
         | (Inr receipts, w) \<Rightarrow>
             if synchronize \<and> \<not> sync_ok then (Inl Io, w)
             else
               let w = (if synchronize then w\<lparr>wf_synced := length (wf_content w)\<rparr> else w) in
               (Inr receipts, w\<lparr>wf_poisoned := False\<rparr>)))"

definition wal_sync_data :: "bool \<Rightarrow> wal_file \<Rightarrow> (wal_error + unit) \<times> wal_file" where
  "wal_sync_data sync_ok w =
     (if wf_poisoned w then (Inl WalPoisoned, w)
      else if \<not> sync_ok then (Inl Io, w\<lparr>wf_poisoned := True\<rparr>)
      else (Inr (), w\<lparr>wf_synced := length (wf_content w)\<rparr>))"

text \<open>Without synchronization the old contents may come back: nothing is then known to be durable.\<close>

definition reset_after ::
    "bool \<Rightarrow> bool \<Rightarrow> bool \<Rightarrow> wal_file \<Rightarrow> u64 \<Rightarrow> digest \<Rightarrow> bool \<Rightarrow> (wal_error + unit) \<times> wal_file"
where
  "reset_after set_len_ok seek_ok sync_ok w retired_through_sequence retired_block_digest synchronize =
     (if retired_through_sequence = 0 \<or> retired_block_digest = 0 then (Inl InvalidPhysicalBase, w)
      else
        (case checked_add retired_through_sequence 1 of
           None \<Rightarrow> (Inl AddressExhausted, w)
         | Some next_sequence \<Rightarrow>
             let w = w\<lparr>wf_poisoned := True\<rparr> in
             if \<not> set_len_ok then (Inl Io, w)
             else
               let w = w\<lparr>wf_content := [], wf_synced := 0\<rparr> in
               if \<not> seek_ok then (Inl Io, w)
               else if synchronize \<and> \<not> sync_ok then (Inl Io, w)
               else (Inr (), w\<lparr>wf_next_sequence := next_sequence,
                   wf_previous_digest := retired_block_digest, wf_poisoned := False\<rparr>)))"

end
