(* ===== verification/WalLog.thy ===== *)
theory WalLog
  imports WalFile
begin

text \<open>
  The contents of a WAL file as a chain of blocks: a log file holds the images of blocks with
  consecutive sequences, each naming the digest of its predecessor. Opening recognises exactly
  the complete blocks of a chain, packing keeps the records in order in blocks that fit, and
  appending extends the chain, leaving at worst a torn extension when it fails.
\<close>

section \<open>Chains of blocks\<close>

fun chain :: "crypto \<Rightarrow> nat \<Rightarrow> digest \<Rightarrow> wal_block list \<Rightarrow> bool" where
  "chain C s previous [] = True"
| "chain C s previous (b # bs) =
     (wf_block C b \<and> unat (wb_sequence b) = s \<and> wb_previous_digest b = previous
      \<and> chain C (Suc s) (wb_digest b) bs)"

definition chain_digest :: "digest \<Rightarrow> wal_block list \<Rightarrow> digest" where
  "chain_digest previous bs = (if bs = [] then previous else wb_digest (last bs))"

definition block_image :: "crypto \<Rightarrow> wal_block \<Rightarrow> bytes" where
  "block_image C b = (case wal_block_encode C b of Inl e \<Rightarrow> [] | Inr e \<Rightarrow> e)"

abbreviation log_image :: "crypto \<Rightarrow> wal_block list \<Rightarrow> bytes" where
  "log_image C bs \<equiv> concat (map (block_image C) bs)"

abbreviation log_records :: "wal_block list \<Rightarrow> wal_record list" where
  "log_records bs \<equiv> concat (map wb_records bs)"

lemma chain_digest_simps [simp]:
  "chain_digest p [] = p" "chain_digest p (b # bs) = chain_digest (wb_digest b) bs"
  "chain_digest p (xs @ ys) = chain_digest (chain_digest p xs) ys"
  by (auto simp: chain_digest_def)

lemma chain_append [simp]:
  "chain C s p (xs @ ys) = (chain C s p xs \<and> chain C (s + length xs) (chain_digest p xs) ys)"
  by (induction xs arbitrary: s p) auto

lemma chain_take: "chain C s p bs \<Longrightarrow> chain C s p (take n bs)"
  by (metis append_take_drop_id chain_append)

lemma wf_block_image: "wf_block C b \<Longrightarrow> wal_block_encode C b = Inr (block_image C b)"
  using wf_block_encodes [of C b] by (auto simp: block_image_def)

lemma length_block_image [simp]: "wf_block C b \<Longrightarrow> length (block_image C b) = 65536"
  by (rule wal_block_encode_length, rule wf_block_image)

lemma chain_wf: "chain C s p bs \<Longrightarrow> b \<in> set bs \<Longrightarrow> wf_block C b"
  by (induction bs arbitrary: s p) auto

lemma length_log_image: "chain C s p bs \<Longrightarrow> length (log_image C bs) = length bs * 65536"
  by (induction bs arbitrary: s p) auto

lemma take_log_image:
  "chain C s p bs \<Longrightarrow> n \<le> length bs \<Longrightarrow> take (n * 65536) (log_image C bs) = log_image C (take n bs)"
proof (induction bs arbitrary: s p n)
  case (Cons b bs)
  then show ?case by (cases n) auto
qed simp

lemma wal_block_decode_iff:
  "(wal_block_decode C sequence previous e = Inr b)
    = (wf_block C b \<and> wb_sequence b = sequence \<and> wb_previous_digest b = previous \<and> e = block_image C b)"
  using wal_block.dec_iff [of C sequence previous e b] wf_block_image [of C b] by auto

lemma wf_block_records: "wf_block C b \<Longrightarrow> wb_records b \<noteq> []"
  by (auto simp: wf_block_def encoding_wf)

text \<open>Blocks are determined by their images, so a log is determined by its bytes.\<close>

lemma log_image_inj:
  assumes "chain C s p bs" "chain C s p cs" "log_image C bs = log_image C cs"
  shows "bs = cs"
  using assms
proof (induction bs arbitrary: s p cs)
  case Nil
  then show ?case by (cases cs) (auto dest: length_block_image)
next
  case (Cons b bs)
  then obtain c cs' where cs: "cs = c # cs'" by (cases cs) (auto dest: length_block_image)
  have image: "block_image C b = block_image C c" "log_image C bs = log_image C cs'"
    using Cons.prems cs by auto
  have "wb_sequence b = wb_sequence c" using Cons.prems cs by (simp add: word_unat_eq_iff)
  then have "b = c"
    using image(1) Cons.prems cs wal_block_decode_iff [of C "wb_sequence c" p "block_image C c"]
    by (metis chain.simps(2) sum.inject(2))
  with Cons.IH [of "Suc s" "wb_digest b" cs'] Cons.prems cs image(2) show ?case by simp
qed

section \<open>Opening\<close>

lemma open_blocks_sequence:
  fixes base s :: u64
  assumes "index < 2 ^ 64"
  shows "(case checked_add base (word_of_nat index) of None \<Rightarrow> None | Some v \<Rightarrow> checked_add v 1) = Some s
    \<longleftrightarrow> unat s = unat base + index + 1"
proof -
  have n: "unat (word_of_nat index :: u64) = index" using assms by (intro unat_word_of_nat) simp
  show ?thesis
  proof (cases "checked_add base (word_of_nat index)")
    case None
    then have "2 ^ 64 \<le> unat base + index" by (simp add: checked_add_None n)
    with None show ?thesis using unat_u64_less [of s] by simp
  next
    case (Some v)
    then have "unat v = unat base + index" by (simp add: checked_add_Some n)
    then show ?thesis unfolding Some by (simp add: checked_add_Some)
  qed
qed

lemma open_blocks_sound:
  assumes "open_blocks C io content base [i..<n] previous records blocks = Inr (digest, records', blocks')"
    and "i \<le> n" "n * 65536 \<le> length content" "n < 2 ^ 64"
  shows "\<exists>bs. length bs = n - i \<and> chain C (Suc (unat base + i)) previous bs
    \<and> log_image C bs = seg (i * 65536) (n * 65536) content \<and> digest = chain_digest previous bs
    \<and> records' = records @ log_records bs \<and> blocks' = blocks @ map receipt_of bs"
  using assms
proof (induction "n - i" arbitrary: i previous records blocks)
  case 0
  then show ?case by (auto intro!: exI [of _ "[]"] simp: seg_def)
next
  case (Suc m)
  then have less: "i < n" by simp
  with Suc.prems(1) obtain s enc b where s: "unat s = unat base + i + 1"
    and enc: "read_exact_at Io (io i) content 65536 (i * 65536) = Inr enc"
    and b: "wal_block_decode C s previous enc = Inr b"
    and rest: "open_blocks C io content base [Suc i..<n] (wb_digest b) (records @ wb_records b)
      (blocks @ [receipt_of b]) = Inr (digest, records', blocks')"
    using Suc.prems(4)
    by (auto simp: upt_conv_Cons result_simps open_blocks_sequence WAL_BLOCK_SIZE_def split: if_splits)
  have m: "m = n - Suc i" using Suc.hyps(2) by simp
  obtain bs where bs: "length bs = n - Suc i" "chain C (Suc (unat base + Suc i)) (wb_digest b) bs"
    "log_image C bs = seg (Suc i * 65536) (n * 65536) content" "digest = chain_digest (wb_digest b) bs"
    "records' = (records @ wb_records b) @ log_records bs" "blocks' = (blocks @ [receipt_of b]) @ map receipt_of bs"
    using Suc.hyps(1) [OF m rest _ Suc.prems(3,4)] less by auto
  have "block_image C b = seg (i * 65536) (Suc i * 65536) content"
    using read_exact_at_sound [OF enc] b by (simp add: wal_block_decode_iff add.commute)
  with bs s b less show ?case
    using seg_split [of "i * 65536" "Suc i * 65536" "n * 65536" content]
    by (intro exI [of _ "b # bs"]) (simp add: wal_block_decode_iff)
qed

lemma open_blocks_complete:
  assumes "chain C (Suc (unat base + i)) previous bs" "\<forall>i k. io i k \<noteq> None"
    and "length content \<ge> n * 65536" "n = i + length bs" "n < 2 ^ 64"
    and "log_image C bs = seg (i * 65536) (n * 65536) content"
  shows "open_blocks C io content base [i..<n] previous records blocks
    = Inr (chain_digest previous bs, records @ log_records bs, blocks @ map receipt_of bs)"
  using assms(1,3-)
proof (induction bs arbitrary: i previous records blocks)
  case (Cons b bs)
  have less: "i < n" using Cons.prems by simp
  have s: "unat (wb_sequence b) = unat base + i + 1" and wf: "wf_block C b" "wb_previous_digest b = previous"
    using Cons.prems(1) by simp_all
  have split: "seg (i * 65536) (n * 65536) content
      = seg (i * 65536) (Suc i * 65536) content @ seg (Suc i * 65536) (n * 65536) content"
    using less by (intro seg_split) simp_all
  have len: "length (seg (i * 65536) (Suc i * 65536) content) = 65536"
    using less Cons.prems(2) by simp
  have image: "block_image C b = seg (i * 65536) (Suc i * 65536) content"
    "log_image C bs = seg (Suc i * 65536) (n * 65536) content"
    using Cons.prems(5) wf(1) len unfolding split by (simp_all add: append_eq_append_conv)
  have "read_exact_at Io (io i) content 65536 (i * 65536) = Inr (block_image C b)"
    using assms(2) less Cons.prems(2) unfolding image
    by (subst read_exact_at_complete) (auto simp: add.commute)
  moreover have "wal_block_decode C (wb_sequence b) previous (block_image C b) = Inr b"
    using wf by (simp add: wal_block_decode_iff)
  moreover have "open_blocks C io content base [Suc i..<n] (wb_digest b) (records @ wb_records b)
      (blocks @ [receipt_of b])
    = Inr (chain_digest (wb_digest b) bs, (records @ wb_records b) @ log_records bs,
        (blocks @ [receipt_of b]) @ map receipt_of bs)"
    using Cons.prems image(2) by (intro Cons.IH) simp_all
  ultimately show ?case
    using less s wf_block_records [OF wf(1)] open_blocks_sequence [of i base "wb_sequence b"] Cons.prems(4)
    by (simp add: upt_conv_Cons WAL_BLOCK_SIZE_def)
qed simp

text \<open>The writer and the report that opening a chain gives.\<close>

definition opened_wal :: "crypto \<Rightarrow> u64 \<Rightarrow> digest \<Rightarrow> wal_block list \<Rightarrow> wal_file" where
  "opened_wal C base base_digest bs =
     \<lparr>wf_content = log_image C bs, wf_synced = length (log_image C bs),
      wf_next_sequence = base + word_of_nat (length bs) + 1,
      wf_previous_digest = chain_digest base_digest bs, wf_poisoned = False\<rparr>"

definition recovery_of :: "u64 \<Rightarrow> digest \<Rightarrow> wal_block list \<Rightarrow> nat \<Rightarrow> wal_recovery" where
  "recovery_of base base_digest bs tail_bytes =
     \<lparr>rec_base_sequence = base, rec_base_digest = base_digest, rec_records = log_records bs,
      rec_blocks = map receipt_of bs, rec_truncated_tail_bytes = tail_bytes,
      rec_last_sequence = base + word_of_nat (length bs),
      rec_last_digest = chain_digest base_digest bs\<rparr>"

lemma wf_block_sequence_bound: "wf_block C b \<Longrightarrow> unat (wb_sequence b) \<le> MAX_SEQUENCE"
proof -
  assume "wf_block C b"
  then obtain offset where "block_offset (wb_sequence b) = Inr offset"
    by (auto simp: wf_block_def split: sum.splits)
  then have "(unat (wb_sequence b) - 1) * 65536 < 2 ^ 64"
    using unat_u64_less [of offset] by (simp add: block_offset_Inr)
  then show ?thesis by (simp add: MAX_SEQUENCE_def)
qed

lemma chain_bound:
  assumes "chain C (Suc s) p bs" "s \<le> MAX_SEQUENCE"
  shows "s + length bs \<le> MAX_SEQUENCE"
proof (cases bs rule: rev_cases)
  case (snoc cs b)
  then have "unat (wb_sequence b) = Suc s + length cs" "wf_block C b" using assms by simp_all
  with snoc show ?thesis using wf_block_sequence_bound [of C b] by simp
qed (use assms in simp)

lemma open_after_sound:
  assumes "open_after C io open_ok len_ok set_len_ok sync_ok seek_ok content base base_digest = (Inr (w, r), content')"
    and "length content < 2 ^ 64"
  shows "\<exists>bs. length bs = length content div 65536 \<and> chain C (Suc (unat base)) base_digest bs
    \<and> log_image C bs = take (length content div 65536 * 65536) content \<and> content' = log_image C bs
    \<and> w = opened_wal C base base_digest bs \<and> r = recovery_of base base_digest bs (length content mod 65536)"
proof -
  let ?n = "length content div 65536"
  obtain digest records blocks where
    loop: "open_blocks C io content base [0..<?n] base_digest [] [] = Inr (digest, records, blocks)"
    using assms(1) by (auto simp: open_after_def Let_def WAL_BLOCK_SIZE_def split: if_splits sum.splits)
  obtain bs where bs: "length bs = ?n" "chain C (Suc (unat base)) base_digest bs"
    "log_image C bs = take (?n * 65536) content" "digest = chain_digest base_digest bs"
    "records = log_records bs" "blocks = map receipt_of bs"
    using open_blocks_sound [OF loop _ _ le_less_trans [OF div_le_dividend assms(2)]]
    by (auto simp: seg_def)
  have "content' = take (?n * 65536) content"
    "w = opened_wal C base base_digest bs" "r = recovery_of base base_digest bs (length content mod 65536)"
    using assms(1) loop bs
    by (auto simp: open_after_def Let_def WAL_BLOCK_SIZE_def result_simps checked_add_def opened_wal_def
        recovery_of_def split: if_splits)
  with bs show ?thesis by auto
qed

lemma open_after_blocks:
  assumes cs: "chain C (Suc (unat base)) base_digest cs" and base: "unat base \<le> MAX_SEQUENCE"
      "(base = 0) = (base_digest = 0)"
    and io: "\<forall>i k. io i k \<noteq> None" "open_ok" "len_ok" "set_len_ok" "sync_ok" "seek_ok"
    and image: "log_image C cs = take (length content div 65536 * 65536) content"
  shows "open_after C io open_ok len_ok set_len_ok sync_ok seek_ok content base base_digest
    = (Inr (opened_wal C base base_digest cs, recovery_of base base_digest cs (length content mod 65536)),
       log_image C cs)"
proof -
  let ?n = "length content div 65536"
  have len: "length cs = ?n" using arg_cong [OF image, of length] length_log_image [OF cs] by simp
  have bound: "unat base + ?n \<le> MAX_SEQUENCE" using chain_bound [OF cs base(1)] len by simp
  have "open_blocks C io content base [0..<?n] base_digest [] []
      = Inr (chain_digest base_digest cs, [] @ log_records cs, [] @ map receipt_of cs)"
    using cs io(1) len image bound
    by (intro open_blocks_complete) (auto simp: seg_def MAX_SEQUENCE_def)
  moreover have "unat (word_of_nat ?n :: u64) = ?n" using bound by (intro unat_word_of_nat) (simp add: MAX_SEQUENCE_def)
  moreover from this have "checked_add base (word_of_nat ?n) = Some (base + word_of_nat ?n)"
    "checked_add (base + word_of_nat ?n) 1 = Some (base + word_of_nat ?n + 1)"
    using bound by (simp_all add: checked_add_def unat_word_ariths MAX_SEQUENCE_def)
  ultimately show ?thesis
    using base(2) io len image
    by (simp add: open_after_def Let_def WAL_BLOCK_SIZE_def opened_wal_def recovery_of_def)
qed

lemma open_after_complete:
  assumes bs: "chain C (Suc (unat base)) base_digest bs" and base: "unat base \<le> MAX_SEQUENCE"
      "(base = 0) = (base_digest = 0)"
    and io: "\<forall>i k. io i k \<noteq> None" "open_ok" "len_ok" "set_len_ok" "sync_ok" "seek_ok"
    and n: "n \<le> length bs * 65536"
  shows "open_after C io open_ok len_ok set_len_ok sync_ok seek_ok (take n (log_image C bs)) base base_digest
    = (let cs = take (n div 65536) bs in
       (Inr (opened_wal C base base_digest cs, recovery_of base base_digest cs (n mod 65536)), log_image C cs))"
proof -
  have len: "length (take n (log_image C bs)) = n" using length_log_image [OF bs] n by simp
  have "log_image C (take (n div 65536) bs) = take (n div 65536 * 65536) (take n (log_image C bs))"
    using take_log_image [OF bs, of "n div 65536"] n by (simp add: min_absorb1)
  with open_after_blocks [OF chain_take [OF bs] base io, of "n div 65536" "take n (log_image C bs)"]
  show ?thesis unfolding len by (simp add: Let_def)
qed

section \<open>Packing\<close>

abbreviation fits :: "pending_record list \<Rightarrow> bool" where
  "fits rs \<equiv> rs \<noteq> [] \<and> group_length rs \<le> 65424"

text \<open>No group could have taken the first record of the next one.\<close>

fun tight :: "pending_record list list \<Rightarrow> bool" where
  "tight (g # h # gs) = (group_length g + encoded_length (hd h) > 65424 \<and> tight (h # gs))"
| "tight gs = True"

lemma tight_snoc: "tight (gs @ [g]) \<Longrightarrow> group_length g + encoded_length (hd h) > 65424 \<Longrightarrow> tight (gs @ [g, h])"
  by (induction gs rule: tight.induct) auto

lemma tight_change_last: "tight (gs @ [g]) \<Longrightarrow> hd g = hd h \<Longrightarrow> tight (gs @ [h])"
  by (induction gs rule: tight.induct) auto

lemma WAL_BLOCK_PAYLOAD_SIZE_value [simp]: "WAL_BLOCK_PAYLOAD_SIZE = 65424"
  by (simp add: WAL_BLOCK_PAYLOAD_SIZE_def WAL_BLOCK_SIZE_def WAL_BLOCK_HEADER_SIZE_def)

definition packed :: "pending_record list \<Rightarrow> pending_record list list \<Rightarrow> bool" where
  "packed records groups = (concat groups = records \<and> list_all fits groups \<and> tight groups)"

lemma pack_records_correct:
  assumes "\<forall>r\<in>set records. encoded_length r \<le> 65424" "current \<noteq> []" "n = group_length current"
    "n \<le> 65424" "list_all fits groups" "tight (groups @ [current])"
  shows "packed (concat groups @ current @ records) (pack_records records groups current n)"
  using assms
proof (induction records groups current n rule: pack_records.induct)
  case (1 groups current n)
  then show ?case by (simp add: packed_def)
next
  case (2 r records groups current n)
  show ?case
  proof (cases "n + encoded_length r > 65424")
    case True
    then have "tight ((groups @ [current]) @ [[r]])"
      using tight_snoc [OF "2.prems"(6), of "[r]"] "2.prems"(3) by simp
    moreover have "list_all fits (groups @ [current])" using "2.prems" by simp
    ultimately have "packed (concat (groups @ [current]) @ [r] @ records)
        (pack_records records (groups @ [current]) [r] (encoded_length r))"
      by (intro "2.IH"(1) [OF refl]) (use "2.prems"(1) True in simp_all)
    then show ?thesis using True by simp
  next
    case False
    have "tight (groups @ [current @ [r]])"
      using "2.prems"(2) by (intro tight_change_last [OF "2.prems"(6)]) simp
    then have "packed (concat groups @ (current @ [r]) @ records)
        (pack_records records groups (current @ [r]) (n + encoded_length r))"
      by (intro "2.IH"(2) [OF refl]) (use "2.prems" False in simp_all)
    then show ?thesis using False by simp
  qed
qed

lemma pack_records_packed:
  assumes "\<forall>r\<in>set records. encoded_length r \<le> 65424" "records \<noteq> []"
  shows "packed records (pack_records records [] [] 0)"
proof -
  obtain r rs where rs: "records = r # rs" using assms(2) by (cases records) auto
  with assms(1) show ?thesis
    using pack_records_correct [of rs "[r]" "encoded_length r" "[]"] by simp
qed

lemma tight_length: "list_all fits gs \<Longrightarrow> tight gs \<Longrightarrow> length gs div 2 * 65425 \<le> sum_list (map group_length gs)"
proof (induction gs rule: induct_list012)
  case (3 g h gs)
  have "tight gs" using 3(4) by (cases gs) auto
  then have "length gs div 2 * 65425 \<le> sum_list (map group_length gs)" using 3(1,3) by simp
  moreover have "encoded_length (hd h) \<le> group_length h" using 3(3) by (cases h) auto
  then have "65425 \<le> group_length g + group_length h" using 3(4) by simp
  ultimately show ?case by simp
qed simp_all

lemma packed_length:
  assumes "packed records groups"
  shows "length groups \<le> 2 * (group_length records div 65425) + 1"
proof -
  have "sum_list (map group_length groups) = group_length (concat groups)"
    by (induction groups) auto
  then have "length groups div 2 * 65425 \<le> group_length records"
    using tight_length [of groups] assms by (simp add: packed_def)
  then have "length groups div 2 \<le> group_length records div 65425"
    by (simp add: less_eq_div_iff_mult_less_eq)
  then show ?thesis by linarith
qed

section \<open>Appending\<close>

text \<open>The file holds exactly the images of a chain, and the writer is positioned after it.\<close>

definition wal_log :: "crypto \<Rightarrow> u64 \<Rightarrow> digest \<Rightarrow> wal_file \<Rightarrow> wal_block list \<Rightarrow> bool" where
  "wal_log C base base_digest w bs =
     (chain C (Suc (unat base)) base_digest bs \<and> wf_content w = log_image C bs
      \<and> unat (wf_next_sequence w) = Suc (unat base + length bs)
      \<and> wf_previous_digest w = chain_digest base_digest bs)"

text \<open>The file holds a possibly torn extension of a chain.\<close>

definition wal_torn :: "crypto \<Rightarrow> u64 \<Rightarrow> digest \<Rightarrow> wal_file \<Rightarrow> wal_block list \<Rightarrow> bool" where
  "wal_torn C base base_digest w bs =
     (\<exists>cs n. chain C (Suc (unat base)) base_digest (bs @ cs) \<and> length bs * 65536 \<le> n
       \<and> n \<le> length (bs @ cs) * 65536 \<and> wf_content w = take n (log_image C (bs @ cs)))"

lemma wal_log_torn: "wal_log C base base_digest w bs \<Longrightarrow> wal_torn C base base_digest w bs"
  unfolding wal_log_def wal_torn_def
  by (intro exI [of _ "[]"] exI [of _ "length bs * 65536"]) (auto dest: length_log_image)

lemma wal_torn_weaken:
  assumes "wal_torn C base base_digest w (bs @ cs)"
  shows "wal_torn C base base_digest w bs"
proof -
  obtain ds n where "chain C (Suc (unat base)) base_digest ((bs @ cs) @ ds)" "length (bs @ cs) * 65536 \<le> n"
    "n \<le> length ((bs @ cs) @ ds) * 65536" "wf_content w = take n (log_image C ((bs @ cs) @ ds))"
    using assms unfolding wal_torn_def by blast
  then show ?thesis unfolding wal_torn_def by (intro exI [of _ "cs @ ds"] exI [of _ n]) simp
qed

text \<open>A block built at the writer's position extends the chain.\<close>

lemma build_extends:
  assumes "wal_log C base base_digest w bs"
    and "build_encoded C (wf_next_sequence w) (wf_previous_digest w) g = Inr (b, e)"
  shows "chain C (Suc (unat base)) base_digest (bs @ [b]) \<and> e = block_image C b \<and> wb_records b \<noteq> []
    \<and> map pending_of (wb_records b) = g"
  using build_encoded_correct [OF assms(2)] assms(1) wf_block_image [of C b] wf_block_records [of C b]
  by (auto simp: wal_log_def)

text \<open>The state after one block has been written.\<close>

definition after_block :: "wal_file \<Rightarrow> wal_block \<Rightarrow> bytes \<Rightarrow> u64 \<Rightarrow> wal_file" where
  "after_block w b e s = w\<lparr>wf_content := wf_content w @ e, wf_previous_digest := wb_digest b,
     wf_next_sequence := s\<rparr>"

lemma after_block_log:
  assumes "wal_log C base base_digest w bs"
    and "build_encoded C (wf_next_sequence w) (wf_previous_digest w) g = Inr (b, e)"
    and "checked_add (wf_next_sequence w) 1 = Some s"
  shows "wal_log C base base_digest (after_block w b e s) (bs @ [b])"
  using build_extends [OF assms(1,2)] assms(1,3) by (simp add: wal_log_def after_block_def checked_add_Some)

lemma append_groups_success:
  assumes "append_groups C faults w gs receipts = (Inr out, w')" "wal_log C base base_digest w bs"
  shows "\<exists>cs. wal_log C base base_digest w' (bs @ cs) \<and> out = receipts @ map receipt_of cs
    \<and> map (\<lambda>b. map pending_of (wb_records b)) cs = gs \<and> wf_synced w' = wf_synced w
    \<and> wf_poisoned w' = wf_poisoned w"
  using assms
proof (induction gs arbitrary: faults w receipts bs)
  case Nil
  then show ?case by (auto intro!: exI [of _ "[]"])
next
  case (Cons g gs)
  from Cons.prems(1) obtain b e where be: "build_encoded C (wf_next_sequence w) (wf_previous_digest w) g = Inr (b, e)"
    by (auto split: sum.splits prod.splits)
  note b = build_extends [OF Cons.prems(2) be]
  from Cons.prems(1) be b obtain s where s: "checked_add (wf_next_sequence w) 1 = Some s"
    and rest: "append_groups C (tl faults) (after_block w b e s) gs (receipts @ [receipt_of b]) = (Inr out, w')"
    by (auto simp: Let_def after_block_def split: list.splits option.splits)
  from Cons.IH [OF rest after_block_log [OF Cons.prems(2) be s]] b show ?case
    by (auto simp: after_block_def intro: exI [of _ "b # _"])
qed

lemma append_groups_failure:
  assumes "append_groups C faults w gs receipts = (Inl err, w')" "wal_log C base base_digest w bs"
  shows "wal_torn C base base_digest w' bs \<and> wf_synced w' = wf_synced w \<and> wf_poisoned w' = wf_poisoned w
    \<and> length (wf_content w) \<le> length (wf_content w')"
  using assms
proof (induction gs arbitrary: faults w receipts bs)
  case (Cons g gs)
  show ?case
  proof (cases "build_encoded C (wf_next_sequence w) (wf_previous_digest w) g")
    case (Inl x)
    with Cons.prems show ?thesis using wal_log_torn by auto
  next
    case (Inr be)
    then obtain b e where be: "build_encoded C (wf_next_sequence w) (wf_previous_digest w) g = Inr (b, e)"
      by (cases be) auto
    note b = build_extends [OF Cons.prems(2) be]
    have torn: "wal_torn C base base_digest v bs" if "wf_content v = wf_content w @ take k e" for v k
      unfolding wal_torn_def
      by (rule exI [of _ "[b]"], rule exI [of _ "length bs * 65536 + min k 65536"])
        (use that b Cons.prems(2) length_log_image [of C _ _ bs] in \<open>auto simp: wal_log_def min_def\<close>)
    consider k where "w' = w\<lparr>wf_content := wf_content w @ take k e\<rparr>"
      | "w' = w\<lparr>wf_content := wf_content w @ e, wf_previous_digest := wb_digest b\<rparr>"
      | s where "checked_add (wf_next_sequence w) 1 = Some s"
          "append_groups C (tl faults) (after_block w b e s) gs (receipts @ [receipt_of b]) = (Inl err, w')"
      using Cons.prems(1) be b
      by (auto simp: Let_def after_block_def split: list.splits option.splits)
    then show ?thesis
    proof cases
      case 1
      then show ?thesis using torn [of w' k] by simp
    next
      case 2
      then show ?thesis using torn [of w' "length e"] by simp
    next
      case 3
      from Cons.IH [OF 3(2) after_block_log [OF Cons.prems(2) be 3(1)]] show ?thesis
        using wal_torn_weaken [of C base base_digest w' bs "[b]"] by (simp add: after_block_def)
    qed
  qed
qed simp

lemma append_groups_poisoned:
  "append_groups C faults w gs receipts = (res, w') \<Longrightarrow> wf_poisoned w' = wf_poisoned w"
proof (induction gs arbitrary: faults w receipts)
  case (Cons g gs)
  then show ?case
    by (fastforce simp: Let_def split: sum.splits prod.splits list.splits option.splits if_splits)
qed simp

lemma append_groups_total:
  assumes "wal_log C base base_digest w bs" "list_all fits gs" "\<forall>f\<in>set faults. f = None"
    and "unat base + length bs + length gs \<le> MAX_SEQUENCE"
  shows "\<exists>out w'. append_groups C faults w gs receipts = (Inr out, w')"
  using assms
proof (induction gs arbitrary: faults w receipts bs)
  case (Cons g gs)
  have nxt: "unat (wf_next_sequence w) = Suc (unat base + length bs)" using Cons.prems(1) by (simp add: wal_log_def)
  then obtain b e where be: "build_encoded C (wf_next_sequence w) (wf_previous_digest w) g = Inr (b, e)"
    using build_encoded_total [of "wf_next_sequence w" g C "wf_previous_digest w"] Cons.prems(2,4)
    by (auto simp: word_unat_eq_iff)
  note b = build_extends [OF Cons.prems(1) be]
  obtain s where s: "checked_add (wf_next_sequence w) 1 = Some s"
    using nxt Cons.prems(4) by (simp add: checked_add_def MAX_SEQUENCE_def)
  have "\<exists>out w'. append_groups C (tl faults) (after_block w b e s) gs (receipts @ [receipt_of b]) = (Inr out, w')"
    using Cons.prems
    by (intro Cons.IH [OF after_block_log [OF Cons.prems(1) be s]]) (auto dest: list.set_sel(2) simp: tl_def split: list.splits)
  with be b s Cons.prems(3) show ?case
    by (auto simp: Let_def after_block_def split: list.splits)
qed simp

text \<open>The packing bound on the records of a request, which \<^verbatim>\<open>PendingRecord::new\<close> establishes.\<close>

abbreviation packable :: "pending_record list \<Rightarrow> bool" where
  "packable rs \<equiv> \<forall>r\<in>set rs. encoded_length r \<le> WAL_BLOCK_PAYLOAD_SIZE"

lemma pending_record_new_packable:
  "pending_record_new kind engine flags transaction_id body = Inr r \<Longrightarrow> packable [r]"
  by (auto simp: pending_record_new_def WAL_RECORD_BODY_SIZE_def encoded_length_def
      WAL_RECORD_HEADER_SIZE_def split: if_splits)

abbreviation log_pending :: "wal_block list \<Rightarrow> pending_record list" where
  "log_pending bs \<equiv> map pending_of (log_records bs)"

lemma append_records_success:
  assumes "append_records C faults sync_ok w rs synchronize = (Inr receipts, w')"
    and "wal_log C base base_digest w bs" "packable rs"
  shows "\<exists>cs. wal_log C base base_digest w' (bs @ cs) \<and> receipts = map receipt_of cs \<and> log_pending cs = rs
    \<and> \<not> wf_poisoned w' \<and> wf_synced w' = (if synchronize then length (wf_content w') else wf_synced w)"
proof -
  from assms(1) obtain v where rs: "rs \<noteq> []"
    and app: "append_groups C faults (w\<lparr>wf_poisoned := True\<rparr>) (pack_records rs [] [] 0) [] = (Inr receipts, v)"
    and w': "w' = (if synchronize then v\<lparr>wf_synced := length (wf_content v)\<rparr> else v)\<lparr>wf_poisoned := False\<rparr>"
    by (auto simp: append_records_def Let_def split: if_splits prod.splits sum.splits)
  have "wal_log C base base_digest (w\<lparr>wf_poisoned := True\<rparr>) bs" using assms(2) by (simp add: wal_log_def)
  from append_groups_success [OF app this] obtain cs where cs: "wal_log C base base_digest v (bs @ cs)"
    "receipts = map receipt_of cs" "map (\<lambda>b. map pending_of (wb_records b)) cs = pack_records rs [] [] 0"
    "wf_synced v = wf_synced w" by auto
  have "log_pending cs = concat (map (\<lambda>b. map pending_of (wb_records b)) cs)"
    by (simp add: map_concat comp_def)
  then have "log_pending cs = rs"
    using cs(3) pack_records_packed [of rs] assms(3) rs by (simp add: packed_def)
  then show ?thesis using cs w' by (auto simp: wal_log_def)
qed

lemma append_records_failure:
  assumes "append_records C faults sync_ok w rs synchronize = (Inl err, w')"
    and "wal_log C base base_digest w bs"
  shows "wal_torn C base base_digest w' bs \<and> wf_synced w' = wf_synced w
    \<and> (w' = w \<or> wf_poisoned w') \<and> length (wf_content w) \<le> length (wf_content w')"
proof -
  have log: "wal_log C base base_digest (w\<lparr>wf_poisoned := True\<rparr>) bs" using assms(2) by (simp add: wal_log_def)
  consider "w' = w"
    | "append_groups C faults (w\<lparr>wf_poisoned := True\<rparr>) (pack_records rs [] [] 0) [] = (Inl err, w')"
    | receipts where "append_groups C faults (w\<lparr>wf_poisoned := True\<rparr>) (pack_records rs [] [] 0) [] = (Inr receipts, w')"
    using assms(1) by (auto simp: append_records_def Let_def split: if_splits prod.splits sum.splits)
  then show ?thesis
  proof cases
    case 1
    then show ?thesis using wal_log_torn [OF assms(2)] by simp
  next
    case 2
    from append_groups_failure [OF this log] show ?thesis by simp
  next
    case 3
    from append_groups_success [OF this log] obtain cs where
      "wal_log C base base_digest w' (bs @ cs)" "wf_synced w' = wf_synced w" "wf_poisoned w'" by auto
    then show ?thesis
      using wal_torn_weaken [OF wal_log_torn] assms(2) by (auto simp: wal_log_def)
  qed
qed

lemma append_records_total:
  assumes "wal_log C base base_digest w bs" "\<not> wf_poisoned w" "rs \<noteq> []" "packable rs"
    and "\<forall>f\<in>set faults. f = None" "sync_ok"
    and "unat base + length bs + 2 * (group_length rs div 65425) + 1 \<le> MAX_SEQUENCE"
  shows "\<exists>receipts w'. append_records C faults sync_ok w rs synchronize = (Inr receipts, w')"
proof -
  let ?gs = "pack_records rs [] [] 0"
  have packed: "packed rs ?gs" using assms(3,4) by (intro pack_records_packed) simp_all
  have "wal_log C base base_digest (w\<lparr>wf_poisoned := True\<rparr>) bs" using assms(1) by (simp add: wal_log_def)
  moreover have "unat base + length bs + length ?gs \<le> MAX_SEQUENCE" using packed_length [OF packed] assms(7) by simp
  moreover have "list_all fits ?gs" using packed by (simp add: packed_def)
  ultimately obtain out w' where "append_groups C faults (w\<lparr>wf_poisoned := True\<rparr>) ?gs [] = (Inr out, w')"
    using append_groups_total [where gs = ?gs] assms(5) by blast
  then show ?thesis using assms(2,3,6) by (simp add: append_records_def)
qed

end
