(* ===== verification/WalRecovery.thy ===== *)
theory WalRecovery
  imports WalLog "HOL-Library.Sublist"
begin

text \<open>
  Executions of the log: a writer that appends and synchronizes with any I/O outcome, and
  crashes after which only the synchronized prefix of the file is certain, the rest of the disk
  contents being arbitrary. A restart of the process without a crash keeps the contents, but makes
  nothing durable. Durable records survive every execution, opening after a torn write
  always succeeds, and opening accepts nothing but chains.
\<close>

section \<open>The execution model\<close>

record wal_system =
  ws_wal :: wal_file
  ws_acknowledged :: "pending_record list"
  ws_durable :: "pending_record list"

text \<open>What a crash may leave on disk: anything that agrees with the synchronized prefix.\<close>

definition survives :: "wal_file \<Rightarrow> bytes \<Rightarrow> bool" where
  "survives w disk = (take (wf_synced w) disk = take (wf_synced w) (wf_content w) \<and> length disk < 2 ^ 64)"

inductive wal_step :: "crypto \<Rightarrow> wal_system \<Rightarrow> wal_system \<Rightarrow> bool" for C where
  append_acknowledged:
    "packable rs \<Longrightarrow> append_records C faults sync_ok (ws_wal s) rs synchronize = (Inr receipts, w')
      \<Longrightarrow> wal_step C s \<lparr>ws_wal = w', ws_acknowledged = ws_acknowledged s @ rs,
            ws_durable = (if synchronize then ws_acknowledged s @ rs else ws_durable s)\<rparr>"
| append_failed:
    "append_records C faults sync_ok (ws_wal s) rs synchronize = (Inl e, w')
      \<Longrightarrow> wal_step C s (s\<lparr>ws_wal := w'\<rparr>)"
| synchronized:
    "wal_sync_data True (ws_wal s) = (Inr (), w')
      \<Longrightarrow> wal_step C s (s\<lparr>ws_wal := w', ws_durable := ws_acknowledged s\<rparr>)"
| synchronize_failed:
    "wal_sync_data sync_ok (ws_wal s) = (Inl e, w') \<Longrightarrow> wal_step C s (s\<lparr>ws_wal := w'\<rparr>)"
| reopened:
    "survives (ws_wal s) disk \<Longrightarrow> wal_open C io open_ok len_ok set_len_ok sync_ok seek_ok disk = (Inr (w', r), disk')
      \<Longrightarrow> wal_step C s \<lparr>ws_wal = w', ws_acknowledged = map pending_of (rec_records r),
            ws_durable = map pending_of (rec_records r)\<rparr>"
| restarted:
    "length (wf_content (ws_wal s)) < 2 ^ 64
      \<Longrightarrow> wal_open C io open_ok len_ok set_len_ok sync_ok seek_ok (wf_content (ws_wal s)) = (Inr (w', r), disk')
      \<Longrightarrow> wal_step C s \<lparr>ws_wal = w'\<lparr>wf_synced := min (wf_synced (ws_wal s)) (length disk')\<rparr>,
            ws_acknowledged = map pending_of (rec_records r), ws_durable = ws_durable s\<rparr>"
| reopen_failed:
    "survives (ws_wal s) disk \<Longrightarrow> wal_open C io open_ok len_ok set_len_ok sync_ok seek_ok disk = (Inl e, disk')
      \<Longrightarrow> wal_step C s \<lparr>ws_wal = (ws_wal s)\<lparr>wf_content := disk',
              wf_synced := min (wf_synced (ws_wal s)) (length disk'), wf_poisoned := True\<rparr>,
            ws_acknowledged = ws_durable s, ws_durable = ws_durable s\<rparr>"

inductive_cases wal_stepE: "wal_step C s t"

definition wal_initial :: wal_system where
  "wal_initial = \<lparr>ws_wal = wal_create, ws_acknowledged = [], ws_durable = []\<rparr>"

abbreviation wal_reachable :: "crypto \<Rightarrow> wal_system \<Rightarrow> bool" where
  "wal_reachable C \<equiv> (wal_step C)\<^sup>*\<^sup>* wal_initial"

section \<open>The invariant\<close>

definition durable_blocks :: "crypto \<Rightarrow> wal_file \<Rightarrow> wal_block list \<Rightarrow> bool" where
  "durable_blocks C w ds =
     (chain C 1 0 ds \<and> length ds * 65536 \<le> wf_synced w \<and> wf_synced w \<le> length (wf_content w)
      \<and> take (length ds * 65536) (wf_content w) = log_image C ds)"

definition wal_inv :: "crypto \<Rightarrow> wal_system \<Rightarrow> bool" where
  "wal_inv C s =
     (prefix (ws_durable s) (ws_acknowledged s)
      \<and> (\<exists>ds. durable_blocks C (ws_wal s) ds \<and> ws_durable s = log_pending ds)
      \<and> (\<not> wf_poisoned (ws_wal s)
          \<longrightarrow> (\<exists>bs. wal_log C 0 0 (ws_wal s) bs \<and> ws_acknowledged s = log_pending bs)))"

lemma durable_blocks_extend:
  assumes "durable_blocks C w ds" "take (length (wf_content w)) (wf_content w') = wf_content w"
    "wf_synced w' = wf_synced w"
  shows "durable_blocks C w' ds"
proof -
  have "take (length ds * 65536) (wf_content w') = take (length ds * 65536) (take (length (wf_content w)) (wf_content w'))"
    using assms(1) by (simp add: durable_blocks_def min_absorb1)
  moreover have "length (wf_content w) \<le> length (wf_content w')"
    using arg_cong [OF assms(2), of length] by simp
  ultimately show ?thesis using assms by (simp add: durable_blocks_def)
qed

lemma wal_log_all_durable:
  "wal_log C 0 0 w bs \<Longrightarrow> wf_synced w = length (wf_content w) \<Longrightarrow> durable_blocks C w bs"
  by (auto simp: durable_blocks_def wal_log_def length_log_image)

lemma durable_blocks_survive:
  assumes "durable_blocks C w ds" "survives w disk"
  shows "take (length ds * 65536) disk = log_image C ds \<and> length ds * 65536 \<le> length disk"
proof -
  have n: "length ds * 65536 \<le> wf_synced w" "wf_synced w \<le> length (wf_content w)"
    using assms(1) by (simp_all add: durable_blocks_def)
  have eq: "take (wf_synced w) disk = take (wf_synced w) (wf_content w)" using assms(2) by (simp add: survives_def)
  from arg_cong [OF eq, of length] n have "wf_synced w \<le> length disk" by simp
  moreover from arg_cong [OF eq, of "take (length ds * 65536)"] n
  have "take (length ds * 65536) disk = take (length ds * 65536) (wf_content w)" by (simp add: min_absorb1)
  ultimately show ?thesis using assms(1) n by (simp add: durable_blocks_def)
qed

text \<open>Two chains whose images agree on the blocks of the first: the first is a prefix.\<close>

lemma chain_prefix:
  assumes "chain C s p ds" "chain C s p bs" "length ds \<le> length bs"
    "take (length ds * 65536) (log_image C bs) = log_image C ds"
  shows "prefix ds bs"
proof -
  have "log_image C (take (length ds) bs) = log_image C ds"
    using take_log_image [OF assms(2,3)] assms(4) by simp
  then have "take (length ds) bs = ds"
    using log_image_inj [OF chain_take [OF assms(2)] assms(1)] by blast
  then show ?thesis by (metis take_is_prefix)
qed

lemma log_pending_mono: "prefix ds bs \<Longrightarrow> prefix (log_pending ds) (log_pending bs)"
  by (auto simp: prefix_def)

lemma reopened_keeps_durable:
  assumes "durable_blocks C w ds" "survives w disk"
    and "wal_open C io open_ok len_ok set_len_ok sync_ok seek_ok disk = (Inr (w', r), disk')"
  shows "\<exists>bs. wal_log C 0 0 w' bs \<and> rec_records r = log_records bs \<and> prefix ds bs
    \<and> wf_synced w' = length (wf_content w') \<and> wf_content w' = disk' \<and> \<not> wf_poisoned w'"
proof -
  have small: "length disk < 2 ^ 64" using assms(2) by (simp add: survives_def)
  obtain bs where bs: "length bs = length disk div 65536" "chain C 1 0 bs"
    "log_image C bs = take (length disk div 65536 * 65536) disk" "disk' = log_image C bs"
    "w' = opened_wal C 0 0 bs" "r = recovery_of 0 0 bs (length disk mod 65536)"
    using open_after_sound [OF assms(3) [unfolded wal_open_def] small] by auto
  note ds = durable_blocks_survive [OF assms(1,2)]
  have "length ds \<le> length bs" using ds bs(1) by (simp add: less_eq_div_iff_mult_less_eq)
  moreover have "take (length ds * 65536) (log_image C bs) = log_image C ds"
    using ds bs(1,3) \<open>length ds \<le> length bs\<close> by (simp add: min_absorb1)
  ultimately have "prefix ds bs"
    using assms(1) bs(2) by (intro chain_prefix [where s = 1 and p = 0]) (simp_all add: durable_blocks_def)
  moreover have "Suc (length bs) < 2 ^ 64"
    using chain_bound [of C 0 0 bs] bs(2) by (simp add: MAX_SEQUENCE_def)
  then have "unat (word_of_nat (length bs) + 1 :: u64) = Suc (length bs)"
    by (simp add: unat_word_ariths unat_word_of_nat)
  ultimately show ?thesis
    using bs by (intro exI [of _ bs]) (simp add: wal_log_def opened_wal_def recovery_of_def)
qed

lemma open_failed_keeps:
  assumes "durable_blocks C w ds" "survives w disk"
    and "wal_open C io open_ok len_ok set_len_ok sync_ok seek_ok disk = (Inl e, disk')"
  shows "durable_blocks C (w\<lparr>wf_content := disk', wf_synced := min (wf_synced w) (length disk'), wf_poisoned := True\<rparr>) ds"
proof -
  note ds = durable_blocks_survive [OF assms(1,2)]
  have "disk' = disk \<or> disk' = take (length disk div 65536 * 65536) disk"
    using assms(3)
    by (auto simp: wal_open_def open_after_def Let_def WAL_BLOCK_SIZE_def split: if_splits sum.splits)
  moreover have "length ds * 65536 \<le> length disk div 65536 * 65536"
    using ds by (simp add: less_eq_div_iff_mult_less_eq)
  ultimately show ?thesis
    using ds assms(1) by (auto simp: durable_blocks_def min_absorb1)
qed

lemma wal_inv_initial: "wal_inv C wal_initial"
  by (auto simp: wal_inv_def wal_initial_def wal_create_def durable_blocks_def wal_log_def
      intro!: exI [of _ "[]"])

lemma append_failed_inv:
  assumes "wal_inv C s" "append_records C faults sync_ok (ws_wal s) rs synchronize = (Inl e, w')"
  shows "wal_inv C (s\<lparr>ws_wal := w'\<rparr>)"
proof (cases "wf_poisoned (ws_wal s)")
  case True
  with assms(2) have "w' = ws_wal s" by (simp add: append_records_def)
  with assms(1) show ?thesis by (simp add: wal_inv_def)
next
  case False
  then obtain bs ds where bs: "wal_log C 0 0 (ws_wal s) bs" "ws_acknowledged s = log_pending bs"
    and ds: "durable_blocks C (ws_wal s) ds" "ws_durable s = log_pending ds"
    and pre: "prefix (ws_durable s) (ws_acknowledged s)"
    using assms(1) by (auto simp: wal_inv_def)
  note fail = append_records_failure [OF assms(2) bs(1)]
  then obtain cs n where "wf_content w' = take n (log_image C (bs @ cs))" "length bs * 65536 \<le> n"
    by (auto simp: wal_torn_def)
  then have "take (length (wf_content (ws_wal s))) (wf_content w') = wf_content (ws_wal s)"
    using bs(1) length_log_image [of C 1 0 bs] by (auto simp: wal_log_def min_absorb1)
  then have "durable_blocks C w' ds" by (rule durable_blocks_extend [OF ds(1)]) (use fail in simp)
  moreover have "wal_log C 0 0 w' bs" if "\<not> wf_poisoned w'" using fail bs(1) that by auto
  ultimately show ?thesis unfolding wal_inv_def using bs(2) ds(2) pre by auto
qed

lemma append_acknowledged_inv:
  assumes "wal_inv C s" "packable rs"
    and "append_records C faults sync_ok (ws_wal s) rs synchronize = (Inr receipts, w')"
  shows "wal_inv C \<lparr>ws_wal = w', ws_acknowledged = ws_acknowledged s @ rs,
    ws_durable = (if synchronize then ws_acknowledged s @ rs else ws_durable s)\<rparr>"
proof -
  have "\<not> wf_poisoned (ws_wal s)" using assms(3) by (auto simp: append_records_def split: if_splits)
  then obtain bs ds where bs: "wal_log C 0 0 (ws_wal s) bs" "ws_acknowledged s = log_pending bs"
    and ds: "durable_blocks C (ws_wal s) ds" "ws_durable s = log_pending ds"
    and pre: "prefix (ws_durable s) (ws_acknowledged s)"
    using assms(1) by (auto simp: wal_inv_def)
  obtain cs where cs: "wal_log C 0 0 w' (bs @ cs)" "log_pending cs = rs"
    "wf_synced w' = (if synchronize then length (wf_content w') else wf_synced (ws_wal s))"
    using append_records_success [OF assms(3) bs(1) assms(2)] by auto
  have all: "log_pending (bs @ cs) = ws_acknowledged s @ rs" using bs(2) cs(2) by simp
  show ?thesis
  proof (cases synchronize)
    case True
    then have "durable_blocks C w' (bs @ cs)" using cs by (intro wal_log_all_durable) simp_all
    with True cs(1) all show ?thesis by (auto simp: wal_inv_def)
  next
    case False
    then have "durable_blocks C w' ds"
      using bs(1) cs by (intro durable_blocks_extend [OF ds(1)]) (simp_all add: wal_log_def)
    with False cs(1) all ds pre show ?thesis by (auto simp: wal_inv_def)
  qed
qed

lemma wal_step_inv: "wal_step C s t \<Longrightarrow> wal_inv C s \<Longrightarrow> wal_inv C t"
proof (induction rule: wal_step.induct)
  case (append_acknowledged rs faults sync_ok s synchronize receipts w')
  then show ?case by (intro append_acknowledged_inv)
next
  case (append_failed faults sync_ok s rs synchronize e w')
  then show ?case by (intro append_failed_inv)
next
  case (synchronized s w')
  then have w': "w' = (ws_wal s)\<lparr>wf_synced := length (wf_content (ws_wal s))\<rparr>" "\<not> wf_poisoned (ws_wal s)"
    by (auto simp: wal_sync_data_def split: if_splits)
  with synchronized.prems obtain bs where bs: "wal_log C 0 0 (ws_wal s) bs" "ws_acknowledged s = log_pending bs"
    by (auto simp: wal_inv_def)
  then have log: "wal_log C 0 0 w' bs" using w' by (simp add: wal_log_def)
  then have "durable_blocks C w' bs" using w' by (intro wal_log_all_durable) simp_all
  with bs log show ?case by (auto simp: wal_inv_def)
next
  case (synchronize_failed sync_ok s e w')
  then have "w' = ws_wal s \<or> w' = (ws_wal s)\<lparr>wf_poisoned := True\<rparr>"
    by (auto simp: wal_sync_data_def split: if_splits)
  with synchronize_failed.prems show ?case by (auto simp: wal_inv_def durable_blocks_def)
next
  case (reopened s disk io open_ok len_ok set_len_ok sync_ok seek_ok w' r disk')
  then obtain ds where "durable_blocks C (ws_wal s) ds" by (auto simp: wal_inv_def)
  from reopened_keeps_durable [OF this reopened(1,2)] obtain bs where bs: "wal_log C 0 0 w' bs"
    "rec_records r = log_records bs" "wf_synced w' = length (wf_content w')" by auto
  with wal_log_all_durable [OF bs(1,3)] show ?case by (auto simp: wal_inv_def)
next
  case (restarted s io open_ok len_ok set_len_ok sync_ok seek_ok w' r disk')
  then obtain ds where ds: "durable_blocks C (ws_wal s) ds" "ws_durable s = log_pending ds"
    by (auto simp: wal_inv_def)
  have "survives (ws_wal s) (wf_content (ws_wal s))" using restarted(1) by (simp add: survives_def)
  from reopened_keeps_durable [OF ds(1) this restarted(2)] obtain bs where bs: "wal_log C 0 0 w' bs"
    "rec_records r = log_records bs" "prefix ds bs" "wf_content w' = disk'" by auto
  have "take (length ds * 65536) disk' = log_image C ds \<and> length ds * 65536 \<le> length disk'"
    using bs(1,3,4) take_log_image [of C 1 0 bs "length ds"] length_log_image [of C 1 0 bs]
    by (auto simp: wal_log_def prefix_def)
  with ds(1) bs(4) have "durable_blocks C (w'\<lparr>wf_synced := min (wf_synced (ws_wal s)) (length disk')\<rparr>) ds"
    by (simp add: durable_blocks_def)
  with ds bs log_pending_mono [OF bs(3)] show ?case by (auto simp: wal_inv_def wal_log_def)
next
  case (reopen_failed s disk io open_ok len_ok set_len_ok sync_ok seek_ok e disk')
  then obtain ds where ds: "durable_blocks C (ws_wal s) ds" "ws_durable s = log_pending ds"
    by (auto simp: wal_inv_def)
  with open_failed_keeps [OF ds(1) reopen_failed(1,2)] show ?case by (auto simp: wal_inv_def)
qed

lemma wal_reachable_inv: "wal_reachable C s \<Longrightarrow> wal_inv C s"
  by (induction rule: rtranclp_induct) (auto intro: wal_inv_initial wal_step_inv)

section \<open>Recovered addresses\<close>

lemma chain_lsns:
  assumes "chain C (Suc s) p bs"
  shows "sorted_wrt (\<lambda>r q. wr_lsn r < wr_lsn q) (log_records bs)
    \<and> (\<forall>r\<in>set (log_records bs). s * 65536 < unat (get (wr_lsn r))
        \<and> unat (get (wr_lsn r)) < (s + length bs) * 65536)"
  using assms
proof (induction bs arbitrary: s p)
  case (Cons b bs)
  have b: "wf_block C b" "unat (wb_sequence b) = Suc s" using Cons.prems by simp_all
  have rest: "sorted_wrt (\<lambda>r q. wr_lsn r < wr_lsn q) (log_records bs)"
    "\<And>r. r \<in> set (log_records bs) \<Longrightarrow> Suc s * 65536 < unat (get (wr_lsn r))
      \<and> unat (get (wr_lsn r)) < (Suc s + length bs) * 65536"
    using Cons.IH [of "Suc s" "wb_digest b"] Cons.prems by auto
  have here: "sorted_wrt (\<lambda>r q. wr_lsn r < wr_lsn q) (wb_records b)"
    "\<And>r. r \<in> set (wb_records b) \<Longrightarrow> s * 65536 < unat (get (wr_lsn r)) \<and> unat (get (wr_lsn r)) < Suc s * 65536"
    using wf_block_lsns [OF b(1)] b(2) by auto
  have "wr_lsn r < wr_lsn q" if "r \<in> set (wb_records b)" "q \<in> set (log_records bs)" for r q
    using here(2) [OF that(1)] rest(2) [OF that(2)] by (simp add: less_nonzero_def word_less_nat_alt)
  then have "sorted_wrt (\<lambda>r q. wr_lsn r < wr_lsn q) (log_records (b # bs))"
    using here(1) rest(1) by (simp add: sorted_wrt_append)
  moreover have "s * 65536 < unat (get (wr_lsn r)) \<and> unat (get (wr_lsn r)) < (s + length (b # bs)) * 65536"
    if "r \<in> set (log_records (b # bs))" for r
    using that here(2) [of r] rest(2) [of r] by fastforce
  ultimately show ?case by blast
qed simp

lemma torn_opens:
  assumes "wal_torn C base base_digest w bs" "unat base \<le> MAX_SEQUENCE" "(base = 0) = (base_digest = 0)"
    and "\<forall>i k. io i k \<noteq> None" "length bs * 65536 \<le> n" "n \<le> length (wf_content w)"
  shows "\<exists>ds. chain C (Suc (unat base)) base_digest (bs @ ds)
    \<and> log_image C (bs @ ds) = take (n div 65536 * 65536) (wf_content w)
    \<and> open_after C io True True True True True (take n (wf_content w)) base base_digest
      = (Inr (opened_wal C base base_digest (bs @ ds), recovery_of base base_digest (bs @ ds) (n mod 65536)),
         log_image C (bs @ ds))"
proof -
  obtain cs m where cs: "chain C (Suc (unat base)) base_digest (bs @ cs)"
    "m \<le> length (bs @ cs) * 65536" "wf_content w = take m (log_image C (bs @ cs))"
    using assms(1) by (auto simp: wal_torn_def)
  have n: "n \<le> m" using assms(6) unfolding cs(3) length_take by linarith
  then have content: "take n (wf_content w) = take n (log_image C (bs @ cs))"
    unfolding cs(3) take_take by (simp only: min_absorb1)
  have "length bs \<le> n div 65536" using assms(5) by (simp add: less_eq_div_iff_mult_less_eq)
  then have "take (n div 65536) (bs @ cs) = bs @ take (n div 65536 - length bs) cs" by simp
  moreover have "open_after C io True True True True True (take n (log_image C (bs @ cs))) base base_digest
      = (let ds = take (n div 65536) (bs @ cs) in
         (Inr (opened_wal C base base_digest ds, recovery_of base base_digest ds (n mod 65536)), log_image C ds))"
    using cs n assms(2-4) by (intro open_after_complete) simp_all
  moreover have "log_image C (take (n div 65536) (bs @ cs)) = take (n div 65536 * 65536) (wf_content w)"
  proof -
    have "n div 65536 \<le> length (bs @ cs)" using n cs(2) by simp
    from take_log_image [OF cs(1) this]
    have "log_image C (take (n div 65536) (bs @ cs)) = take (n div 65536 * 65536) (take n (log_image C (bs @ cs)))"
      by (simp only: take_take min_absorb1 div_times_less_eq_dividend)
    then show ?thesis
      unfolding content [symmetric] by (simp only: take_take min_absorb1 div_times_less_eq_dividend)
  qed
  ultimately show ?thesis
    using content chain_take [OF cs(1), of "n div 65536"]
    by (intro exI [of _ "take (n div 65536 - length bs) cs"]) (simp add: Let_def)
qed

section \<open>Properties\<close>

text \<open>C1. Durability: after any execution, whatever a crash leaves beyond the synchronized prefix, if
  the log opens then the durable records are a prefix of the recovered ones, in order.
\<close>

theorem wal_durability:
  assumes "wal_reachable C s" "survives (ws_wal s) disk"
    and "wal_open C io open_ok len_ok set_len_ok sync_ok seek_ok disk = (Inr (w', r), disk')"
  shows "prefix (ws_durable s) (map pending_of (rec_records r))"
proof -
  obtain ds where ds: "durable_blocks C (ws_wal s) ds" "ws_durable s = log_pending ds"
    using wal_reachable_inv [OF assms(1)] by (auto simp: wal_inv_def)
  from reopened_keeps_durable [OF ds(1) assms(2,3)] obtain bs where "rec_records r = log_records bs" "prefix ds bs"
    by auto
  with ds(2) log_pending_mono show ?thesis by simp
qed

text \<open>C2. Recovery after a torn append: from an unpoisoned writer, whether an append succeeds or
  fails, the file cut anywhere in the newly written part opens; every record acknowledged before
  is recovered, followed by whole blocks of the request, and the whole request when the append
  succeeded and nothing was cut.
\<close>

theorem torn_append_recovers:
  assumes "wal_reachable C s" "\<not> wf_poisoned (ws_wal s)" "packable rs"
    and "append_records C faults sync_ok (ws_wal s) rs synchronize = (res, w')"
    and "length (wf_content (ws_wal s)) \<le> n" "n \<le> length (wf_content w')" "\<forall>i k. io i k \<noteq> None"
  shows "\<exists>w'' r disk'. wal_open C io True True True True True (take n (wf_content w')) = (Inr (w'', r), disk')
    \<and> prefix (ws_acknowledged s) (map pending_of (rec_records r)) \<and> rec_truncated_tail_bytes r = n mod 65536
    \<and> (\<not> isl res \<and> n = length (wf_content w') \<longrightarrow> map pending_of (rec_records r) = ws_acknowledged s @ rs)"
proof -
  obtain bs where bs: "wal_log C 0 0 (ws_wal s) bs" "ws_acknowledged s = log_pending bs"
    using wal_reachable_inv [OF assms(1)] assms(2) by (auto simp: wal_inv_def)
  have len: "length bs * 65536 \<le> n"
    using assms(5) bs(1) length_log_image [of C 1 0 bs] by (auto simp: wal_log_def)
  show ?thesis
  proof (cases res)
    case (Inl e)
    have "wal_torn C 0 0 w' bs" using append_records_failure [OF assms(4) [unfolded Inl] bs(1)] by blast
    from torn_opens [OF this _ _ assms(7) len assms(6)] Inl bs(2) show ?thesis
      by (auto simp: wal_open_def recovery_of_def)
  next
    case (Inr receipts)
    obtain cs where cs: "wal_log C 0 0 w' (bs @ cs)" "log_pending cs = rs"
      using append_records_success [OF assms(4) [unfolded Inr] bs(1) assms(3)] by blast
    have "wal_torn C 0 0 w' bs" using wal_torn_weaken [OF wal_log_torn [OF cs(1)]] .
    from torn_opens [OF this _ _ assms(7) len assms(6)] obtain ds where
      ds: "chain C 1 0 (bs @ ds)" "log_image C (bs @ ds) = take (n div 65536 * 65536) (wf_content w')" and
      opens: "wal_open C io True True True True True (take n (wf_content w')) = (Inr (opened_wal C 0 0 (bs @ ds),
        recovery_of 0 0 (bs @ ds) (n mod 65536)), log_image C (bs @ ds))"
      by (auto simp: wal_open_def)
    have "bs @ ds = bs @ cs" if "n = length (wf_content w')"
    proof (rule log_image_inj [OF ds(1)])
      show "chain C 1 0 (bs @ cs)" using cs(1) by (simp add: wal_log_def)
      then have "length (wf_content w') = length (bs @ cs) * 65536"
        using cs(1) length_log_image [of C 1 0 "bs @ cs"] by (simp add: wal_log_def)
      then show "log_image C (bs @ ds) = log_image C (bs @ cs)"
        using ds(2) that cs(1) by (simp add: wal_log_def)
    qed
    with opens bs(2) cs(2) show ?thesis by (auto simp: recovery_of_def)
  qed
qed

text \<open>Progress: an unpoisoned writer with addresses left accepts every nonempty request of
  records that fit a block, when no operation of the file fails.
\<close>

theorem append_progress:
  assumes "wal_reachable C s" "\<not> wf_poisoned (ws_wal s)" "rs \<noteq> []" "packable rs"
    and "\<forall>f\<in>set faults. f = None"
    and "unat (wf_next_sequence (ws_wal s)) + 2 * (group_length rs div 65425) \<le> MAX_SEQUENCE"
  shows "\<exists>receipts w'. append_records C faults True (ws_wal s) rs synchronize = (Inr receipts, w')
    \<and> \<not> wf_poisoned w'"
proof -
  obtain bs where bs: "wal_log C 0 0 (ws_wal s) bs"
    using wal_reachable_inv [OF assms(1)] assms(2) by (auto simp: wal_inv_def)
  then have "unat (0 :: u64) + length bs + 2 * (group_length rs div 65425) + 1 \<le> MAX_SEQUENCE"
    using assms(6) by (simp add: wal_log_def)
  from append_records_total [OF bs assms(2-5) _ this, of True] append_records_success [OF _ bs assms(4)]
  show ?thesis by (metis (full_types))
qed

text \<open>C4. Opening recognises exactly the chains: with working reads, the file opens after a base iff
  its complete blocks are the images of blocks with consecutive sequences after the base, each
  carrying the digest of its predecessor.
\<close>

theorem open_accepts_chains:
  assumes "unat base \<le> MAX_SEQUENCE" "(base = 0) = (base_digest = 0)" "length content < 2 ^ 64"
    and "\<forall>i k. io i k \<noteq> None"
  shows "(\<exists>w r disk'. open_after C io True True True True True content base base_digest = (Inr (w, r), disk'))
    = (\<exists>bs. chain C (Suc (unat base)) base_digest bs
        \<and> log_image C bs = take (length content div 65536 * 65536) content)"
proof
  assume "\<exists>w r disk'. open_after C io True True True True True content base base_digest = (Inr (w, r), disk')"
  then show "\<exists>bs. chain C (Suc (unat base)) base_digest bs
      \<and> log_image C bs = take (length content div 65536 * 65536) content"
    using open_after_sound assms(3) by metis
next
  assume "\<exists>bs. chain C (Suc (unat base)) base_digest bs
      \<and> log_image C bs = take (length content div 65536 * 65536) content"
  then obtain bs where bs: "chain C (Suc (unat base)) base_digest bs"
    "log_image C bs = take (length content div 65536 * 65536) content" by blast
  from open_after_blocks [OF bs(1) assms(1,2,4) TrueI TrueI TrueI TrueI TrueI bs(2)]
  show "\<exists>w r disk'. open_after C io True True True True True content base base_digest = (Inr (w, r), disk')" by blast
qed

text \<open>The recovered records have strictly increasing log sequence numbers, all of them inside the
  address range of the recovered blocks, so that the next block starts above them.
\<close>

theorem recovered_lsns_increase:
  assumes "open_after C io open_ok len_ok set_len_ok sync_ok seek_ok content base base_digest = (Inr (w, r), disk')"
    "length content < 2 ^ 64"
  shows "sorted_wrt (<) (map wr_lsn (rec_records r))
    \<and> (\<forall>q\<in>set (rec_records r). unat base * 65536 < unat (get (wr_lsn q))
        \<and> unat (get (wr_lsn q)) < (unat base + length content div 65536) * 65536)"
proof -
  from open_after_sound [OF assms] obtain bs where "length bs = length content div 65536"
    "chain C (Suc (unat base)) base_digest bs" "r = recovery_of base base_digest bs (length content mod 65536)"
    by blast
  with chain_lsns [of C "unat base" base_digest bs] show ?thesis
    by (simp add: recovery_of_def sorted_wrt_map)
qed

text \<open>C23. Packing keeps the records in order in nonempty groups that fit a block, and uses at most
  one block more than twice the number the bytes fill.
\<close>

theorem packing_bounded:
  assumes "records \<noteq> []" "packable records"
  shows "concat (pack_records records [] [] 0) = records
    \<and> (\<forall>g\<in>set (pack_records records [] [] 0). g \<noteq> [] \<and> group_length g \<le> WAL_BLOCK_PAYLOAD_SIZE)
    \<and> length (pack_records records [] [] 0) \<le> 2 * (group_length records div (WAL_BLOCK_PAYLOAD_SIZE + 1)) + 1"
  using pack_records_packed [of records] packed_length [of records "pack_records records [] [] 0"] assms
  by (auto simp: packed_def list_all_iff)

text \<open>C24. Reading a block ends with exactly its bytes however the system cuts the reads, and ends
  with an error when the file is too short.
\<close>

theorem read_exact_at_ends:
  assumes "\<forall>i. io i \<noteq> None"
  shows "read_exact_at Io io content n offset
    = (if n = 0 \<or> offset + n \<le> length content then Inr (seg offset (offset + n) content) else Inl Io)"
proof (cases "n = 0 \<or> offset + n \<le> length content")
  case True
  then show ?thesis
    using read_exact_at_complete [OF assms] by (cases "n = 0") (simp_all add: read_exact_at.simps [of _ _ _ 0] seg_def)
next
  case False
  then have "read_exact_at Io io content n offset \<noteq> Inr bs" for bs using read_exact_at_sound [of Io io content n offset bs] by auto
  with False show ?thesis
    using read_exact_at_error [of Io io content n offset] by (cases "read_exact_at Io io content n offset") auto
qed

text \<open>C25. Failing closed: an append of records that fails poisons the writer, and a poisoned writer
  refuses appends and synchronization without touching the file.
\<close>

theorem failed_append_poisons:
  assumes "append_records C faults sync_ok w rs synchronize = (Inl e, w')" "rs \<noteq> []"
  shows "wf_poisoned w' \<and> (\<forall>faults sync_ok rs synchronize.
      append_records C faults sync_ok w' rs synchronize = (Inl WalPoisoned, w')
      \<and> wal_sync_data sync_ok w' = (Inl WalPoisoned, w'))"
proof -
  have "wf_poisoned w'"
    using assms append_groups_poisoned
    by (fastforce simp: append_records_def Let_def split: if_splits prod.splits sum.splits)
  then show ?thesis by (simp add: append_records_def wal_sync_data_def)
qed

text \<open>C26. Retirement: after the writer was reset past a retired block, synchronized appends reopen
  after that block with exactly the appended records, all above the retired addresses.
\<close>

theorem reset_continues:
  assumes "reset_after set_len_ok seek_ok sync_ok w sequence digest synchronize = (Inr (), w1)"
    and "append_records C faults sync_ok' w1 rs True = (Inr receipts, w2)" "packable rs"
    and "\<forall>i k. io i k \<noteq> None"
  shows "\<exists>w3 r. open_after C io True True True True True (wf_content w2) sequence digest = (Inr (w3, r), wf_content w2)
    \<and> map pending_of (rec_records r) = rs \<and> rec_blocks r = receipts
    \<and> (\<forall>q\<in>set (rec_records r). unat sequence * 65536 < unat (get (wr_lsn q)))"
proof -
  have w1: "wal_log C sequence digest w1 []" "sequence \<noteq> 0" "digest \<noteq> 0"
    using assms(1)
    by (auto simp: reset_after_def Let_def wal_log_def checked_add_Some split: if_splits option.splits)
  obtain cs where cs: "wal_log C sequence digest w2 cs" "receipts = map receipt_of cs" "log_pending cs = rs"
    using append_records_success [OF assms(2) w1(1) assms(3)] by auto
  have "rs \<noteq> []" using assms(2) by (auto simp: append_records_def split: if_splits)
  then have "cs \<noteq> []" using cs(3) by auto
  have chain: "chain C (Suc (unat sequence)) digest cs" "wf_content w2 = log_image C cs"
    using cs(1) by (simp_all add: wal_log_def)
  with \<open>cs \<noteq> []\<close> have "unat sequence \<le> MAX_SEQUENCE"
    using wf_block_sequence_bound [of C "hd cs"] by (cases cs) auto
  from open_after_blocks [OF chain(1) this _ assms(4) TrueI TrueI TrueI TrueI TrueI, of "wf_content w2"]
    w1 cs chain(2) length_log_image [OF chain(1)] chain_lsns [OF chain(1)]
  show ?thesis by (simp add: recovery_of_def)
qed

section \<open>Concrete executions\<close>

definition sample_record :: pending_record where
  "sample_record = \<lparr>pr_kind = Commit, pr_engine = Relational, pr_flags = 0, pr_transaction_id = nz 1,
     pr_body = [1, 2, 3]\<rparr>"

lemma sample_record_length [simp]: "encoded_length sample_record = 47"
  by (simp add: sample_record_def encoded_length_def WAL_RECORD_HEADER_SIZE_def)

lemma wal_create_log: "wal_log C 0 0 wal_create [] \<and> \<not> wf_poisoned wal_create"
  by (simp add: wal_log_def wal_create_def)

lemma sample_wal_append:
  obtains receipts w where "append_records C [] True wal_create [sample_record] True = (Inr receipts, w)"
  using append_records_total [of C 0 0 wal_create "[]" "[sample_record]" "[]" True True] wal_create_log [of C]
  by (auto simp: MAX_SEQUENCE_def)

lemma sample_wal_reachable:
  assumes "append_records C [] True wal_create [sample_record] True = (Inr receipts, w)"
  shows "wal_reachable C \<lparr>ws_wal = w, ws_acknowledged = [sample_record], ws_durable = [sample_record]\<rparr>"
  using wal_step.append_acknowledged [of "[sample_record]" C "[]" True wal_initial True receipts w] assms
  by (simp add: wal_initial_def r_into_rtranclp)

lemma length_le_records: "(\<And>b. b \<in> set bs \<Longrightarrow> wb_records b \<noteq> []) \<Longrightarrow> length bs \<le> length (log_records bs)"
proof (induction bs)
  case (Cons b bs)
  then have "length bs \<le> length (log_records bs)" "wb_records b \<noteq> []" by auto
  then show ?case by (cases "wb_records b") auto
qed simp

lemma sample_wal_opens:
  assumes "append_records C [] True wal_create [sample_record] True = (Inr receipts, w)"
  obtains r where "wal_open C (\<lambda>i k. Some 0) True True True True True (wf_content w) = (Inr (w, r), wf_content w)"
    "length (wf_content w) < 2 ^ 64" "map pending_of (rec_records r) = [sample_record]"
proof -
  obtain cs where cs: "wal_log C 0 0 w cs" "log_pending cs = [sample_record]" "\<not> wf_poisoned w"
    "wf_synced w = length (wf_content w)"
    using append_records_success [OF assms, of 0 0 "[]"] wal_create_log [of C] by auto
  have chain: "chain C 1 0 cs" "wf_content w = log_image C cs" using cs(1) by (simp_all add: wal_log_def)
  have "length cs \<le> length (log_records cs)"
    using chain(1) wf_block_records chain_wf by (intro length_le_records) blast
  moreover have "length (log_records cs) = 1" using arg_cong [OF cs(2), of length] by simp
  ultimately have small: "length cs \<le> 1" by simp
  have "unat (wf_next_sequence w) = unat (word_of_nat (length cs) + 1 :: u64)"
    using cs(1) small by (cases "length cs") (auto simp: wal_log_def)
  then have "opened_wal C 0 0 cs = w"
    using cs chain(2) by (intro wal_file.equality) (simp_all add: opened_wal_def wal_log_def word_unat_eq_iff)
  with open_after_blocks [of C 0 0 cs "\<lambda>i k. Some 0" True True True True True "wf_content w"] chain length_log_image [OF chain(1)]
  have "wal_open C (\<lambda>i k. Some 0) True True True True True (wf_content w)
      = (Inr (w, recovery_of 0 0 cs (length (wf_content w) mod 65536)), wf_content w)"
    by (simp add: wal_open_def MAX_SEQUENCE_def)
  then show ?thesis
    by (rule that) (use chain length_log_image [OF chain(1)] small cs(2) in \<open>simp_all add: recovery_of_def\<close>)
qed

theorem wal_durability_witness:
  "\<exists>w r. wal_reachable sum_crypto \<lparr>ws_wal = w, ws_acknowledged = [sample_record], ws_durable = [sample_record]\<rparr>
    \<and> wal_open sum_crypto (\<lambda>i k. Some 0) True True True True True (wf_content w) = (Inr (w, r), wf_content w)
    \<and> prefix [sample_record] (map pending_of (rec_records r))"
proof -
  obtain receipts w where app: "append_records sum_crypto [] True wal_create [sample_record] True = (Inr receipts, w)"
    by (rule sample_wal_append)
  note reach = sample_wal_reachable [OF app]
  obtain r where r: "wal_open sum_crypto (\<lambda>i k. Some 0) True True True True True (wf_content w) = (Inr (w, r), wf_content w)"
    "length (wf_content w) < 2 ^ 64"
    by (rule sample_wal_opens [OF app])
  have "prefix [sample_record] (map pending_of (rec_records r))"
    using wal_durability [OF reach, of "wf_content w"] r by (simp add: survives_def)
  with reach r(1) show ?thesis by blast
qed

theorem torn_append_recovers_witness:
  "\<exists>w' w r disk. append_records sum_crypto [Some 3] True wal_create [sample_record] True = (Inl Io, w')
    \<and> wal_open sum_crypto (\<lambda>i k. Some 0) True True True True True (take 2 (wf_content w')) = (Inr (w, r), disk)
    \<and> rec_truncated_tail_bytes r = 2"
proof -
  obtain b e where be: "build_encoded sum_crypto 1 0 [sample_record] = Inr (b, e)"
    using build_encoded_total [of 1 "[sample_record]" sum_crypto 0] by (auto simp: MAX_SEQUENCE_def)
  then have app: "append_records sum_crypto [Some 3] True wal_create [sample_record] True
      = (Inl Io, wal_create\<lparr>wf_content := take 3 e, wf_poisoned := True\<rparr>)"
    by (simp add: append_records_def wal_create_def)
  have "length e = 65536"
    using build_encoded_correct [OF be] wal_block_encode_length by blast
  then have "\<exists>w r disk. wal_open sum_crypto (\<lambda>i k. Some 0) True True True True True (take 2 (take 3 e)) = (Inr (w, r), disk)
      \<and> rec_truncated_tail_bytes r = 2"
    using torn_append_recovers [of sum_crypto wal_initial "[sample_record]" "[Some 3]" True True "Inl Io"
        "wal_create\<lparr>wf_content := take 3 e, wf_poisoned := True\<rparr>" 2 "\<lambda>i k. Some 0"] app
    by (auto simp: wal_initial_def wal_create_def)
  with app show ?thesis by (metis (no_types, lifting) wal_file.select_convs(1) wal_file.surjective wal_file.update_convs(1,5))
qed

theorem append_progress_witness:
  "\<exists>receipts w'. append_records sum_crypto [None] True wal_create [sample_record] True = (Inr receipts, w')
    \<and> \<not> wf_poisoned w'"
  using append_progress [of sum_crypto wal_initial "[sample_record]" "[None]" True]
  by (simp add: wal_initial_def wal_create_def MAX_SEQUENCE_def)

theorem open_accepts_chains_witness:
  "(\<exists>w r disk'. open_after sum_crypto (\<lambda>i k. Some 0) True True True True True [1, 2, 3] 0 0 = (Inr (w, r), disk'))
    = (\<exists>bs. chain sum_crypto 1 0 bs \<and> log_image sum_crypto bs = take (length [1, 2, 3 :: u8] div 65536 * 65536) [1, 2, 3])"
  using open_accepts_chains [of 0 0 "[1, 2, 3]" "\<lambda>i k. Some 0" sum_crypto] by (simp add: MAX_SEQUENCE_def)

theorem recovered_lsns_increase_witness:
  "\<exists>w r. wal_open sum_crypto (\<lambda>i k. Some 0) True True True True True (wf_content w) = (Inr (w, r), wf_content w)
    \<and> rec_records r \<noteq> [] \<and> sorted_wrt (<) (map wr_lsn (rec_records r))"
proof -
  obtain receipts w where app: "append_records sum_crypto [] True wal_create [sample_record] True = (Inr receipts, w)"
    by (rule sample_wal_append)
  obtain r where r: "wal_open sum_crypto (\<lambda>i k. Some 0) True True True True True (wf_content w) = (Inr (w, r), wf_content w)"
    "length (wf_content w) < 2 ^ 64" "map pending_of (rec_records r) = [sample_record]"
    by (rule sample_wal_opens [OF app])
  with recovered_lsns_increase [OF r(1) [unfolded wal_open_def] r(2)] show ?thesis
    by (intro exI [of _ w] exI [of _ r]) auto
qed

theorem packing_bounded_witness:
  "concat (pack_records [sample_record, sample_record] [] [] 0) = [sample_record, sample_record]
    \<and> length (pack_records [sample_record, sample_record] [] [] 0) \<le> 1"
  using packing_bounded [of "[sample_record, sample_record]"] by simp

theorem read_exact_at_ends_witness:
  "read_exact_at Io (\<lambda>i. Some 1) [1, 2, 3, 4, 5] 3 1 = Inr [2, 3, 4 :: u8]"
  using read_exact_at_ends [of "\<lambda>i. Some 1" "[1, 2, 3, 4, 5]" 3 1] by (simp add: seg_def)

theorem failed_append_poisons_witness:
  "\<exists>w'. append_records sum_crypto [] False wal_create [sample_record] True = (Inl Io, w') \<and> wf_poisoned w'"
proof -
  obtain receipts w where "append_records sum_crypto [] True wal_create [sample_record] True = (Inr receipts, w)"
    by (rule sample_wal_append)
  then obtain w' where "append_records sum_crypto [] False wal_create [sample_record] True = (Inl Io, w')"
    by (auto simp: append_records_def Let_def split: if_splits prod.splits sum.splits)
  with failed_append_poisons [OF this] show ?thesis by simp
qed

theorem reset_continues_witness:
  "\<exists>w1 receipts w2 w3 r. reset_after True True True wal_create 5 7 True = (Inr (), w1)
    \<and> append_records sum_crypto [] True w1 [sample_record] True = (Inr receipts, w2)
    \<and> open_after sum_crypto (\<lambda>i k. Some 0) True True True True True (wf_content w2) 5 7 = (Inr (w3, r), wf_content w2)
    \<and> map pending_of (rec_records r) = [sample_record]"
proof -
  define w1 where "w1 = wal_create\<lparr>wf_next_sequence := 6, wf_previous_digest := 7\<rparr>"
  have reset: "reset_after True True True wal_create 5 7 True = (Inr (), w1)"
    by (simp add: reset_after_def checked_add_def w1_def wal_create_def)
  have "wal_log sum_crypto 5 7 w1 []" "\<not> wf_poisoned w1" by (simp_all add: wal_log_def w1_def wal_create_def)
  then obtain receipts w2 where app: "append_records sum_crypto [] True w1 [sample_record] True = (Inr receipts, w2)"
    using append_records_total [of sum_crypto 5 7 w1 "[]" "[sample_record]" "[]" True True]
    by (auto simp: MAX_SEQUENCE_def)
  from reset_continues [OF reset app, of "\<lambda>i k. Some 0"] reset app show ?thesis by auto
qed

end
