(* ===== verification/Directory.thy ===== *)
theory Directory
  imports Endian
begin

text \<open>
  What the stores use of directories and file names: a directory as the list of its entries in
  the order \<^verbatim>\<open>read_dir\<close> gives them, the operations of \<^verbatim>\<open>std::fs\<close> on it, and fixed-width numbers
  in file names (\<^verbatim>\<open>format!("{:020}")\<close>, \<^verbatim>\<open>format!("{:016x}")\<close> and the checked parsers that read
  them back). An operation that may fail takes its outcome from a record of type \<open>fs_outcome\<close>;
  that a removal fails because its target is not a file is an outcome of \<open>remove_ok\<close> at that name.
\<close>

section \<open>Directories\<close>

datatype file_name = Utf8 string | NotUtf8 bytes

datatype entry = File bytes | NotFile

type_synonym directory = "(file_name \<times> entry) list"

record fs_outcome =
  read_dir_ok :: bool
  read_ok :: "file_name \<Rightarrow> bool"
  create_ok :: bool
  write_fault :: "nat option"
  file_sync_ok :: bool
  rename_ok :: bool
  remove_ok :: "file_name \<Rightarrow> bool"
  dir_sync_ok :: bool
  metadata_ok :: "file_name \<Rightarrow> bool"
  other_len :: u64

definition all_ok :: fs_outcome where
  "all_ok = \<lparr>read_dir_ok = True, read_ok = (\<lambda>_. True), create_ok = True, write_fault = None,
     file_sync_ok = True, rename_ok = True, remove_ok = (\<lambda>_. True), dir_sync_ok = True,
     metadata_ok = (\<lambda>_. True), other_len = 0\<rparr>"

definition wf_directory :: "directory \<Rightarrow> bool" where
  "wf_directory d = distinct (map fst d)"

definition dir_exists :: "directory \<Rightarrow> file_name \<Rightarrow> bool" where
  "dir_exists d n = (map_of d n \<noteq> None)"

definition dir_put :: "file_name \<Rightarrow> bytes \<Rightarrow> directory \<Rightarrow> directory" where
  "dir_put n content d = d @ [(n, File content)]"

definition dir_remove :: "file_name \<Rightarrow> directory \<Rightarrow> directory" where
  "dir_remove n d = filter (\<lambda>(m, e). m \<noteq> n) d"

text \<open>Renaming replaces an existing target.\<close>

definition dir_rename :: "file_name \<Rightarrow> file_name \<Rightarrow> directory \<Rightarrow> directory" where
  "dir_rename a b d = map (\<lambda>(m, e). (if m = a then b else m, e)) (dir_remove b d)"

text \<open>Removing a list of files, stopping at the first failure.\<close>

fun remove_files :: "fs_outcome \<Rightarrow> file_name list \<Rightarrow> directory \<Rightarrow> bool \<times> directory" where
  "remove_files io [] d = (True, d)"
| "remove_files io (n # ns) d =
     (if \<not> remove_ok io n \<or> \<not> dir_exists d n then (False, d) else remove_files io ns (dir_remove n d))"

text \<open>The length \<^verbatim>\<open>fs::metadata\<close> reports; for an entry that is not a file it is up to the system.\<close>

definition metadata_len :: "fs_outcome \<Rightarrow> directory \<Rightarrow> file_name \<Rightarrow> u64 option" where
  "metadata_len io d n =
     (if \<not> metadata_ok io n then None
      else (case map_of d n of
          None \<Rightarrow> None
        | Some (File content) \<Rightarrow> Some (word_of_nat (length content))
        | Some NotFile \<Rightarrow> Some (other_len io)))"

text \<open>The history of the requests that reported an error.\<close>

definition note_failure :: "'e + 'a \<Rightarrow> 'r \<Rightarrow> 'r list \<Rightarrow> 'r list" where
  "note_failure res request failed = (case res of Inl _ \<Rightarrow> request # failed | Inr _ \<Rightarrow> failed)"

section \<open>Fixed-width numbers in names\<close>

definition strip_prefix :: "string \<Rightarrow> string \<Rightarrow> string option" where
  "strip_prefix p s = (if take (length p) s = p then Some (drop (length p) s) else None)"

definition strip_suffix :: "string \<Rightarrow> string \<Rightarrow> string option" where
  "strip_suffix p s =
     (if length p \<le> length s \<and> drop (length s - length p) s = p
      then Some (take (length s - length p) s) else None)"

definition digit_char :: "nat \<Rightarrow> char" where
  "digit_char d = char_of (if d < 10 then 48 + d else 87 + d)"

definition char_digit :: "char \<Rightarrow> nat option" where
  "char_digit c =
     (let v = of_char c in
      if 48 \<le> v \<and> v \<le> 57 then Some (v - 48) else if 97 \<le> v \<and> v \<le> 102 then Some (v - 87) else None)"

text \<open>The \<open>w\<close> digits of a number in a base, most significant first.\<close>

fun digits :: "nat \<Rightarrow> nat \<Rightarrow> nat \<Rightarrow> string" where
  "digits b 0 n = []"
| "digits b (Suc w) n = digits b w (n div b) @ [digit_char (n mod b)]"

definition is_digit :: "nat \<Rightarrow> char \<Rightarrow> bool" where
  "is_digit b c = (case char_digit c of None \<Rightarrow> False | Some d \<Rightarrow> d < b)"

definition digits_value :: "nat \<Rightarrow> string \<Rightarrow> nat" where
  "digits_value b s = foldl (\<lambda>acc c. acc * b + the (char_digit c)) 0 s"

text \<open>
  The parsers of the stores: exactly \<open>w\<close> digits of the base, a value that fits 64 bits and is
  not zero.
\<close>

definition parse_fixed :: "nat \<Rightarrow> nat \<Rightarrow> string \<Rightarrow> u64 option" where
  "parse_fixed b w s =
     (if length s \<noteq> w \<or> \<not> list_all (is_digit b) s then None
      else if digits_value b s < 2 ^ 64 \<and> digits_value b s \<noteq> 0 then Some (word_of_nat (digits_value b s))
      else None)"

section \<open>Numbers round trip\<close>

lemma char_digit_char [simp]: "d < 16 \<Longrightarrow> char_digit (digit_char d) = Some d"
  by (auto simp: char_digit_def digit_char_def Let_def)

lemma digit_char_char: "char_digit c = Some d \<Longrightarrow> digit_char d = c"
  by (auto simp: char_digit_def digit_char_def Let_def split: if_splits)

lemma length_digits [simp]: "length (digits b w n) = w"
  by (induction w arbitrary: n) auto

lemma is_digit_digits: "0 < b \<Longrightarrow> b \<le> 16 \<Longrightarrow> list_all (is_digit b) (digits b w n)"
  by (induction w arbitrary: n) (auto simp: is_digit_def less_le_trans [OF mod_less_divisor])

lemma digits_value_snoc [simp]: "digits_value b (s @ [c]) = digits_value b s * b + the (char_digit c)"
  by (simp add: digits_value_def)

lemma digits_value_digits: "0 < b \<Longrightarrow> b \<le> 16 \<Longrightarrow> n < b ^ w \<Longrightarrow> digits_value b (digits b w n) = n"
proof (induction w arbitrary: n)
  case (Suc w)
  have "n mod b < 16" using Suc.prems by (meson mod_less_divisor less_le_trans)
  moreover have "n div b < b ^ w" using Suc.prems by (simp add: less_mult_imp_div_less mult.commute)
  ultimately show ?case using Suc by simp
qed (simp add: digits_value_def)

lemma digits_of_value: "list_all (is_digit b) s \<Longrightarrow> digits b (length s) (digits_value b s) = s"
proof (induction s rule: rev_induct)
  case (snoc c s)
  then obtain d where d: "char_digit c = Some d" "d < b" by (auto simp: is_digit_def split: option.splits)
  with snoc show ?case by (simp add: digit_char_char)
qed simp

lemma parse_fixed_iff:
  assumes "2 \<le> b" "b \<le> 16" "2 ^ 64 \<le> b ^ w"
  shows "(parse_fixed b w s = Some e) = (s = digits b w (unat e) \<and> e \<noteq> 0)"
proof
  assume "parse_fixed b w s = Some e"
  then have s: "length s = w" "list_all (is_digit b) s" "digits_value b s < 2 ^ 64" "digits_value b s \<noteq> 0"
    "e = word_of_nat (digits_value b s)"
    by (auto simp: parse_fixed_def split: if_splits)
  then have "unat e = digits_value b s" by (simp add: unat_word_of_nat)
  with s show "s = digits b w (unat e) \<and> e \<noteq> 0" using digits_of_value [OF s(2)] by (auto simp: word_unat_eq_iff)
next
  assume e: "s = digits b w (unat e) \<and> e \<noteq> 0"
  have "unat e < b ^ w" using unat_u64_less [of e] assms(3) by simp
  then have "digits_value b (digits b w (unat e)) = unat e" using assms by (intro digits_value_digits) simp_all
  then show "parse_fixed b w s = Some e"
    using e assms unat_u64_less [of e] is_digit_digits [of b w "unat e"]
    by (simp add: parse_fixed_def word_of_nat_unat word_unat_eq_iff)
qed

section \<open>Names\<close>

lemma strip_prefix_iff [result_simps]: "(strip_prefix p s = Some t) = (s = p @ t)"
  by (auto simp: strip_prefix_def) (metis append_take_drop_id)

lemma strip_suffix_iff [result_simps]: "(strip_suffix p s = Some t) = (s = t @ p)"
  by (auto simp: strip_suffix_def) (metis append_take_drop_id)

lemma strip_affixes_iff:
  "((case strip_prefix p name of
       None \<Rightarrow> None
     | Some s \<Rightarrow> (case strip_suffix q s of None \<Rightarrow> None | Some v \<Rightarrow> f v)) = Some e)
    = (\<exists>v. name = p @ v @ q \<and> f v = Some e)"
proof (cases "strip_prefix p name")
  case None
  then have "name \<noteq> p @ t" for t using strip_prefix_iff [of p name t] by simp
  then show ?thesis using None by auto
next
  case (Some s)
  then have name: "name = p @ s" by (simp only: strip_prefix_iff)
  show ?thesis
  proof (cases "strip_suffix q s")
    case None
    then have "s \<noteq> t @ q" for t using strip_suffix_iff [of q s t] by simp
    then show ?thesis using Some None name by simp
  next
    case (Some v)
    then have "s = v @ q" by (simp only: strip_suffix_iff)
    with name show ?thesis using \<open>strip_prefix _ _ = _\<close> Some by simp
  qed
qed

lemma digits_inj: "(digits b w (unat x) = digits b w (unat y)) = (x = (y :: u64))"
  if "0 < b" "b \<le> 16" "2 ^ 64 \<le> b ^ w"
proof
  assume eq: "digits b w (unat x) = digits b w (unat y)"
  have "digits_value b (digits b w (unat z)) = unat z" for z :: u64
    using unat_u64_less [of z] that by (intro digits_value_digits) simp_all
  then show "x = y" using arg_cong [OF eq, of "digits_value b"] by (simp add: word_unat_eq_iff)
qed simp

section \<open>Directory lemmas\<close>

lemma dir_exists_iff: "dir_exists d n = (n \<in> fst ` set d)"
  by (simp add: dir_exists_def map_of_eq_None_iff)

lemma dir_existsI: "(n, e) \<in> set d \<Longrightarrow> dir_exists d n"
  by (force simp: dir_exists_iff)

lemma wf_dir_put: "wf_directory d \<Longrightarrow> \<not> dir_exists d n \<Longrightarrow> wf_directory (dir_put n c d)"
  by (auto simp: wf_directory_def dir_put_def dir_exists_iff)

lemma set_dir_put [simp]: "set (dir_put n c d) = insert (n, File c) (set d)"
  by (auto simp: dir_put_def)

lemma set_dir_remove [simp]: "set (dir_remove n d) = {(m, e) \<in> set d. m \<noteq> n}"
  by (auto simp: dir_remove_def)

lemma wf_dir_remove: "wf_directory d \<Longrightarrow> wf_directory (dir_remove n d)"
  unfolding wf_directory_def dir_remove_def by (induction d) auto

lemma set_dir_rename:
  "set (dir_rename a b d) = {(m, e) \<in> set d. m \<noteq> a \<and> m \<noteq> b} \<union> {(b, e) | e. (a, e) \<in> set d \<and> a \<noteq> b}"
  (is "?l = ?r")
proof (rule set_eqI)
  fix x show "x \<in> ?l = (x \<in> ?r)"
    by (cases x) (auto simp: dir_rename_def image_iff Bex_def)
qed

lemma set_dir_rename_new:
  assumes "wf_directory d" "\<not> dir_exists d b" "(a, x) \<in> set d" "a \<noteq> b"
  shows "set (dir_rename a b d) = {(m, e) \<in> set d. m \<noteq> a} \<union> {(b, x)}"
proof -
  have "((a, e) \<in> set d) = (e = x)" for e
    using assms(1,3) eq_key_imp_eq_value [of d a e x] by (auto simp: wf_directory_def)
  then have "{(b, e) | e. (a, e) \<in> set d \<and> a \<noteq> b} = {(b, x)}" using assms(4) by simp
  moreover have "{(m, e) \<in> set d. m \<noteq> a \<and> m \<noteq> b} = {(m, e) \<in> set d. m \<noteq> a}"
    using assms(2) by (force simp: dir_exists_iff)
  ultimately show ?thesis by (simp only: set_dir_rename)
qed

lemma wf_dir_rename: "wf_directory d \<Longrightarrow> wf_directory (dir_rename a b d)"
proof -
  assume "wf_directory d"
  then have "distinct (map fst (dir_remove b d))" using wf_dir_remove by (simp add: wf_directory_def)
  moreover have "b \<notin> set (map fst (dir_remove b d))" by auto
  ultimately have "distinct (map (\<lambda>m. if m = a then b else m) (map fst (dir_remove b d)))"
    by (auto simp: distinct_map inj_on_def)
  then show ?thesis by (simp add: wf_directory_def dir_rename_def comp_def case_prod_beta)
qed

lemma remove_files_set:
  "remove_files io ns d = (ok, d') \<Longrightarrow> set d' \<subseteq> set d \<and> {(m, e) \<in> set d. m \<notin> set ns} \<subseteq> set d'
    \<and> (ok \<longrightarrow> set d' = {(m, e) \<in> set d. m \<notin> set ns})"
  by (induction ns arbitrary: d) (fastforce split: if_splits)+

lemma wf_remove_files: "remove_files io ns d = (ok, d') \<Longrightarrow> wf_directory d \<Longrightarrow> wf_directory d'"
  by (induction ns arbitrary: d) (auto simp: wf_dir_remove split: if_splits)

lemma remove_files_all:
  "\<forall>n\<in>set ns. remove_ok io n \<Longrightarrow> set ns \<subseteq> fst ` set d \<Longrightarrow> distinct ns
    \<Longrightarrow> \<exists>d'. remove_files io ns d = (True, d')"
proof (induction ns arbitrary: d)
  case (Cons n ns)
  have "set ns \<subseteq> fst ` set (dir_remove n d)" using Cons.prems by force
  with Cons show ?case by (auto simp: dir_exists_iff)
qed simp

section \<open>Scanning for named files\<close>

text \<open>The entries whose name a parser accepts, as the scans of the stores collect them.\<close>

definition named_file :: "(string \<Rightarrow> u64 option) \<Rightarrow> file_name \<times> entry \<Rightarrow> (u64 \<times> file_name \<times> bytes) option" where
  "named_file parse x =
     (case x of
        (Utf8 name, File content) \<Rightarrow>
          (case parse name of None \<Rightarrow> None | Some epoch \<Rightarrow> Some (epoch, Utf8 name, content))
      | _ \<Rightarrow> None)"

lemma map_filter_names:
  "map (\<lambda>f. fst (snd f)) (List.map_filter (named_file parse) d)
    = map fst (filter (\<lambda>x. named_file parse x \<noteq> None) d)"
proof (induction d)
  case (Cons x d)
  have "fst (snd f) = fst x" if "named_file parse x = Some f" for f
    using that by (auto simp: named_file_def split: prod.splits file_name.splits entry.splits option.splits)
  with Cons show ?case by (auto simp: map_filter_simps split: option.splits)
qed (simp add: map_filter_simps)

lemma distinct_named_files: "wf_directory d \<Longrightarrow> distinct (List.map_filter (named_file parse) d)"
proof -
  assume "wf_directory d"
  then have "distinct (map fst (filter (\<lambda>x. named_file parse x \<noteq> None) d))"
    by (simp add: wf_directory_def distinct_map inj_on_def)
  then have "distinct (map (\<lambda>f. fst (snd f)) (List.map_filter (named_file parse) d))"
    by (simp only: map_filter_names)
  then show ?thesis by (simp add: distinct_map)
qed

lemma set_map_filter: "set (List.map_filter f d) = {y. \<exists>x\<in>set d. f x = Some y}"
  by (induction d) (auto simp: map_filter_simps split: option.splits)

lemma sorted_keys_unique:
  assumes "sorted (map fst xs)" "distinct (map fst xs)" "sorted (map fst ys)" "distinct (map fst ys)" "set xs = set ys"
  shows "xs = ys"
proof -
  have "map fst xs = map fst ys"
    using assms by (intro sorted_distinct_set_unique) simp_all
  moreover have "inj_on fst (set xs \<union> set ys)" using assms(2,5) by (simp add: distinct_map)
  ultimately show ?thesis by (rule map_inj_on)
qed

end
