(* ===== verification/WalRetention.thy ===== *)
theory WalRetention
  imports WalCodec Directory
begin

text \<open>
  Retention anchors (\<^verbatim>\<open>WalRetentionAnchor\<close>, \<^verbatim>\<open>WalRetentionStore\<close> of
  \<^verbatim>\<open>crates/hyphae-native-wal/src/lib.rs\<close>): the self-verifying trust root of a retired log prefix,
  its version 1 and version 2 encodings, and the store that stages, publishes, stabilizes and
  removes anchors in the data directory. The codec is canonical; the store is verified in
  \<^verbatim>\<open>WalRetentionStore\<close>.
\<close>

section \<open>Anchors\<close>

record retention_fields =
  rf_epoch :: u64
  rf_retired_through_sequence :: u64
  rf_retired_checkpoint_lsn :: lsn
  rf_retired_block_digest :: digest
  rf_base_visible_csn :: csn
  rf_manifest_generation :: manifest_generation
  rf_manifest_digest :: digest
  rf_root_commit_lsn :: lsn
  rf_root_commit_block_digest :: digest
  rf_next_transaction_id :: u128
  rf_checkpoint_count :: u64
  rf_committed_transaction_count :: u64
  rf_previous_anchor_digest :: digest

record retention_anchor =
  ra_fields :: retention_fields
  ra_lineage :: "lineage_identity option"

definition RETENTION_MAGIC_V1 :: bytes where "RETENTION_MAGIC_V1 = ascii ''HYWAR001''"
definition RETENTION_MAGIC_V2 :: bytes where "RETENTION_MAGIC_V2 = ascii ''HYWAR002''"

definition sequence_for_record_lsn :: "lsn \<Rightarrow> wal_error + u64" where
  "sequence_for_record_lsn l =
     (let raw = get l; offset = raw mod 65536 in
      if offset < 112 then Inl InvalidRetentionAnchorIdentity
      else ok_or InvalidRetentionAnchorIdentity (checked_add (raw div 65536) 1))"

definition validate_retention_anchor_fields :: "retention_fields \<Rightarrow> wal_error + unit" where
  "validate_retention_anchor_fields f =
     attempt (sequence_for_record_lsn (rf_retired_checkpoint_lsn f)) (\<lambda>checkpoint_sequence.
     attempt (sequence_for_record_lsn (rf_root_commit_lsn f)) (\<lambda>root_sequence.
     let previous_digest_is_valid =
           (if rf_epoch f = 1 then rf_previous_anchor_digest f = 0 else rf_previous_anchor_digest f \<noteq> 0)
     in
     if rf_epoch f = 0
       \<or> rf_retired_through_sequence f = 0
       \<or> checkpoint_sequence \<noteq> rf_retired_through_sequence f
       \<or> root_sequence > rf_retired_through_sequence f
       \<or> rf_root_commit_lsn f \<ge> rf_retired_checkpoint_lsn f
       \<or> rf_retired_block_digest f = 0
       \<or> rf_manifest_digest f = 0
       \<or> rf_root_commit_block_digest f = 0
       \<or> rf_next_transaction_id f = 0
       \<or> rf_checkpoint_count f = 0
       \<or> rf_committed_transaction_count f \<noteq> get (rf_base_visible_csn f)
       \<or> \<not> previous_digest_is_valid
     then Inl InvalidRetentionAnchorIdentity
     else Inr ()))"

definition retention_anchor_new :: "retention_fields \<Rightarrow> lineage_identity option \<Rightarrow> wal_error + retention_anchor" where
  "retention_anchor_new f lineage =
     attempt (validate_retention_anchor_fields f) (\<lambda>_.
     Inr \<lparr>ra_fields = f, ra_lineage = lineage\<rparr>)"

definition retention_anchor_checksum :: "crypto \<Rightarrow> bytes \<Rightarrow> nat \<Rightarrow> u32" where
  "retention_anchor_checksum C encoded digest_start =
     crc32c C (put digest_start (replicate 32 0) (put 12 (replicate 4 0) encoded))"

definition retention_anchor_digest :: "crypto \<Rightarrow> bytes \<Rightarrow> nat \<Rightarrow> digest" where
  "retention_anchor_digest C encoded digest_start =
     blake3 C (put digest_start (replicate 32 0) encoded)"

definition encode_retention_anchor ::
    "crypto \<Rightarrow> retention_fields \<Rightarrow> lineage_identity option \<Rightarrow> bytes \<times> digest"
where
  "encode_retention_anchor C f lineage =
     (let (encoded_size, magic, format_version, header_length, digest_start) =
            (if lineage \<noteq> None then (280, RETENTION_MAGIC_V2, 2 :: u16, 280 :: u16, 248)
             else (256, RETENTION_MAGIC_V1, 1, 256, 224));
          encoded = replicate encoded_size 0;
          encoded = put 0 magic encoded;
          encoded = put 8 (to_le_bytes format_version) encoded;
          encoded = put 10 (to_le_bytes header_length) encoded;
          encoded = put 16 (to_le_bytes (rf_epoch f)) encoded;
          encoded = put 24 (to_le_bytes (rf_retired_through_sequence f)) encoded;
          encoded = put 32 (to_le_bytes (get (rf_retired_checkpoint_lsn f))) encoded;
          encoded = put 40 (to_be_bytes (rf_retired_block_digest f)) encoded;
          encoded = put 72 (to_le_bytes (get (rf_base_visible_csn f))) encoded;
          encoded = put 80 (to_le_bytes (get (rf_manifest_generation f))) encoded;
          encoded = put 88 (to_be_bytes (rf_manifest_digest f)) encoded;
          encoded = put 120 (to_le_bytes (get (rf_root_commit_lsn f))) encoded;
          encoded = put 128 (to_be_bytes (rf_root_commit_block_digest f)) encoded;
          encoded = put 160 (to_le_bytes (rf_next_transaction_id f)) encoded;
          encoded = put 176 (to_le_bytes (rf_checkpoint_count f)) encoded;
          encoded = put 184 (to_le_bytes (rf_committed_transaction_count f)) encoded;
          encoded = put 192 (to_be_bytes (rf_previous_anchor_digest f)) encoded;
          encoded = (case lineage of None \<Rightarrow> encoded | Some l \<Rightarrow> put 224 (lineage_encode l) encoded);
          checksum = retention_anchor_checksum C encoded digest_start;
          encoded = put 12 (to_le_bytes checksum) encoded;
          digest = retention_anchor_digest C encoded digest_start
      in (put digest_start (to_be_bytes digest) encoded, digest))"

definition anchor_encode :: "crypto \<Rightarrow> retention_anchor \<Rightarrow> bytes" where
  "anchor_encode C a = fst (encode_retention_anchor C (ra_fields a) (ra_lineage a))"

definition retention_digest :: "crypto \<Rightarrow> retention_anchor \<Rightarrow> digest" where
  "retention_digest C a = snd (encode_retention_anchor C (ra_fields a) (ra_lineage a))"

text \<open>The match on length and preamble, giving the start of the digest and the lineage.\<close>

definition anchor_preamble :: "bytes \<Rightarrow> wal_error + (nat \<times> lineage_identity option)" where
  "anchor_preamble encoded =
     (if length encoded = 256 \<and> seg 0 8 encoded = RETENTION_MAGIC_V1
        \<and> (from_le_bytes (seg 8 10 encoded) :: u16) = 1 \<and> (from_le_bytes (seg 10 12 encoded) :: u16) = 256
      then Inr (224, None)
      else if length encoded = 280 \<and> seg 0 8 encoded = RETENTION_MAGIC_V2
        \<and> (from_le_bytes (seg 8 10 encoded) :: u16) = 2 \<and> (from_le_bytes (seg 10 12 encoded) :: u16) = 280
      then attempt (map_err (\<lambda>_. InvalidRetentionAnchorIdentity) (lineage_decode (seg 224 248 encoded))) (\<lambda>l.
        Inr (248, Some l))
      else if length encoded = 256 \<or> length encoded = 280 then Inl InvalidRetentionAnchorPreamble
      else Inl (InvalidRetentionAnchorLength (length encoded)))"

definition anchor_identity :: "string \<Rightarrow> bytes \<Rightarrow> wal_error + 64 nonzero" where
  "anchor_identity label bs = map_err (\<lambda>_. InvalidRetentionAnchorIdentity) (identity_new label (from_le_bytes bs))"

definition anchor_decode :: "crypto \<Rightarrow> bytes \<Rightarrow> wal_error + retention_anchor" where
  "anchor_decode C encoded =
     attempt (anchor_preamble encoded) (\<lambda>(digest_start, lineage).
     if retention_anchor_checksum C encoded digest_start \<noteq> from_le_bytes (seg 12 16 encoded)
     then Inl RetentionAnchorChecksumMismatch
     else
       let stored_digest = from_be_bytes (seg digest_start (digest_start + 32) encoded) in
       if retention_anchor_digest C encoded digest_start \<noteq> stored_digest
       then Inl RetentionAnchorDigestMismatch
       else
         attempt (anchor_identity ''Lsn'' (seg 32 40 encoded)) (\<lambda>retired_checkpoint_lsn.
         attempt (anchor_identity ''Csn'' (seg 72 80 encoded)) (\<lambda>base_visible_csn.
         attempt (anchor_identity ''ManifestGeneration'' (seg 80 88 encoded)) (\<lambda>manifest_generation.
         attempt (anchor_identity ''Lsn'' (seg 120 128 encoded)) (\<lambda>root_commit_lsn.
         let f =
           \<lparr>rf_epoch = from_le_bytes (seg 16 24 encoded),
            rf_retired_through_sequence = from_le_bytes (seg 24 32 encoded),
            rf_retired_checkpoint_lsn = retired_checkpoint_lsn,
            rf_retired_block_digest = from_be_bytes (seg 40 72 encoded),
            rf_base_visible_csn = base_visible_csn,
            rf_manifest_generation = manifest_generation,
            rf_manifest_digest = from_be_bytes (seg 88 120 encoded),
            rf_root_commit_lsn = root_commit_lsn,
            rf_root_commit_block_digest = from_be_bytes (seg 128 160 encoded),
            rf_next_transaction_id = from_le_bytes (seg 160 176 encoded),
            rf_checkpoint_count = from_le_bytes (seg 176 184 encoded),
            rf_committed_transaction_count = from_le_bytes (seg 184 192 encoded),
            rf_previous_anchor_digest = from_be_bytes (seg 192 224 encoded)\<rparr> in
         attempt (retention_anchor_new f lineage) (\<lambda>anchor.
         if retention_digest C anchor \<noteq> stored_digest then Inl RetentionAnchorDigestMismatch
         else Inr anchor))))))"

section \<open>Layout\<close>

definition anchor_body :: "retention_fields \<Rightarrow> bytes" where
  "anchor_body f = to_le_bytes (rf_epoch f) @ to_le_bytes (rf_retired_through_sequence f)
     @ to_le_bytes (get (rf_retired_checkpoint_lsn f)) @ to_be_bytes (rf_retired_block_digest f)
     @ to_le_bytes (get (rf_base_visible_csn f)) @ to_le_bytes (get (rf_manifest_generation f))
     @ to_be_bytes (rf_manifest_digest f) @ to_le_bytes (get (rf_root_commit_lsn f))
     @ to_be_bytes (rf_root_commit_block_digest f) @ to_le_bytes (rf_next_transaction_id f)
     @ to_le_bytes (rf_checkpoint_count f) @ to_le_bytes (rf_committed_transaction_count f)
     @ to_be_bytes (rf_previous_anchor_digest f)"

definition anchor_head :: "lineage_identity option \<Rightarrow> bytes" where
  "anchor_head lineage =
     (if lineage = None then RETENTION_MAGIC_V1 @ to_le_bytes (1 :: u16) @ to_le_bytes (256 :: u16)
      else RETENTION_MAGIC_V2 @ to_le_bytes (2 :: u16) @ to_le_bytes (280 :: u16))"

definition anchor_lineage :: "lineage_identity option \<Rightarrow> bytes" where
  "anchor_lineage lineage = (case lineage of None \<Rightarrow> [] | Some l \<Rightarrow> lineage_encode l)"

lemma length_anchor_parts [simp]:
  "length (anchor_body f) = 208" "length (anchor_head lineage) = 12"
  by (simp_all add: anchor_body_def anchor_head_def RETENTION_MAGIC_V1_def RETENTION_MAGIC_V2_def)

lemma length_anchor_lineage:
  "wf_lineage_option lineage \<Longrightarrow> length (anchor_lineage lineage) = (if lineage = None then 0 else 24)"
  by (auto simp: anchor_lineage_def wf_lineage_option_def split: option.splits)

lemma anchor_frame:
  assumes "length m = 8" "length v = 2" "length h = 2" "length a = 8" "length b = 8" "length c = 8"
    "length d = 32" "length e = 8" "length f = 8" "length g = 32" "length i = 8" "length j = 32"
    "length k = 16" "length l = 8" "length n = 8" "length p = 32"
  shows "put 192 p (put 184 n (put 176 l (put 160 k (put 128 j (put 120 i (put 88 g (put 80 f (put 72 e
      (put 40 d (put 32 c (put 24 b (put 16 a (put 10 h (put 8 v (put 0 m (replicate (224 + r) 0))))))))))))))))
    = (m @ v @ h) @ replicate 4 0 @ (a @ b @ c @ d @ e @ f @ g @ i @ j @ k @ l @ n @ p) @ replicate r 0"
proof -
  have "put 192 p (put 184 n (put 176 l (put 160 k (put 128 j (put 120 i (put 88 g (put 80 f (put 72 e
      (put 40 d (put 32 c (put 24 b (put 16 a (put 10 h (put 8 v (put 0 m (replicate (224 + r) 0))))))))))))))))
    = (((((((((((((((((m @ v) @ h) @ replicate 4 0) @ a) @ b) @ c) @ d) @ e) @ f) @ g) @ i) @ j) @ k) @ l) @ n) @ p)
       @ replicate r 0)"
    by (simp add: put_zeros_start put_zeros assms append_assoc [symmetric] del: append_assoc)
  then show ?thesis by simp
qed

abbreviation anchor_ck :: "crypto \<Rightarrow> retention_fields \<Rightarrow> lineage_identity option \<Rightarrow> u32" where
  "anchor_ck C f lineage \<equiv>
     crc32c C (anchor_head lineage @ replicate 4 0 @ anchor_body f @ anchor_lineage lineage @ replicate 32 0)"

abbreviation anchor_dg :: "crypto \<Rightarrow> retention_fields \<Rightarrow> lineage_identity option \<Rightarrow> digest" where
  "anchor_dg C f lineage \<equiv>
     blake3 C (anchor_head lineage @ to_le_bytes (anchor_ck C f lineage) @ anchor_body f
       @ anchor_lineage lineage @ replicate 32 0)"

abbreviation digest_start :: "lineage_identity option \<Rightarrow> nat" where
  "digest_start lineage \<equiv> (if lineage = None then 224 else 248)"

lemma anchor_checksum_layout:
  assumes "length head = 12" "length ck = 4" "length body = 208" "n = 224 + length lin"
    "length dg = 32"
  shows "retention_anchor_checksum C (head @ ck @ body @ lin @ dg) n
      = crc32c C (head @ replicate 4 0 @ body @ lin @ replicate 32 0)"
    "retention_anchor_digest C (head @ ck @ body @ lin @ dg) n = blake3 C (head @ ck @ body @ lin @ replicate 32 0)"
proof -
  have put: "put n (replicate 32 0) (head @ x @ body @ lin @ dg) = head @ x @ body @ lin @ replicate 32 0"
    if "length x = 4" for x :: bytes
    using put_middle [of n "head @ x @ body @ lin" dg "replicate 32 0" "[]"] assms that by simp
  have "put 12 (replicate 4 0) (head @ ck @ body @ lin @ dg) = head @ replicate 4 0 @ body @ lin @ dg"
    using assms by (intro put_middle) simp_all
  with put show "retention_anchor_checksum C (head @ ck @ body @ lin @ dg) n
      = crc32c C (head @ replicate 4 0 @ body @ lin @ replicate 32 0)"
    "retention_anchor_digest C (head @ ck @ body @ lin @ dg) n = blake3 C (head @ ck @ body @ lin @ replicate 32 0)"
    using assms(2) by (simp_all add: retention_anchor_checksum_def retention_anchor_digest_def)
qed

definition anchor_image :: "crypto \<Rightarrow> retention_fields \<Rightarrow> lineage_identity option \<Rightarrow> bytes" where
  "anchor_image C f lineage = anchor_head lineage @ to_le_bytes (anchor_ck C f lineage) @ anchor_body f
     @ anchor_lineage lineage @ to_be_bytes (anchor_dg C f lineage)"

text \<open>The last steps of encoding, on a buffer whose checksum and digest fields are zero.\<close>

definition seal_anchor :: "crypto \<Rightarrow> bytes \<Rightarrow> nat \<Rightarrow> bytes \<times> digest" where
  "seal_anchor C encoded n =
     (let encoded = put 12 (to_le_bytes (retention_anchor_checksum C encoded n)) encoded;
          digest = retention_anchor_digest C encoded n
      in (put n (to_be_bytes digest) encoded, digest))"

lemma seal_anchor_layout:
  assumes "wf_lineage_option lineage" "n = digest_start lineage"
  shows "seal_anchor C (anchor_head lineage @ replicate 4 0 @ anchor_body f @ anchor_lineage lineage @ replicate 32 0) n
    = (anchor_image C f lineage, anchor_dg C f lineage)"
proof -
  note len = length_anchor_lineage [OF assms(1)]
  let ?h = "anchor_head lineage" and ?b = "anchor_body f" and ?l = "anchor_lineage lineage"
  have n: "n = 224 + length ?l" using assms(2) len by simp
  note layout = anchor_checksum_layout [OF _ _ _ n, of ?h _ ?b]
  have "retention_anchor_checksum C (?h @ replicate 4 0 @ ?b @ ?l @ replicate 32 0) n = anchor_ck C f lineage"
    by (rule layout(1)) simp_all
  moreover have "put 12 x (?h @ replicate 4 0 @ ?b @ ?l @ replicate 32 0) = ?h @ x @ ?b @ ?l @ replicate 32 0"
    if "length x = 4" for x
    using that by (intro put_middle) simp_all
  moreover have "retention_anchor_digest C (?h @ x @ ?b @ ?l @ replicate 32 0) n
      = blake3 C (?h @ x @ ?b @ ?l @ replicate 32 0)" if "length x = 4" for x
    using that by (intro layout(2)) simp_all
  moreover have "put n y (?h @ x @ ?b @ ?l @ replicate 32 0) = ?h @ x @ ?b @ ?l @ y"
    if "length x = 4" "length y = 32" for x y :: bytes
    using put_middle [of n "?h @ x @ ?b @ ?l" "replicate 32 0" y "[]"] that n by simp
  ultimately show ?thesis by (simp add: seal_anchor_def anchor_image_def Let_def)
qed

lemma encode_retention_anchor_layout:
  assumes "wf_lineage_option lineage"
  shows "encode_retention_anchor C f lineage = (anchor_image C f lineage, anchor_dg C f lineage)"
proof -
  let ?b = "anchor_body f" and ?l = "anchor_lineage lineage"
  have frame: "put 192 (to_be_bytes (rf_previous_anchor_digest f)) (put 184 (to_le_bytes (rf_committed_transaction_count f))
      (put 176 (to_le_bytes (rf_checkpoint_count f)) (put 160 (to_le_bytes (rf_next_transaction_id f))
      (put 128 (to_be_bytes (rf_root_commit_block_digest f)) (put 120 (to_le_bytes (get (rf_root_commit_lsn f)))
      (put 88 (to_be_bytes (rf_manifest_digest f)) (put 80 (to_le_bytes (get (rf_manifest_generation f)))
      (put 72 (to_le_bytes (get (rf_base_visible_csn f))) (put 40 (to_be_bytes (rf_retired_block_digest f))
      (put 32 (to_le_bytes (get (rf_retired_checkpoint_lsn f))) (put 24 (to_le_bytes (rf_retired_through_sequence f))
      (put 16 (to_le_bytes (rf_epoch f)) (put 10 h (put 8 v (put 0 m (replicate n 0))))))))))))))))
    = (m @ v @ h) @ replicate 4 0 @ ?b @ replicate (n - 224) 0"
    if "length m = 8" "length v = 2" "length h = 2" "224 \<le> n" for m v h :: bytes and n
    unfolding anchor_body_def using anchor_frame [OF that(1-3), where r = "n - 224"] that(4) by simp
  have "encode_retention_anchor C f lineage
      = seal_anchor C (anchor_head lineage @ replicate 4 0 @ ?b @ ?l @ replicate 32 0) (digest_start lineage)"
  proof (cases lineage)
    case None
    then show ?thesis
      by (simp add: encode_retention_anchor_def Let_def frame RETENTION_MAGIC_V1_def anchor_head_def anchor_lineage_def
          seal_anchor_def)
  next
    case (Some l)
    have lin: "put 224 (lineage_encode l) ((m @ v @ h) @ replicate 4 0 @ ?b @ replicate 56 0)
        = (m @ v @ h) @ replicate 4 0 @ ?b @ lineage_encode l @ replicate 32 0"
      if "length m = 8" "length v = 2" "length h = 2" for m v h :: bytes
      using put_zeros [of "(m @ v @ h) @ replicate 4 0 @ ?b" 224 "lineage_encode l" 56] assms that
      by (simp add: Some wf_lineage_option_def)
    with Some show ?thesis
      by (simp add: encode_retention_anchor_def Let_def frame RETENTION_MAGIC_V2_def anchor_head_def anchor_lineage_def
          seal_anchor_def)
  qed
  then show ?thesis using seal_anchor_layout [OF assms refl] by simp
qed

section \<open>The anchor codec is canonical\<close>

definition wf_anchor :: "retention_anchor \<Rightarrow> bool" where
  "wf_anchor a = (validate_retention_anchor_fields (ra_fields a) = Inr () \<and> wf_lineage_option (ra_lineage a))"

lemma anchor_image_parts:
  assumes "wf_lineage_option lineage" and e: "e = anchor_image C f lineage"
  shows "length e = digest_start lineage + 32" "seg 0 12 e = anchor_head lineage"
    "seg 12 16 e = to_le_bytes (anchor_ck C f lineage)" "seg 16 224 e = anchor_body f"
    "seg 224 (digest_start lineage) e = anchor_lineage lineage"
    "seg (digest_start lineage) (digest_start lineage + 32) e = to_be_bytes (anchor_dg C f lineage)"
  using length_anchor_lineage [OF assms(1)] by (simp_all add: e anchor_image_def seg_def)

lemma anchor_image_checks:
  assumes "wf_lineage_option lineage" and e: "e = anchor_image C f lineage"
  shows "retention_anchor_checksum C e (digest_start lineage) = anchor_ck C f lineage"
    "retention_anchor_digest C e (digest_start lineage) = anchor_dg C f lineage"
proof -
  have n: "digest_start lineage = 224 + length (anchor_lineage lineage)"
    using length_anchor_lineage [OF assms(1)] by simp
  show "retention_anchor_checksum C e (digest_start lineage) = anchor_ck C f lineage"
    unfolding e anchor_image_def by (rule anchor_checksum_layout(1) [OF _ _ _ n]) simp_all
  show "retention_anchor_digest C e (digest_start lineage) = anchor_dg C f lineage"
    unfolding e anchor_image_def by (rule anchor_checksum_layout(2) [OF _ _ _ n]) simp_all
qed

lemma anchor_preamble_iff:
  "(anchor_preamble e = Inr (n, lineage))
    = (wf_lineage_option lineage \<and> n = digest_start lineage \<and> length e = n + 32
       \<and> seg 0 12 e = anchor_head lineage \<and> seg 224 n e = anchor_lineage lineage)"
proof -
  have segs: "seg 0 12 e = seg 0 8 e @ seg 8 10 e @ seg 10 12 e" by (simp flip: seg_split)
  have head: "(seg 0 12 e = m @ to_le_bytes v @ to_le_bytes h)
      = (seg 0 8 e = m \<and> (from_le_bytes (seg 8 10 e) :: u16) = v \<and> (from_le_bytes (seg 10 12 e) :: u16) = h)"
    if "length e \<ge> 12" "length m = 8" for m :: bytes and v h :: u16
    unfolding segs using that by (simp add: append_eq_append_conv from_le_bytes_iff)
  have lin: "(lineage_decode x = Inr l) = (wf_lineage l \<and> x = lineage_encode l)" for x l
    using lineage.dec_iff [of x l] by auto
  show ?thesis
    by (cases lineage)
      (auto simp: anchor_preamble_def anchor_head_def anchor_lineage_def wf_lineage_option_def head lin result_simps
        RETENTION_MAGIC_V1_def RETENTION_MAGIC_V2_def seg_def [of 224 224] split: if_splits)
qed

lemma anchor_body_segs:
  assumes "224 \<le> length e"
  shows "seg 16 224 e = seg 16 24 e @ seg 24 32 e @ seg 32 40 e @ seg 40 72 e @ seg 72 80 e @ seg 80 88 e
    @ seg 88 120 e @ seg 120 128 e @ seg 128 160 e @ seg 160 176 e @ seg 176 184 e @ seg 184 192 e @ seg 192 224 e"
  by (simp flip: seg_split)

lemma anchor_body_iff:
  assumes "224 \<le> length e"
  shows "(seg 16 224 e = anchor_body f)
    = (seg 16 24 e = to_le_bytes (rf_epoch f) \<and> seg 24 32 e = to_le_bytes (rf_retired_through_sequence f)
       \<and> seg 32 40 e = to_le_bytes (get (rf_retired_checkpoint_lsn f))
       \<and> seg 40 72 e = to_be_bytes (rf_retired_block_digest f)
       \<and> seg 72 80 e = to_le_bytes (get (rf_base_visible_csn f))
       \<and> seg 80 88 e = to_le_bytes (get (rf_manifest_generation f))
       \<and> seg 88 120 e = to_be_bytes (rf_manifest_digest f)
       \<and> seg 120 128 e = to_le_bytes (get (rf_root_commit_lsn f))
       \<and> seg 128 160 e = to_be_bytes (rf_root_commit_block_digest f)
       \<and> seg 160 176 e = to_le_bytes (rf_next_transaction_id f)
       \<and> seg 176 184 e = to_le_bytes (rf_checkpoint_count f)
       \<and> seg 184 192 e = to_le_bytes (rf_committed_transaction_count f)
       \<and> seg 192 224 e = to_be_bytes (rf_previous_anchor_digest f))"
  unfolding anchor_body_segs [OF assms] anchor_body_def using assms
  by (simp add: append_eq_append_conv)

lemma anchor_partition:
  assumes "length e = n + 32" "224 \<le> n"
  shows "e = seg 0 12 e @ seg 12 16 e @ seg 16 224 e @ seg 224 n e @ seg n (n + 32) e"
  using assms seg_all [of e] by (simp flip: seg_split)

lemma retention_fields_eta:
  "\<lparr>rf_epoch = rf_epoch f, rf_retired_through_sequence = rf_retired_through_sequence f,
    rf_retired_checkpoint_lsn = rf_retired_checkpoint_lsn f, rf_retired_block_digest = rf_retired_block_digest f,
    rf_base_visible_csn = rf_base_visible_csn f, rf_manifest_generation = rf_manifest_generation f,
    rf_manifest_digest = rf_manifest_digest f, rf_root_commit_lsn = rf_root_commit_lsn f,
    rf_root_commit_block_digest = rf_root_commit_block_digest f, rf_next_transaction_id = rf_next_transaction_id f,
    rf_checkpoint_count = rf_checkpoint_count f, rf_committed_transaction_count = rf_committed_transaction_count f,
    rf_previous_anchor_digest = rf_previous_anchor_digest f\<rparr> = f"
  by (rule retention_fields.equality) simp_all

lemma retention_anchor_eta: "\<lparr>ra_fields = ra_fields a, ra_lineage = ra_lineage a\<rparr> = a"
  by (rule retention_anchor.equality) simp_all

lemma anchor_decode_encoded:
  assumes "wf_anchor a" "e = anchor_encode C a"
  shows "anchor_decode C e = Inr a"
proof -
  let ?l = "ra_lineage a" and ?f = "ra_fields a"
  have lin: "wf_lineage_option ?l" and valid: "validate_retention_anchor_fields ?f = Inr ()"
    using assms(1) by (simp_all add: wf_anchor_def)
  have e: "e = anchor_image C ?f ?l" using assms(2) by (simp add: anchor_encode_def encode_retention_anchor_layout [OF lin])
  note parts = anchor_image_parts [OF lin e] and checks = anchor_image_checks [OF lin e]
  have pre: "anchor_preamble e = Inr (digest_start ?l, ?l)" using lin parts by (simp add: anchor_preamble_iff)
  have body: "seg 16 224 e = anchor_body ?f" and len: "224 \<le> length e" using parts by simp_all
  note segs = body [unfolded anchor_body_iff [OF len]]
  have "retention_digest C a = anchor_dg C ?f ?l" by (simp add: retention_digest_def encode_retention_anchor_layout [OF lin])
  then show ?thesis
    using segs by (simp add: anchor_decode_def pre checks parts(3,6) anchor_identity_def map_err_def
      retention_anchor_new_def valid Let_def retention_fields_eta retention_anchor_eta)
qed

lemma anchor_encode_decoded:
  assumes "anchor_decode C e = Inr a"
  shows "wf_anchor a \<and> e = anchor_encode C a"
proof -
  let ?l = "ra_lineage a" and ?f = "ra_fields a"
  from assms obtain n where pre: "anchor_preamble e = Inr (n, ?l)"
    and ck: "retention_anchor_checksum C e n = from_le_bytes (seg 12 16 e)"
    and dg: "retention_anchor_digest C e n = from_be_bytes (seg n (n + 32) e)"
    and valid: "validate_retention_anchor_fields ?f = Inr ()"
    and fields: "from_le_bytes (seg 16 24 e) = rf_epoch ?f"
      "from_le_bytes (seg 24 32 e) = rf_retired_through_sequence ?f"
      "from_le_bytes (seg 32 40 e) = get (rf_retired_checkpoint_lsn ?f)"
      "from_be_bytes (seg 40 72 e) = rf_retired_block_digest ?f"
      "from_le_bytes (seg 72 80 e) = get (rf_base_visible_csn ?f)"
      "from_le_bytes (seg 80 88 e) = get (rf_manifest_generation ?f)"
      "from_be_bytes (seg 88 120 e) = rf_manifest_digest ?f"
      "from_le_bytes (seg 120 128 e) = get (rf_root_commit_lsn ?f)"
      "from_be_bytes (seg 128 160 e) = rf_root_commit_block_digest ?f"
      "from_le_bytes (seg 160 176 e) = rf_next_transaction_id ?f"
      "from_le_bytes (seg 176 184 e) = rf_checkpoint_count ?f"
      "from_le_bytes (seg 184 192 e) = rf_committed_transaction_count ?f"
      "from_be_bytes (seg 192 224 e) = rf_previous_anchor_digest ?f"
    by (auto simp: anchor_decode_def anchor_identity_def retention_anchor_new_def Let_def result_simps
        split: if_splits)
  have lin: "wf_lineage_option ?l" and n: "n = digest_start ?l" "length e = n + 32" "224 \<le> n"
    and head: "seg 0 12 e = anchor_head ?l" "seg 224 n e = anchor_lineage ?l"
    using pre by (auto simp: anchor_preamble_iff)
  have body: "seg 16 224 e = anchor_body ?f"
    using fields n(2,3) by (subst anchor_body_iff) (simp_all add: from_le_bytes_iff from_be_bytes_iff)
  have e: "e = anchor_head ?l @ seg 12 16 e @ anchor_body ?f @ anchor_lineage ?l @ seg n (n + 32) e"
    using anchor_partition [OF n(2,3)] by (simp only: head body)
  have start: "n = 224 + length (anchor_lineage ?l)" using n(1) length_anchor_lineage [OF lin] by simp
  have "retention_anchor_checksum C e n = anchor_ck C ?f ?l"
    by (subst e, rule anchor_checksum_layout(1) [OF _ _ _ start]) (use n in simp_all)
  then have ck': "seg 12 16 e = to_le_bytes (anchor_ck C ?f ?l)"
    using ck n(2,3) by (simp add: eq_commute [of _ "from_le_bytes _"] from_le_bytes_iff)
  have "retention_anchor_digest C e n = anchor_dg C ?f ?l"
    unfolding ck' [symmetric]
    by (subst e, rule anchor_checksum_layout(2) [OF _ _ _ start]) (use n in simp_all)
  then have "seg n (n + 32) e = to_be_bytes (anchor_dg C ?f ?l)"
    using dg n(2) by (simp add: eq_commute [of _ "from_be_bytes _"] from_be_bytes_iff)
  with e ck' have "e = anchor_image C ?f ?l" by (simp add: anchor_image_def)
  with lin valid show ?thesis
    by (simp add: wf_anchor_def anchor_encode_def encode_retention_anchor_layout)
qed

interpretation retention_anchor: canonical_codec wf_anchor "\<lambda>a. Inr (anchor_encode C a) :: wal_error + bytes"
    "anchor_decode C" for C
  by unfold_locales (auto simp: anchor_decode_encoded dest: anchor_encode_decoded)

text \<open>C28. Retention anchors are canonical: the decoder accepts exactly the version 1 and version 2
  encodings of anchors with valid fields and lineage, with their checksum and digest, and returns
  the anchor.\<close>

theorem retention_anchor_canonical:
  "(anchor_decode C encoded = Inr a) = (wf_anchor a \<and> encoded = anchor_encode C a)"
  using retention_anchor.dec_iff [of C encoded a] by auto

section \<open>The store\<close>

record retention_store =
  rs_anchors :: "retention_anchor list"
  rs_candidate :: "retention_anchor option"
  rs_ignored_temporary_files :: nat

definition retention_anchor_stem :: "u64 \<Rightarrow> string" where
  "retention_anchor_stem epoch = ''wal-anchor-'' @ digits 10 20 (unat epoch)"

definition final_name :: "u64 \<Rightarrow> file_name" where
  "final_name epoch = Utf8 (retention_anchor_stem epoch @ ''.hywa'')"

definition temporary_name :: "u64 \<Rightarrow> file_name" where
  "temporary_name epoch = Utf8 (retention_anchor_stem epoch @ ''.hywa.tmp'')"

definition candidate_name :: "u64 \<Rightarrow> file_name" where
  "candidate_name epoch = Utf8 (retention_anchor_stem epoch @ ''.hywa.pending'')"

definition parse_retention_anchor_epoch :: "string \<Rightarrow> u64 option" where
  "parse_retention_anchor_epoch = parse_fixed 10 20"

definition parse_retention_name :: "string \<Rightarrow> string \<Rightarrow> u64 option" where
  "parse_retention_name suffix name =
     (case strip_prefix ''wal-anchor-'' name of
        None \<Rightarrow> None
      | Some s \<Rightarrow> (case strip_suffix suffix s of None \<Rightarrow> None | Some v \<Rightarrow> parse_retention_anchor_epoch v))"

definition parse_retention_anchor_filename :: "string \<Rightarrow> u64 option" where
  "parse_retention_anchor_filename = parse_retention_name ''.hywa''"

definition parse_retention_anchor_temporary_filename :: "string \<Rightarrow> u64 option" where
  "parse_retention_anchor_temporary_filename = parse_retention_name ''.hywa.tmp''"

definition parse_retention_anchor_candidate_filename :: "string \<Rightarrow> u64 option" where
  "parse_retention_anchor_candidate_filename = parse_retention_name ''.hywa.pending''"

definition is_retention_name :: "string \<Rightarrow> bool" where
  "is_retention_name name = (strip_prefix ''wal-anchor-'' name \<noteq> None)"

text \<open>\<^verbatim>\<open>create\<close>: no entry of the data directory may be a retention entry.\<close>

fun retention_create :: "directory \<Rightarrow> wal_error + retention_store" where
  "retention_create [] = Inr \<lparr>rs_anchors = [], rs_candidate = None, rs_ignored_temporary_files = 0\<rparr>"
| "retention_create ((n, e) # d) =
     (case n of
        NotUtf8 _ \<Rightarrow> Inl UnexpectedRetentionEntry
      | Utf8 name \<Rightarrow>
          if is_retention_name name then Inl RetentionPublicationTargetExists else retention_create d)"

text \<open>The scan of the directory: final, candidate and temporary names with their contents.\<close>

type_synonym anchor_file = "u64 \<times> file_name \<times> bytes"

fun retention_scan ::
    "directory \<Rightarrow> anchor_file list \<Rightarrow> anchor_file list \<Rightarrow> file_name list
      \<Rightarrow> wal_error + (anchor_file list \<times> anchor_file list \<times> file_name list)"
where
  "retention_scan [] finals candidates temporary = Inr (finals, candidates, temporary)"
| "retention_scan ((n, e) # d) finals candidates temporary =
     (case n of
        NotUtf8 _ \<Rightarrow> Inl UnexpectedRetentionEntry
      | Utf8 name \<Rightarrow>
          if \<not> is_retention_name name then retention_scan d finals candidates temporary
          else (case e of
              NotFile \<Rightarrow> Inl UnexpectedRetentionEntry
            | File content \<Rightarrow>
                (case parse_retention_anchor_filename name of
                   Some epoch \<Rightarrow> retention_scan d (finals @ [(epoch, n, content)]) candidates temporary
                 | None \<Rightarrow>
                     if parse_retention_anchor_temporary_filename name \<noteq> None
                     then retention_scan d finals candidates (temporary @ [n])
                     else (case parse_retention_anchor_candidate_filename name of
                         Some epoch \<Rightarrow> retention_scan d finals (candidates @ [(epoch, n, content)]) temporary
                       | None \<Rightarrow> Inl UnexpectedRetentionEntry))))"

definition read_anchor :: "crypto \<Rightarrow> fs_outcome \<Rightarrow> anchor_file \<Rightarrow> wal_error + retention_anchor" where
  "read_anchor C io = (\<lambda>(epoch, n, content). if \<not> read_ok io n then Inl Io else anchor_decode C content)"

fun read_finals ::
    "crypto \<Rightarrow> fs_outcome \<Rightarrow> anchor_file list \<Rightarrow> retention_anchor list \<Rightarrow> wal_error + retention_anchor list"
where
  "read_finals C io [] anchors = Inr anchors"
| "read_finals C io (f # finals) anchors =
     attempt (read_anchor C io f) (\<lambda>anchor.
     if rf_epoch (ra_fields anchor) \<noteq> fst f then Inl InvalidRetentionAnchorChain
     else if anchors \<noteq> [] \<and> ra_lineage (last anchors) \<noteq> ra_lineage anchor
     then Inl RetentionAnchorLineageMismatch
     else read_finals C io finals (anchors @ [anchor]))"

definition expected_next :: "crypto \<Rightarrow> retention_anchor list \<Rightarrow> wal_error + (u64 \<times> digest)" where
  "expected_next C anchors =
     (if anchors = [] then Inr (1, 0)
      else attempt (ok_or InvalidRetentionAnchorChain (checked_add (rf_epoch (ra_fields (last anchors))) 1)) (\<lambda>next_epoch.
        Inr (next_epoch, retention_digest C (last anchors))))"

definition read_candidate ::
    "crypto \<Rightarrow> fs_outcome \<Rightarrow> anchor_file list \<Rightarrow> retention_anchor list \<Rightarrow> wal_error + retention_anchor option"
where
  "read_candidate C io candidates anchors =
     (if candidates = [] then Inr None
      else
        attempt (read_anchor C io (last candidates)) (\<lambda>candidate.
        attempt (expected_next C anchors) (\<lambda>expected.
        if rf_epoch (ra_fields candidate) \<noteq> fst (last candidates)
          \<or> (rf_epoch (ra_fields candidate), rf_previous_anchor_digest (ra_fields candidate)) \<noteq> expected
        then Inl InvalidRetentionAnchorChain
        else if anchors \<noteq> [] \<and> ra_lineage (last anchors) \<noteq> ra_lineage candidate
        then Inl RetentionAnchorLineageMismatch
        else Inr (Some candidate))))"

definition pair_chained :: "crypto \<Rightarrow> retention_anchor list \<Rightarrow> bool" where
  "pair_chained C anchors =
     (case anchors of
        [prior, candidate] \<Rightarrow>
          checked_add (rf_epoch (ra_fields prior)) 1 = Some (rf_epoch (ra_fields candidate))
          \<and> rf_previous_anchor_digest (ra_fields candidate) = retention_digest C prior
      | _ \<Rightarrow> True)"

definition retention_open ::
    "crypto \<Rightarrow> fs_outcome \<Rightarrow> directory \<Rightarrow> (wal_error + retention_store) \<times> directory"
where
  "retention_open C io d =
     (if \<not> read_dir_ok io then (Inl Io, d)
      else (case retention_scan d [] [] [] of
          Inl e \<Rightarrow> (Inl e, d)
        | Inr (finals, candidates, temporary) \<Rightarrow>
            let finals = sort_key fst finals in
            if length finals > 2 \<or> length candidates > 1 \<or> (length finals = 2 \<and> candidates \<noteq> [])
            then (Inl InvalidRetentionAnchorChain, d)
            else (case attempt (read_finals C io finals []) (\<lambda>anchors.
                         attempt (read_candidate C io candidates anchors) (\<lambda>candidate.
                         if \<not> pair_chained C anchors then Inl InvalidRetentionAnchorChain
                         else Inr (anchors, candidate))) of
                Inl e \<Rightarrow> (Inl e, d)
              | Inr (anchors, candidate) \<Rightarrow>
                  (case remove_files io temporary d of
                     (False, d) \<Rightarrow> (Inl Io, d)
                   | (True, d) \<Rightarrow>
                       if temporary \<noteq> [] \<and> \<not> dir_sync_ok io then (Inl Io, d)
                       else (Inr \<lparr>rs_anchors = anchors, rs_candidate = candidate,
                           rs_ignored_temporary_files = length temporary\<rparr>, d)))))"

definition validate_next :: "crypto \<Rightarrow> retention_store \<Rightarrow> retention_anchor \<Rightarrow> wal_error + unit" where
  "validate_next C s anchor =
     (if length (rs_anchors s) \<ge> 2 \<or> rs_candidate s \<noteq> None then Inl InvalidRetentionAnchorChain
      else if rs_anchors s \<noteq> [] \<and> ra_lineage (last (rs_anchors s)) \<noteq> ra_lineage anchor
      then Inl RetentionAnchorLineageMismatch
      else
        attempt (expected_next C (rs_anchors s)) (\<lambda>(expected_epoch, expected_previous_digest).
        if rf_epoch (ra_fields anchor) \<noteq> expected_epoch
          \<or> rf_previous_anchor_digest (ra_fields anchor) \<noteq> expected_previous_digest
        then Inl InvalidRetentionAnchorChain
        else Inr ()))"

definition validate_lineage :: "retention_store \<Rightarrow> lineage_identity \<Rightarrow> wal_error + unit" where
  "validate_lineage s expected =
     (if list_ex (\<lambda>a. ra_lineage a \<noteq> Some expected) (rs_anchors s)
        \<or> (case rs_candidate s of None \<Rightarrow> False | Some a \<Rightarrow> ra_lineage a \<noteq> Some expected)
      then Inl RetentionAnchorLineageMismatch
      else Inr ())"

text \<open>Staging returns the staged anchor; its paths are determined by its epoch.\<close>

definition retention_stage ::
    "crypto \<Rightarrow> fs_outcome \<Rightarrow> retention_store \<Rightarrow> directory \<Rightarrow> retention_anchor \<Rightarrow> bool
      \<Rightarrow> (wal_error + retention_anchor) \<times> directory"
where
  "retention_stage C io s d anchor synchronize =
     (case validate_next C s anchor of
        Inl e \<Rightarrow> (Inl e, d)
      | Inr _ \<Rightarrow>
          let epoch = rf_epoch (ra_fields anchor) in
          if dir_exists d (temporary_name epoch) \<or> dir_exists d (candidate_name epoch)
            \<or> dir_exists d (final_name epoch)
          then (Inl RetentionPublicationTargetExists, d)
          else if \<not> create_ok io then (Inl Io, d)
          else (case write_fault io of
              Some k \<Rightarrow> (Inl Io, dir_put (temporary_name epoch) (take k (anchor_encode C anchor)) d)
            | None \<Rightarrow>
                let d = dir_put (temporary_name epoch) (anchor_encode C anchor) d in
                if synchronize \<and> \<not> file_sync_ok io then (Inl Io, d) else (Inr anchor, d)))"

definition publish_candidate ::
    "crypto \<Rightarrow> fs_outcome \<Rightarrow> retention_store \<Rightarrow> directory \<Rightarrow> retention_anchor \<Rightarrow> bool
      \<Rightarrow> (wal_error + retention_anchor) \<times> retention_store \<times> directory"
where
  "publish_candidate C io s d anchor synchronize =
     (case validate_next C s anchor of
        Inl e \<Rightarrow> (Inl e, s, d)
      | Inr _ \<Rightarrow>
          let epoch = rf_epoch (ra_fields anchor) in
          if dir_exists d (candidate_name epoch) then (Inl RetentionPublicationTargetExists, s, d)
          else if \<not> rename_ok io \<or> \<not> dir_exists d (temporary_name epoch) then (Inl Io, s, d)
          else
            let d = dir_rename (temporary_name epoch) (candidate_name epoch) d in
            if synchronize \<and> \<not> dir_sync_ok io then (Inl Io, s, d)
            else (Inr anchor, s\<lparr>rs_candidate := Some anchor\<rparr>, d))"

definition stabilize_candidate ::
    "fs_outcome \<Rightarrow> retention_store \<Rightarrow> directory \<Rightarrow> u64 \<Rightarrow> bool
      \<Rightarrow> (wal_error + retention_anchor) \<times> retention_store \<times> directory"
where
  "stabilize_candidate io s d epoch synchronize =
     (case rs_candidate s of
        None \<Rightarrow> (Inl InvalidRetentionAnchorChain, s, d)
      | Some candidate \<Rightarrow>
          if rf_epoch (ra_fields candidate) \<noteq> epoch then (Inl InvalidRetentionAnchorChain, s, d)
          else if dir_exists d (final_name epoch) then (Inl RetentionPublicationTargetExists, s, d)
          else if \<not> rename_ok io \<or> \<not> dir_exists d (candidate_name epoch) then (Inl Io, s, d)
          else
            let d = dir_rename (candidate_name epoch) (final_name epoch) d in
            if synchronize \<and> \<not> dir_sync_ok io then (Inl Io, s, d)
            else (Inr candidate, s\<lparr>rs_anchors := rs_anchors s @ [candidate], rs_candidate := None\<rparr>, d))"

definition remove_before ::
    "fs_outcome \<Rightarrow> retention_store \<Rightarrow> directory \<Rightarrow> u64 \<Rightarrow> bool
      \<Rightarrow> (wal_error + nat) \<times> retention_store \<times> directory"
where
  "remove_before io s d retained_epoch synchronize =
     (if \<not> list_ex (\<lambda>a. rf_epoch (ra_fields a) = retained_epoch) (rs_anchors s)
      then (Inl InvalidRetentionAnchorChain, s, d)
      else
        let obsolete = filter (\<lambda>a. rf_epoch (ra_fields a) < retained_epoch) (rs_anchors s) in
        (case remove_files io (map (\<lambda>a. final_name (rf_epoch (ra_fields a))) obsolete) d of
           (False, d) \<Rightarrow> (Inl Io, s, d)
         | (True, d) \<Rightarrow>
             let s = s\<lparr>rs_anchors := filter (\<lambda>a. rf_epoch (ra_fields a) \<ge> retained_epoch) (rs_anchors s)\<rparr> in
             if synchronize \<and> obsolete \<noteq> [] \<and> \<not> dir_sync_ok io then (Inl Io, s, d)
             else (Inr (length obsolete), s, d)))"

end
