(* ===== verification/WalRetentionStore.thy ===== *)
theory WalRetentionStore
  imports WalRetention
begin

text \<open>
  The retention store against the directory it manages: after any sequence of operations, with
  any file-system failures, the directory opens to a valid chain of anchors, namely the one the
  store holds or the one after a publication or stabilization that was reported as failed; and the
  store holds what was reported to its clients.
\<close>

section \<open>File names\<close>

lemma parse_retention_name_iff:
  "(parse_retention_name suffix name = Some epoch)
    = (name = retention_anchor_stem epoch @ suffix \<and> epoch \<noteq> 0)"
proof -
  have parse: "(parse_retention_anchor_epoch v = Some epoch) = (v = digits 10 20 (unat epoch) \<and> epoch \<noteq> 0)" for v
    unfolding parse_retention_anchor_epoch_def by (rule parse_fixed_iff) simp_all
  have "(parse_retention_name suffix name = Some epoch)
      = (\<exists>v. name = ''wal-anchor-'' @ v @ suffix \<and> parse_retention_anchor_epoch v = Some epoch)"
    unfolding parse_retention_name_def by (rule strip_affixes_iff)
  then show ?thesis by (auto simp: parse retention_anchor_stem_def)
qed

lemma is_retention_name_iff: "is_retention_name name = (\<exists>t. name = ''wal-anchor-'' @ t)"
  using strip_prefix_iff [of "''wal-anchor-''" name] by (auto simp: is_retention_name_def)

lemma stem_inj [simp]:
  "(retention_anchor_stem a @ s = retention_anchor_stem b @ t) = (a = b \<and> s = t)"
proof -
  have "(digits 10 20 (unat a) = digits 10 20 (unat b)) = (a = b)"
    by (rule digits_inj) simp_all
  then show ?thesis by (auto simp: retention_anchor_stem_def append_eq_append_conv)
qed

lemma stem_eq [simp]: "(retention_anchor_stem a = retention_anchor_stem b) = (a = b)"
  using stem_inj [of a "[]" b "[]"] by simp

lemma names_distinct [simp]:
  "(final_name a = final_name b) = (a = b)" "(temporary_name a = temporary_name b) = (a = b)"
  "(candidate_name a = candidate_name b) = (a = b)"
  "final_name a \<noteq> temporary_name b" "final_name a \<noteq> candidate_name b" "temporary_name a \<noteq> candidate_name b"
  "temporary_name b \<noteq> final_name a" "candidate_name b \<noteq> final_name a" "candidate_name b \<noteq> temporary_name a"
  by (auto simp: final_name_def temporary_name_def candidate_name_def)

lemma parse_names [simp]:
  assumes "epoch \<noteq> 0"
  shows "parse_retention_anchor_filename (retention_anchor_stem epoch @ ''.hywa'') = Some epoch"
    "parse_retention_anchor_filename (retention_anchor_stem epoch @ ''.hywa.tmp'') = None"
    "parse_retention_anchor_filename (retention_anchor_stem epoch @ ''.hywa.pending'') = None"
    "parse_retention_anchor_temporary_filename (retention_anchor_stem epoch @ ''.hywa.tmp'') = Some epoch"
    "parse_retention_anchor_temporary_filename (retention_anchor_stem epoch @ ''.hywa.pending'') = None"
    "parse_retention_anchor_candidate_filename (retention_anchor_stem epoch @ ''.hywa.pending'') = Some epoch"
    "parse_retention_anchor_candidate_filename (retention_anchor_stem epoch @ ''.hywa.tmp'') = None"
    "parse_retention_anchor_candidate_filename (retention_anchor_stem epoch @ ''.hywa'') = None"
proof -
  have none: "parse_retention_name suffix name = None"
    if "\<And>e. name \<noteq> retention_anchor_stem e @ suffix" for suffix name
    using that parse_retention_name_iff [of suffix name] by (cases "parse_retention_name suffix name") auto
  show "parse_retention_anchor_filename (retention_anchor_stem epoch @ ''.hywa'') = Some epoch"
    "parse_retention_anchor_temporary_filename (retention_anchor_stem epoch @ ''.hywa.tmp'') = Some epoch"
    "parse_retention_anchor_candidate_filename (retention_anchor_stem epoch @ ''.hywa.pending'') = Some epoch"
    using assms
    by (simp_all add: parse_retention_anchor_filename_def parse_retention_anchor_temporary_filename_def
        parse_retention_anchor_candidate_filename_def parse_retention_name_iff)
  show "parse_retention_anchor_filename (retention_anchor_stem epoch @ ''.hywa.tmp'') = None"
    "parse_retention_anchor_filename (retention_anchor_stem epoch @ ''.hywa.pending'') = None"
    "parse_retention_anchor_temporary_filename (retention_anchor_stem epoch @ ''.hywa.pending'') = None"
    "parse_retention_anchor_candidate_filename (retention_anchor_stem epoch @ ''.hywa.tmp'') = None"
    "parse_retention_anchor_candidate_filename (retention_anchor_stem epoch @ ''.hywa'') = None"
    unfolding parse_retention_anchor_filename_def parse_retention_anchor_temporary_filename_def
      parse_retention_anchor_candidate_filename_def
    by (intro none; simp)+
qed

section \<open>What a directory holds\<close>

definition epoch_of :: "retention_anchor \<Rightarrow> u64" where
  "epoch_of a = rf_epoch (ra_fields a)"

definition final_entry :: "crypto \<Rightarrow> retention_anchor \<Rightarrow> file_name \<times> entry" where
  "final_entry C a = (final_name (epoch_of a), File (anchor_encode C a))"

definition candidate_entry :: "crypto \<Rightarrow> retention_anchor \<Rightarrow> file_name \<times> entry" where
  "candidate_entry C a = (candidate_name (epoch_of a), File (anchor_encode C a))"

definition other_entry :: "file_name \<times> entry \<Rightarrow> bool" where
  "other_entry x = (\<exists>name. fst x = Utf8 name \<and> \<not> is_retention_name name)"

definition temporary_entry :: "file_name \<times> entry \<Rightarrow> bool" where
  "temporary_entry x = (\<exists>epoch content. x = (temporary_name epoch, File content) \<and> epoch \<noteq> 0)"

definition holds :: "crypto \<Rightarrow> directory \<Rightarrow> retention_anchor list \<Rightarrow> retention_anchor option \<Rightarrow> bool" where
  "holds C d anchors candidate =
     (wf_directory d
      \<and> final_entry C ` set anchors \<union> candidate_entry C ` set_option candidate \<subseteq> set d
      \<and> (\<forall>x\<in>set d. other_entry x \<or> temporary_entry x \<or> x \<in> final_entry C ` set anchors
           \<or> x \<in> candidate_entry C ` set_option candidate))"

text \<open>The anchors of a store: at most two, chained, with at most one candidate continuing them.\<close>

definition valid_chain :: "crypto \<Rightarrow> retention_anchor list \<Rightarrow> retention_anchor option \<Rightarrow> bool" where
  "valid_chain C anchors candidate =
     ((\<forall>a\<in>set anchors \<union> set_option candidate. wf_anchor a)
      \<and> (case (anchors, candidate) of
           ([], None) \<Rightarrow> True
         | ([], Some c) \<Rightarrow> epoch_of c = 1 \<and> rf_previous_anchor_digest (ra_fields c) = 0
         | ([a], None) \<Rightarrow> True
         | ([a], Some c) \<Rightarrow> checked_add (epoch_of a) 1 = Some (epoch_of c)
             \<and> rf_previous_anchor_digest (ra_fields c) = retention_digest C a \<and> ra_lineage a = ra_lineage c
         | ([a, b], None) \<Rightarrow> checked_add (epoch_of a) 1 = Some (epoch_of b)
             \<and> rf_previous_anchor_digest (ra_fields b) = retention_digest C a \<and> ra_lineage a = ra_lineage b
         | _ \<Rightarrow> False))"

lemma wf_anchor_epoch: "wf_anchor a \<Longrightarrow> epoch_of a \<noteq> 0"
  by (auto simp: wf_anchor_def epoch_of_def validate_retention_anchor_fields_def Let_def result_simps split: if_splits)

lemma retention_names [simp]:
  "is_retention_name (retention_anchor_stem e @ s)"
  by (simp add: is_retention_name_iff retention_anchor_stem_def)

abbreviation final_file :: "file_name \<times> entry \<Rightarrow> anchor_file option" where
  "final_file \<equiv> named_file parse_retention_anchor_filename"

abbreviation candidate_file :: "file_name \<times> entry \<Rightarrow> anchor_file option" where
  "candidate_file \<equiv> named_file parse_retention_anchor_candidate_filename"

lemma not_retention_parse: "\<not> is_retention_name name \<Longrightarrow> parse_retention_name suffix name = None"
  by (simp add: parse_retention_name_def is_retention_name_def split: option.splits)

lemma other_entry_files:
  "other_entry x \<Longrightarrow> final_file x = None \<and> candidate_file x = None \<and> \<not> temporary_entry x"
  by (auto simp: other_entry_def named_file_def temporary_entry_def temporary_name_def not_retention_parse
      parse_retention_anchor_filename_def parse_retention_anchor_candidate_filename_def
      split: prod.splits file_name.splits entry.splits)

lemma temporary_entry_files:
  "temporary_entry x \<Longrightarrow> final_file x = None \<and> candidate_file x = None"
  by (auto simp: temporary_entry_def temporary_name_def named_file_def)

lemma final_entry_files:
  "wf_anchor a \<Longrightarrow> final_file (final_entry C a) = Some (epoch_of a, final_name (epoch_of a), anchor_encode C a)
    \<and> candidate_file (final_entry C a) = None \<and> \<not> temporary_entry (final_entry C a)"
  using wf_anchor_epoch [of a]
  by (auto simp: final_entry_def temporary_entry_def named_file_def) (simp_all add: final_name_def)

lemma candidate_entry_files:
  "wf_anchor a \<Longrightarrow> candidate_file (candidate_entry C a) = Some (epoch_of a, candidate_name (epoch_of a), anchor_encode C a)
    \<and> final_file (candidate_entry C a) = None \<and> \<not> temporary_entry (candidate_entry C a)"
  using wf_anchor_epoch [of a]
  by (auto simp: candidate_entry_def temporary_entry_def named_file_def) (simp_all add: candidate_name_def)

text \<open>The scan sorts the entries of a valid directory into finals, candidates and temporaries.\<close>

lemma retention_scan_valid:
  assumes "\<forall>x\<in>set d. other_entry x \<or> temporary_entry x \<or> (\<exists>a. wf_anchor a \<and> x \<in> {final_entry C a, candidate_entry C a})"
  shows "retention_scan d finals candidates temporary
    = Inr (finals @ List.map_filter final_file d, candidates @ List.map_filter candidate_file d,
        temporary @ map fst (filter temporary_entry d))"
  using assms
proof (induction d arbitrary: finals candidates temporary)
  case (Cons x d)
  from Cons.prems consider "other_entry x" | "temporary_entry x" | a where "wf_anchor a" "x = final_entry C a"
    | a where "wf_anchor a" "x = candidate_entry C a"
    by auto
  then show ?case
  proof cases
    case 1
    with Cons other_entry_files [OF 1] show ?thesis
      by (cases x) (auto simp: other_entry_def map_filter_simps)
  next
    case 2
    then obtain epoch content where "x = (temporary_name epoch, File content)" "epoch \<noteq> 0"
      by (auto simp: temporary_entry_def)
    with Cons temporary_entry_files [OF 2] 2 show ?thesis by (simp add: temporary_name_def map_filter_simps)
  next
    case 3
    with Cons final_entry_files [OF 3(1), of C] wf_anchor_epoch [OF 3(1)] show ?thesis
      by (simp add: final_entry_def final_name_def map_filter_simps)
  next
    case 4
    with Cons candidate_entry_files [OF 4(1), of C] wf_anchor_epoch [OF 4(1)] show ?thesis
      by (simp add: candidate_entry_def candidate_name_def map_filter_simps)
  qed
qed (simp add: map_filter_simps)

definition final_of :: "crypto \<Rightarrow> retention_anchor \<Rightarrow> anchor_file" where
  "final_of C a = (epoch_of a, final_name (epoch_of a), anchor_encode C a)"

definition candidate_of :: "crypto \<Rightarrow> retention_anchor \<Rightarrow> anchor_file" where
  "candidate_of C a = (epoch_of a, candidate_name (epoch_of a), anchor_encode C a)"

lemma holds_finals:
  assumes "holds C d anchors candidate" "\<forall>a\<in>set anchors \<union> set_option candidate. wf_anchor a"
  shows "set (List.map_filter final_file d) = final_of C ` set anchors"
    "set (List.map_filter candidate_file d) = candidate_of C ` set_option candidate"
proof -
  have cases: "x \<in> set d \<Longrightarrow> other_entry x \<or> temporary_entry x \<or> x \<in> final_entry C ` set anchors
      \<or> x \<in> candidate_entry C ` set_option candidate" for x
    using assms(1) by (simp add: holds_def)
  have sub: "a \<in> set anchors \<Longrightarrow> final_entry C a \<in> set d" "a \<in> set_option candidate \<Longrightarrow> candidate_entry C a \<in> set d" for a
    using assms(1) by (auto simp: holds_def)
  note files = other_entry_files temporary_entry_files final_entry_files candidate_entry_files
  show "set (List.map_filter final_file d) = final_of C ` set anchors"
  proof (intro set_eqI iffI)
    fix y assume "y \<in> set (List.map_filter final_file d)"
    then obtain x where x: "x \<in> set d" "final_file x = Some y" by (auto simp: set_map_filter)
    from cases [OF x(1)] x(2) assms(2) show "y \<in> final_of C ` set anchors"
      by (auto simp: final_of_def final_entry_files candidate_entry_files dest: other_entry_files temporary_entry_files)
  next
    fix y assume "y \<in> final_of C ` set anchors"
    then obtain a where a: "a \<in> set anchors" "y = final_of C a" by blast
    with sub(1) final_entry_files [of a C] assms(2) show "y \<in> set (List.map_filter final_file d)"
      by (auto simp: set_map_filter final_of_def)
  qed
  show "set (List.map_filter candidate_file d) = candidate_of C ` set_option candidate"
  proof (intro set_eqI iffI)
    fix y assume "y \<in> set (List.map_filter candidate_file d)"
    then obtain x where x: "x \<in> set d" "candidate_file x = Some y" by (auto simp: set_map_filter)
    from cases [OF x(1)] x(2) assms(2) show "y \<in> candidate_of C ` set_option candidate"
      by (auto simp: candidate_of_def final_entry_files candidate_entry_files dest: other_entry_files temporary_entry_files)
  next
    fix y assume "y \<in> candidate_of C ` set_option candidate"
    then obtain a where a: "a \<in> set_option candidate" "y = candidate_of C a" by blast
    with sub(2) candidate_entry_files [of a C] assms(2) show "y \<in> set (List.map_filter candidate_file d)"
      by (auto simp: set_map_filter candidate_of_def)
  qed
qed

section \<open>Opening a valid directory\<close>

lemma valid_chain_epochs:
  assumes "valid_chain C anchors candidate"
  shows "sorted (map epoch_of anchors) \<and> distinct (map epoch_of anchors) \<and> length anchors \<le> 2"
proof -
  have less: "a < b" if "checked_add a 1 = Some b" for a b :: u64
    using that by (simp add: checked_add_Some word_less_nat_alt)
  show ?thesis
    using assms less by (auto simp: valid_chain_def split: list.splits option.splits dest!: less)
qed

lemma valid_chain_finals:
  assumes "holds C d anchors candidate" "valid_chain C anchors candidate"
  shows "sort_key fst (List.map_filter final_file d) = map (final_of C) anchors"
proof (rule sorted_keys_unique)
  have wf: "\<forall>a\<in>set anchors \<union> set_option candidate. wf_anchor a" using assms(2) by (simp add: valid_chain_def)
  note set = holds_finals(1) [OF assms(1) wf]
  have dist: "distinct (List.map_filter final_file d)"
    using assms(1) by (intro distinct_named_files) (simp add: holds_def)
  show "sorted (map fst (sort_key fst (List.map_filter final_file d)))" by simp
  have inj: "inj_on fst (final_of C ` set anchors)"
    using valid_chain_epochs [OF assms(2)] by (auto simp: inj_on_def final_of_def distinct_map)
  show "distinct (map fst (sort_key fst (List.map_filter final_file d)))"
    using dist inj set by (simp add: distinct_map)
  show "sorted (map fst (map (final_of C) anchors))" "distinct (map fst (map (final_of C) anchors))"
    using valid_chain_epochs [OF assms(2)] by (simp_all add: final_of_def comp_def)
  show "set (sort_key fst (List.map_filter final_file d)) = set (map (final_of C) anchors)"
    using set by simp
qed

lemma distinct_set_single: "distinct xs \<Longrightarrow> set xs = {x} \<Longrightarrow> xs = [x]"
proof (cases xs)
  case (Cons y ys)
  then show "distinct xs \<Longrightarrow> set xs = {x} \<Longrightarrow> xs = [x]" by (cases ys) auto
qed simp

lemma valid_chain_candidates:
  assumes "holds C d anchors candidate" "valid_chain C anchors candidate"
  shows "List.map_filter candidate_file d = map (candidate_of C) (case candidate of None \<Rightarrow> [] | Some c \<Rightarrow> [c])"
proof -
  have wf: "\<forall>a\<in>set anchors \<union> set_option candidate. wf_anchor a" using assms(2) by (simp add: valid_chain_def)
  note set = holds_finals(2) [OF assms(1) wf]
  have dist: "distinct (List.map_filter candidate_file d)"
    using assms(1) by (intro distinct_named_files) (simp add: holds_def)
  show ?thesis
  proof (cases candidate)
    case None
    then show ?thesis using set by simp
  next
    case (Some c)
    with set have "set (List.map_filter candidate_file d) = {candidate_of C c}" by simp
    with dist Some show ?thesis using distinct_set_single by simp
  qed
qed

lemma anchor_decode_encode [simp]: "wf_anchor a \<Longrightarrow> anchor_decode C (anchor_encode C a) = Inr a"
  by (simp add: anchor_decode_encoded)

lemma read_finals_valid:
  assumes "valid_chain C anchors candidate"
  shows "read_finals C io (map (final_of C) anchors) [] = Inr anchors \<or> read_finals C io (map (final_of C) anchors) [] = Inl Io"
    "\<forall>n. read_ok io n \<Longrightarrow> read_finals C io (map (final_of C) anchors) [] = Inr anchors"
  using assms
  by (auto simp: valid_chain_def final_of_def read_anchor_def epoch_of_def split: list.splits option.splits)

abbreviation candidates_of :: "crypto \<Rightarrow> retention_anchor option \<Rightarrow> anchor_file list" where
  "candidates_of C candidate \<equiv> map (candidate_of C) (case candidate of None \<Rightarrow> [] | Some c \<Rightarrow> [c])"

lemma read_candidate_valid:
  assumes "valid_chain C anchors candidate"
  shows "read_candidate C io (candidates_of C candidate) anchors = Inr candidate
      \<or> read_candidate C io (candidates_of C candidate) anchors = Inl Io"
    "\<forall>n. read_ok io n \<Longrightarrow> read_candidate C io (candidates_of C candidate) anchors = Inr candidate"
  using assms
  by (auto simp: valid_chain_def read_candidate_def candidate_of_def read_anchor_def epoch_of_def expected_next_def
      split: list.splits option.splits)

lemma pair_chained_valid: "valid_chain C anchors candidate \<Longrightarrow> pair_chained C anchors"
  by (auto simp: valid_chain_def pair_chained_def epoch_of_def split: list.splits option.splits)

lemma holds_entries:
  assumes "holds C d anchors candidate" "valid_chain C anchors candidate"
  shows "\<forall>x\<in>set d. other_entry x \<or> temporary_entry x \<or> (\<exists>a. wf_anchor a \<and> x \<in> {final_entry C a, candidate_entry C a})"
  using assms by (fastforce simp: holds_def valid_chain_def)

text \<open>Only temporary files may be removed without changing what a directory holds.\<close>

lemma holds_subset:
  assumes "holds C d anchors candidate" "wf_directory d'" "set d' \<subseteq> set d"
    "\<forall>x\<in>set d. \<not> temporary_entry x \<longrightarrow> x \<in> set d'" "\<forall>a\<in>set anchors \<union> set_option candidate. wf_anchor a"
  shows "holds C d' anchors candidate"
proof -
  have "final_entry C a \<in> set d'" if "a \<in> set anchors" for a
    using that assms final_entry_files [of a C] by (auto simp: holds_def)
  moreover have "candidate_entry C a \<in> set d'" if "a \<in> set_option candidate" for a
    using that assms candidate_entry_files [of a C] by (auto simp: holds_def)
  ultimately show ?thesis using assms(1-3) by (auto simp: holds_def)
qed

lemma temporary_removal:
  assumes "holds C d anchors candidate" "valid_chain C anchors candidate"
    and "remove_files io (map fst (filter temporary_entry d)) d = (ok, d')"
  shows "holds C d' anchors candidate \<and> (ok \<longrightarrow> (\<forall>x\<in>set d'. \<not> temporary_entry x))"
proof -
  let ?ts = "map fst (filter temporary_entry d)"
  have wf: "\<forall>a\<in>set anchors \<union> set_option candidate. wf_anchor a" using assms(2) by (simp add: valid_chain_def)
  note set_d' = remove_files_set [OF assms(3)]
  have keep: "x \<in> set d'" if x: "x \<in> set d" "\<not> temporary_entry x" for x
  proof -
    have "fst x \<notin> set ?ts"
    proof
      assume "fst x \<in> set ?ts"
      then obtain y where y: "y \<in> set d" "temporary_entry y" "fst y = fst x" by auto
      have "snd y = snd x"
        using assms(1) y(1,3) x(1) eq_key_imp_eq_value [of d "fst x" "snd y" "snd x"]
        by (metis holds_def prod.collapse wf_directory_def)
      with y x show False by (metis prod.collapse)
    qed
    then show ?thesis using x(1) set_d' by (cases x) auto
  qed
  have "holds C d' anchors candidate"
    using assms(1) wf keep set_d' wf_remove_files [OF assms(3)]
    by (intro holds_subset [OF assms(1)]) (auto simp: holds_def)
  moreover have "\<forall>x\<in>set d'. \<not> temporary_entry x" if ok using set_d' that by (auto simp: image_iff)
  ultimately show ?thesis by blast
qed

lemma retention_open_scan:
  assumes "holds C d anchors candidate" "valid_chain C anchors candidate" "read_dir_ok io"
  shows "retention_open C io d =
    (case attempt (read_finals C io (map (final_of C) anchors) []) (\<lambda>anchors.
            attempt (read_candidate C io (candidates_of C candidate) anchors) (\<lambda>candidate.
            if \<not> pair_chained C anchors then Inl InvalidRetentionAnchorChain else Inr (anchors, candidate))) of
       Inl e \<Rightarrow> (Inl e, d)
     | Inr (anchors, candidate) \<Rightarrow>
         (case remove_files io (map fst (filter temporary_entry d)) d of
            (False, d) \<Rightarrow> (Inl Io, d)
          | (True, d') \<Rightarrow>
              if map fst (filter temporary_entry d) \<noteq> [] \<and> \<not> dir_sync_ok io then (Inl Io, d')
              else (Inr \<lparr>rs_anchors = anchors, rs_candidate = candidate,
                  rs_ignored_temporary_files = length (map fst (filter temporary_entry d))\<rparr>, d')))"
proof -
  note scan = retention_scan_valid [OF holds_entries [OF assms(1,2)], of "[]" "[]" "[]"]
  have len: "length (List.map_filter final_file d) = length anchors"
    using arg_cong [OF valid_chain_finals [OF assms(1,2)], of length] by simp
  have bounds: "\<not> (length anchors > 2 \<or> length (candidates_of C candidate) > 1
      \<or> (length anchors = 2 \<and> candidates_of C candidate \<noteq> []))"
    using assms(2) by (auto simp: valid_chain_def split: list.splits option.splits)
  show ?thesis
    using scan bounds len assms(3)
    by (auto simp: retention_open_def Let_def valid_chain_finals [OF assms(1,2)] valid_chain_candidates [OF assms(1,2)])
qed

lemma retention_open_valid:
  assumes "holds C d anchors candidate" "valid_chain C anchors candidate"
  shows "\<exists>n d'. retention_open C all_ok d
      = (Inr \<lparr>rs_anchors = anchors, rs_candidate = candidate, rs_ignored_temporary_files = n\<rparr>, d')"
proof -
  let ?ts = "map fst (filter temporary_entry d)"
  have "distinct ?ts" using assms(1) by (auto simp: holds_def wf_directory_def distinct_map inj_on_def)
  moreover have "set ?ts \<subseteq> fst ` set d" by auto
  ultimately obtain d' where "remove_files all_ok ?ts d = (True, d')"
    using remove_files_all [of ?ts all_ok d] by (auto simp: all_ok_def)
  then show ?thesis
    using retention_open_scan [OF assms, of all_ok] read_finals_valid(2) [OF assms(2), of all_ok]
      read_candidate_valid(2) [OF assms(2), of all_ok] pair_chained_valid [OF assms(2)]
    by (simp add: all_ok_def)
qed

lemma retention_open_holds:
  assumes "holds C d anchors candidate" "valid_chain C anchors candidate"
    and "retention_open C io d = (res, d')"
  shows "holds C d' anchors candidate
    \<and> (case res of Inl e \<Rightarrow> True | Inr t \<Rightarrow> rs_anchors t = anchors \<and> rs_candidate t = candidate)"
proof (cases "read_dir_ok io")
  case False
  with assms show ?thesis by (auto simp: retention_open_def)
next
  case True
  obtain ok d1 where rm: "remove_files io (map fst (filter temporary_entry d)) d = (ok, d1)" by fastforce
  note held = temporary_removal [OF assms(1,2) rm]
  from read_finals_valid(1) [OF assms(2), of io] read_candidate_valid(1) [OF assms(2), of io] show ?thesis
  proof (elim disjE)
    assume reads: "read_finals C io (map (final_of C) anchors) [] = Inr anchors"
      "read_candidate C io (candidates_of C candidate) anchors = Inr candidate"
    then show ?thesis
      using assms(3) held retention_open_scan [OF assms(1,2) True] pair_chained_valid [OF assms(2)] rm
      by (auto split: bool.splits if_splits)
  qed (use assms(1,3) retention_open_scan [OF assms(1,2) True] in auto)
qed

section \<open>Executions\<close>

text \<open>
  The state of an execution: the store, its directory and the staged anchors, with the history of
  what the operations reported. \<open>rt_reported\<close> is the chain that follows from the successes alone: an
  open reports the chain it returns, a publication makes its anchor the candidate, a stabilization
  moves the anchor it returns to the end of the chain, a removal drops the anchors before its epoch.
  \<open>rt_failed\<close> are the requests that reported an error since the last successful open.
\<close>

datatype retention_request = Publish retention_anchor | Stabilize u64 | Remove u64

record retention_system =
  rt_store :: retention_store
  rt_directory :: directory
  rt_staged :: "retention_anchor list"
  rt_reported :: "retention_anchor list \<times> retention_anchor option"
  rt_failed :: "retention_request list"

definition report_published ::
    "wal_error + retention_anchor \<Rightarrow> retention_anchor list \<times> retention_anchor option
      \<Rightarrow> retention_anchor list \<times> retention_anchor option"
where
  "report_published res chain = (case res of Inl _ \<Rightarrow> chain | Inr a \<Rightarrow> (fst chain, Some a))"

definition report_stabilized ::
    "wal_error + retention_anchor \<Rightarrow> retention_anchor list \<times> retention_anchor option
      \<Rightarrow> retention_anchor list \<times> retention_anchor option"
where
  "report_stabilized res chain = (case res of Inl _ \<Rightarrow> chain | Inr a \<Rightarrow> (fst chain @ [a], None))"

definition report_removed ::
    "wal_error + nat \<Rightarrow> u64 \<Rightarrow> retention_anchor list \<times> retention_anchor option
      \<Rightarrow> retention_anchor list \<times> retention_anchor option"
where
  "report_removed res epoch chain =
     (case res of Inl _ \<Rightarrow> chain | Inr _ \<Rightarrow> (filter (\<lambda>a. epoch \<le> epoch_of a) (fst chain), snd chain))"

lemmas report_defs = note_failure_def report_published_def report_stabilized_def report_removed_def

inductive retention_step :: "crypto \<Rightarrow> retention_system \<Rightarrow> retention_system \<Rightarrow> bool" for C where
  staged:
    "wf_anchor a \<Longrightarrow> retention_stage C io (rt_store s) (rt_directory s) a synchronize = (Inr b, d)
      \<Longrightarrow> retention_step C s (s\<lparr>rt_directory := d, rt_staged := b # rt_staged s\<rparr>)"
| stage_failed:
    "wf_anchor a \<Longrightarrow> retention_stage C io (rt_store s) (rt_directory s) a synchronize = (Inl e, d)
      \<Longrightarrow> retention_step C s (s\<lparr>rt_directory := d\<rparr>)"
| published:
    "rt_staged s = xs @ a # ys \<Longrightarrow> publish_candidate C io (rt_store s) (rt_directory s) a synchronize = (res, t, d)
      \<Longrightarrow> retention_step C s \<lparr>rt_store = t, rt_directory = d, rt_staged = xs @ ys,
        rt_reported = report_published res (rt_reported s), rt_failed = note_failure res (Publish a) (rt_failed s)\<rparr>"
| stabilized:
    "stabilize_candidate io (rt_store s) (rt_directory s) epoch synchronize = (res, t, d)
      \<Longrightarrow> retention_step C s \<lparr>rt_store = t, rt_directory = d, rt_staged = rt_staged s,
        rt_reported = report_stabilized res (rt_reported s), rt_failed = note_failure res (Stabilize epoch) (rt_failed s)\<rparr>"
| removed:
    "remove_before io (rt_store s) (rt_directory s) epoch synchronize = (res, t, d)
      \<Longrightarrow> retention_step C s \<lparr>rt_store = t, rt_directory = d, rt_staged = rt_staged s,
        rt_reported = report_removed res epoch (rt_reported s), rt_failed = note_failure res (Remove epoch) (rt_failed s)\<rparr>"
| reopened:
    "retention_open C io (rt_directory s) = (Inr t, d)
      \<Longrightarrow> retention_step C s \<lparr>rt_store = t, rt_directory = d, rt_staged = [],
        rt_reported = (rs_anchors t, rs_candidate t), rt_failed = []\<rparr>"
| reopen_failed:
    "retention_open C io (rt_directory s) = (Inl e, d)
      \<Longrightarrow> retention_step C s (s\<lparr>rt_directory := d, rt_staged := []\<rparr>)"

inductive_cases retention_stepE: "retention_step C s t"

text \<open>
  The anchors on disk are the store's, or those after a publication or a stabilization that was
  reported as failed.
\<close>

definition settled_or_ahead ::
    "retention_request list \<Rightarrow> retention_store \<Rightarrow> retention_anchor list \<Rightarrow> retention_anchor option \<Rightarrow> bool"
where
  "settled_or_ahead failed s anchors candidate =
     (anchors = rs_anchors s \<and> candidate = rs_candidate s
      \<or> (\<exists>a. Publish a \<in> set failed \<and> rs_candidate s = None \<and> anchors = rs_anchors s \<and> candidate = Some a)
      \<or> (\<exists>c. Stabilize (epoch_of c) \<in> set failed \<and> rs_candidate s = Some c \<and> anchors = rs_anchors s @ [c]
          \<and> candidate = None))"

text \<open>
  The store holds the reported chain, except for the anchors before the epoch of a removal that was
  reported as failed: \<^verbatim>\<open>remove_before\<close> forgets the anchors before it synchronizes the directory.
\<close>

definition as_reported ::
    "retention_request list \<Rightarrow> retention_anchor list \<times> retention_anchor option \<Rightarrow> retention_store \<Rightarrow> bool"
where
  "as_reported failed reported s =
     (rs_candidate s = snd reported
      \<and> (rs_anchors s = fst reported
          \<or> (\<exists>e. Remove e \<in> set failed \<and> rs_anchors s \<noteq> [] \<and> e \<le> epoch_of (last (rs_anchors s))
               \<and> rs_anchors s = filter (\<lambda>a. e \<le> epoch_of a) (fst reported))))"

definition retention_inv :: "crypto \<Rightarrow> retention_system \<Rightarrow> bool" where
  "retention_inv C s =
     ((\<exists>anchors candidate. holds C (rt_directory s) anchors candidate \<and> valid_chain C anchors candidate
        \<and> settled_or_ahead (rt_failed s) (rt_store s) anchors candidate)
      \<and> valid_chain C (rs_anchors (rt_store s)) (rs_candidate (rt_store s))
      \<and> as_reported (rt_failed s) (rt_reported s) (rt_store s)
      \<and> distinct (map epoch_of (rt_staged s))
      \<and> (\<forall>a\<in>set (rt_staged s). wf_anchor a
           \<and> (temporary_name (epoch_of a), File (anchor_encode C a)) \<in> set (rt_directory s)))"

lemma retention_invI:
  assumes "holds C d anchors candidate" "valid_chain C anchors candidate" "settled_or_ahead failed t anchors candidate"
    "valid_chain C (rs_anchors t) (rs_candidate t)" "as_reported failed reported t" "distinct (map epoch_of staged)"
    "\<And>a. a \<in> set staged \<Longrightarrow> wf_anchor a \<and> (temporary_name (epoch_of a), File (anchor_encode C a)) \<in> set d"
  shows "retention_inv C \<lparr>rt_store = t, rt_directory = d, rt_staged = staged, rt_reported = reported, rt_failed = failed\<rparr>"
  unfolding retention_inv_def using assms by (auto intro!: exI [of _ anchors] exI [of _ candidate])

lemma retention_invE:
  assumes "retention_inv C s"
  obtains anchors candidate where "holds C (rt_directory s) anchors candidate"
    "valid_chain C anchors candidate" "settled_or_ahead (rt_failed s) (rt_store s) anchors candidate"
    "distinct (map epoch_of (rt_staged s))" "valid_chain C (rs_anchors (rt_store s)) (rs_candidate (rt_store s))"
    "\<forall>a\<in>set (rt_staged s). wf_anchor a \<and> (temporary_name (epoch_of a), File (anchor_encode C a)) \<in> set (rt_directory s)"
    "as_reported (rt_failed s) (rt_reported s) (rt_store s)"
  using assms by (auto simp: retention_inv_def)

text \<open>A failure that changes nothing is noted and keeps both relations.\<close>

lemma failure_noted:
  "settled_or_ahead failed s anchors candidate \<Longrightarrow> settled_or_ahead (note_failure res r failed) s anchors candidate"
  "as_reported failed reported s \<Longrightarrow> as_reported (note_failure res r failed) reported s"
  by (auto simp: settled_or_ahead_def as_reported_def note_failure_def split: sum.splits)

lemma holds_put_temporary:
  assumes "holds C d anchors candidate" "\<not> dir_exists d (temporary_name epoch)" "epoch \<noteq> 0"
  shows "holds C (dir_put (temporary_name epoch) content d) anchors candidate"
  using assms wf_dir_put [of d "temporary_name epoch" content] by (auto simp: holds_def temporary_entry_def)

lemma retention_stage_inv:
  assumes "retention_inv C s" "wf_anchor a"
    and "retention_stage C io (rt_store s) (rt_directory s) a synchronize = (res, d)"
  shows "retention_inv C (s\<lparr>rt_directory := d, rt_staged := (case res of Inl e \<Rightarrow> rt_staged s | Inr b \<Rightarrow> b # rt_staged s)\<rparr>)"
proof -
  obtain anchors candidate where inv: "holds C (rt_directory s) anchors candidate"
    "valid_chain C anchors candidate" "settled_or_ahead (rt_failed s) (rt_store s) anchors candidate"
    "distinct (map epoch_of (rt_staged s))" "valid_chain C (rs_anchors (rt_store s)) (rs_candidate (rt_store s))"
    "\<forall>a\<in>set (rt_staged s). wf_anchor a \<and> (temporary_name (epoch_of a), File (anchor_encode C a)) \<in> set (rt_directory s)"
    "as_reported (rt_failed s) (rt_reported s) (rt_store s)"
    using assms(1) by (rule retention_invE)
  have "d = rt_directory s \<and> isl res
      \<or> \<not> dir_exists (rt_directory s) (temporary_name (epoch_of a))
        \<and> (\<exists>content. d = dir_put (temporary_name (epoch_of a)) content (rt_directory s)
            \<and> (isl res \<or> res = Inr a \<and> content = anchor_encode C a))"
    using assms(3)
    by (auto simp: retention_stage_def Let_def epoch_of_def split: sum.splits if_splits option.splits)
  then consider (same) "d = rt_directory s" "isl res"
    | (created) content where "\<not> dir_exists (rt_directory s) (temporary_name (epoch_of a))"
        "d = dir_put (temporary_name (epoch_of a)) content (rt_directory s)"
        "isl res \<or> res = Inr a \<and> content = anchor_encode C a"
    by blast
  then show ?thesis
  proof cases
    case same
    with assms(1) show ?thesis by (cases res) (simp_all add: retention_inv_def)
  next
    case (created content)
    note new = created(1) and d = created(2) and res = created(3)
    have "holds C d anchors candidate"
      unfolding d using inv(1) new wf_anchor_epoch [OF assms(2)] by (rule holds_put_temporary)
    moreover have "epoch_of a \<notin> epoch_of ` set (rt_staged s)"
      using new inv(6) by (force simp: dir_exists_iff)
    moreover have "x \<in> set (rt_directory s) \<Longrightarrow> x \<in> set d" for x by (simp add: d)
    moreover have "res = Inr b \<Longrightarrow> b = a \<and> (temporary_name (epoch_of a), File (anchor_encode C a)) \<in> set d" for b
      using res by (auto simp: d)
    ultimately show ?thesis
      unfolding retention_inv_def using inv(2-7) assms(2) by (cases res) (simp; blast)+
  qed
qed

text \<open>An anchor that continues the store's chain makes it a valid chain with that candidate.\<close>

lemma validate_next_chain:
  assumes "validate_next C s a = Inr ()" "wf_anchor a" "valid_chain C (rs_anchors s) (rs_candidate s)"
  shows "rs_candidate s = None \<and> length (rs_anchors s) < 2 \<and> valid_chain C (rs_anchors s) (Some a)"
  using assms
  by (auto simp: validate_next_def valid_chain_def expected_next_def epoch_of_def result_simps
      split: list.splits option.splits if_splits)

lemma valid_chain_same_epoch:
  "valid_chain C anchors (Some a) \<Longrightarrow> valid_chain C anchors (Some c) \<Longrightarrow> epoch_of a = epoch_of c"
  by (auto simp: valid_chain_def split: list.splits)

lemma valid_chain_promote:
  "valid_chain C anchors (Some c) \<Longrightarrow> valid_chain C (anchors @ [c]) None"
  by (auto simp: valid_chain_def split: list.splits)

lemma holds_publish:
  assumes "holds C d anchors None" "wf_anchor a" "\<not> dir_exists d (candidate_name (epoch_of a))"
    and "(temporary_name (epoch_of a), File (anchor_encode C a)) \<in> set d"
  shows "holds C (dir_rename (temporary_name (epoch_of a)) (candidate_name (epoch_of a)) d) anchors (Some a)"
proof -
  let ?d = "dir_rename (temporary_name (epoch_of a)) (candidate_name (epoch_of a)) d"
  have set: "set ?d = {(m, e) \<in> set d. m \<noteq> temporary_name (epoch_of a)} \<union> {candidate_entry C a}"
    unfolding candidate_entry_def using assms by (intro set_dir_rename_new) (simp_all add: holds_def)
  have "wf_directory ?d" using assms(1) by (simp add: holds_def wf_dir_rename)
  moreover have "final_entry C ` set anchors \<subseteq> set ?d" using assms(1) by (auto simp: set holds_def final_entry_def)
  ultimately show ?thesis using assms(1) unfolding holds_def by (auto simp: set)
qed

lemma publish_inv:
  assumes "retention_inv C s" "rt_staged s = xs @ a # ys"
    and "publish_candidate C io (rt_store s) (rt_directory s) a synchronize = (res, t, d)"
  shows "retention_inv C \<lparr>rt_store = t, rt_directory = d, rt_staged = xs @ ys,
    rt_reported = report_published res (rt_reported s), rt_failed = note_failure res (Publish a) (rt_failed s)\<rparr>"
proof -
  obtain anchors candidate where inv: "holds C (rt_directory s) anchors candidate"
    "valid_chain C anchors candidate" "settled_or_ahead (rt_failed s) (rt_store s) anchors candidate"
    "distinct (map epoch_of (rt_staged s))" "valid_chain C (rs_anchors (rt_store s)) (rs_candidate (rt_store s))"
    "\<forall>a\<in>set (rt_staged s). wf_anchor a \<and> (temporary_name (epoch_of a), File (anchor_encode C a)) \<in> set (rt_directory s)"
    "as_reported (rt_failed s) (rt_reported s) (rt_store s)"
    using assms(1) by (rule retention_invE)
  have a: "wf_anchor a" "(temporary_name (epoch_of a), File (anchor_encode C a)) \<in> set (rt_directory s)"
    using inv(6) assms(2) by auto
  have others: "b \<in> set (xs @ ys) \<Longrightarrow> epoch_of b \<noteq> epoch_of a" for b
    using inv(4) assms(2) by auto (metis image_eqI)+
  have "isl res \<and> t = rt_store s \<and> d = rt_directory s
      \<or> validate_next C (rt_store s) a = Inr () \<and> \<not> dir_exists (rt_directory s) (candidate_name (epoch_of a))
        \<and> d = dir_rename (temporary_name (epoch_of a)) (candidate_name (epoch_of a)) (rt_directory s)
        \<and> (isl res \<and> t = rt_store s \<or> res = Inr a \<and> t = (rt_store s)\<lparr>rs_candidate := Some a\<rparr>)"
    using assms(3) by (auto simp: publish_candidate_def Let_def epoch_of_def split: sum.splits if_splits)
  then consider (same) e where "res = Inl e" "t = rt_store s" "d = rt_directory s"
    | (renamed) "validate_next C (rt_store s) a = Inr ()" "\<not> dir_exists (rt_directory s) (candidate_name (epoch_of a))"
        "d = dir_rename (temporary_name (epoch_of a)) (candidate_name (epoch_of a)) (rt_directory s)"
        "isl res \<and> t = rt_store s \<or> res = Inr a \<and> t = (rt_store s)\<lparr>rs_candidate := Some a\<rparr>"
    by (auto simp: isl_def)
  then show ?thesis
  proof cases
    case (same e)
    with inv failure_noted(1) [OF inv(3)] failure_noted(2) [OF inv(7)] assms(2) show ?thesis
      by (intro retention_invI [of C d anchors candidate]) (auto simp: report_published_def)
  next
    case renamed
    note next_ok = validate_next_chain [OF renamed(1) a(1) inv(5)]
    have eq: "rs_anchors (rt_store s) = anchors" "candidate = None"
    proof -
      show anchors: "rs_anchors (rt_store s) = anchors"
        using inv(3) next_ok by (auto simp: settled_or_ahead_def)
      show "candidate = None"
      proof (rule ccontr)
        assume "candidate \<noteq> None"
        then obtain c where c: "candidate = Some c" by blast
        then have epoch: "epoch_of a = epoch_of c"
          using valid_chain_same_epoch inv(2) next_ok anchors by blast
        have "candidate_entry C c \<in> set (rt_directory s)" using c inv(1) by (simp add: holds_def)
        from imageI [OF this, of fst] renamed(2) epoch show False by (simp add: dir_exists_iff candidate_entry_def)
      qed
    qed
    have "holds C d anchors (Some a)"
      unfolding renamed(3) using inv(1) a renamed(2) eq(2) by (intro holds_publish) simp_all
    moreover have "settled_or_ahead (note_failure res (Publish a) (rt_failed s)) t anchors (Some a)"
      using renamed(4) eq(1) next_ok by (auto simp: settled_or_ahead_def note_failure_def split: sum.splits)
    moreover have "as_reported (note_failure res (Publish a) (rt_failed s)) (report_published res (rt_reported s)) t"
      using renamed(4) inv(7) by (auto simp: as_reported_def report_defs split: sum.splits)
    moreover have "(temporary_name (epoch_of b), File (anchor_encode C b)) \<in> set d" if "b \<in> set (xs @ ys)" for b
      using that others [OF that] inv(6) assms(2) by (auto simp: renamed(3) set_dir_rename)
    moreover have "valid_chain C (rs_anchors t) (rs_candidate t)" using renamed(4) next_ok inv(5) by auto
    ultimately show ?thesis
      using inv(4,6) next_ok eq assms(2) by (intro retention_invI [of C d anchors "Some a"]) auto
  qed
qed

lemma holds_stabilize:
  assumes "holds C d anchors (Some c)" "wf_anchor c" "\<not> dir_exists d (final_name (epoch_of c))"
  shows "holds C (dir_rename (candidate_name (epoch_of c)) (final_name (epoch_of c)) d) (anchors @ [c]) None"
proof -
  let ?d = "dir_rename (candidate_name (epoch_of c)) (final_name (epoch_of c)) d"
  have set: "set ?d = {(m, e) \<in> set d. m \<noteq> candidate_name (epoch_of c)} \<union> {final_entry C c}"
    unfolding final_entry_def using assms
    by (intro set_dir_rename_new) (simp_all add: holds_def candidate_entry_def)
  have "wf_directory ?d" using assms(1) by (simp add: holds_def wf_dir_rename)
  moreover have "final_entry C ` set anchors \<subseteq> set ?d" using assms(1) by (auto simp: set holds_def final_entry_def)
  moreover have "other_entry x \<or> temporary_entry x \<or> x \<in> final_entry C ` set (anchors @ [c])" if "x \<in> set ?d" for x
    using that assms(1) unfolding set holds_def by (auto simp: candidate_entry_def)
  ultimately show ?thesis unfolding holds_def by (simp add: set)
qed

text \<open>The candidate has a later epoch than the anchors, so no earlier removal concerns it.\<close>

lemma as_reported_stabilized:
  assumes "as_reported failed reported s" "valid_chain C (rs_anchors s) (rs_candidate s)" "rs_candidate s = Some c"
  shows "as_reported failed (fst reported @ [c], None) (s\<lparr>rs_anchors := rs_anchors s @ [c], rs_candidate := None\<rparr>)"
proof -
  have "epoch_of (last (rs_anchors s)) \<le> epoch_of c" if "rs_anchors s \<noteq> []"
    using that assms(2,3)
    by (auto simp: valid_chain_def checked_add_Some word_le_nat_alt split: list.splits)
  with assms(1) show ?thesis by (auto simp: as_reported_def intro: order_trans)
qed

lemma stabilize_inv:
  assumes "retention_inv C s"
    and "stabilize_candidate io (rt_store s) (rt_directory s) epoch synchronize = (res, t, d)"
  shows "retention_inv C \<lparr>rt_store = t, rt_directory = d, rt_staged = rt_staged s,
    rt_reported = report_stabilized res (rt_reported s), rt_failed = note_failure res (Stabilize epoch) (rt_failed s)\<rparr>"
proof -
  obtain anchors candidate where inv: "holds C (rt_directory s) anchors candidate"
    "valid_chain C anchors candidate" "settled_or_ahead (rt_failed s) (rt_store s) anchors candidate"
    "distinct (map epoch_of (rt_staged s))" "valid_chain C (rs_anchors (rt_store s)) (rs_candidate (rt_store s))"
    "\<forall>a\<in>set (rt_staged s). wf_anchor a \<and> (temporary_name (epoch_of a), File (anchor_encode C a)) \<in> set (rt_directory s)"
    "as_reported (rt_failed s) (rt_reported s) (rt_store s)"
    using assms(1) by (rule retention_invE)
  have "isl res \<and> t = rt_store s \<and> d = rt_directory s
      \<or> (\<exists>c. rs_candidate (rt_store s) = Some c \<and> epoch_of c = epoch \<and> \<not> dir_exists (rt_directory s) (final_name (epoch_of c))
        \<and> d = dir_rename (candidate_name (epoch_of c)) (final_name (epoch_of c)) (rt_directory s)
        \<and> (isl res \<and> t = rt_store s
          \<or> res = Inr c \<and> t = (rt_store s)\<lparr>rs_anchors := rs_anchors (rt_store s) @ [c], rs_candidate := None\<rparr>))"
    using assms(2) by (auto simp: stabilize_candidate_def Let_def epoch_of_def split: option.splits if_splits)
  then consider (same) e where "res = Inl e" "t = rt_store s" "d = rt_directory s"
    | (renamed) c where "rs_candidate (rt_store s) = Some c" "\<not> dir_exists (rt_directory s) (final_name (epoch_of c))"
        "d = dir_rename (candidate_name (epoch_of c)) (final_name (epoch_of c)) (rt_directory s)"
        "isl res \<and> t = rt_store s
          \<or> res = Inr c \<and> t = (rt_store s)\<lparr>rs_anchors := rs_anchors (rt_store s) @ [c], rs_candidate := None\<rparr>"
        "epoch_of c = epoch"
    by (auto simp: isl_def)
  then show ?thesis
  proof cases
    case (same e)
    with inv failure_noted(1) [OF inv(3)] failure_noted(2) [OF inv(7)] show ?thesis
      by (intro retention_invI [of C d anchors candidate]) (auto simp: report_stabilized_def)
  next
    case (renamed c)
    have "final_name (epoch_of c) \<notin> fst ` set (rt_directory s)" using renamed(2) by (simp add: dir_exists_iff)
    then have "final_entry C c \<notin> set (rt_directory s)" using image_eqI [of _ fst] by (force simp: final_entry_def)
    then have "c \<notin> set anchors" using inv(1) by (auto simp: holds_def)
    then have eq: "rs_anchors (rt_store s) = anchors" "candidate = Some c"
      using inv(3) renamed(1) by (auto simp: settled_or_ahead_def)
    have wf: "wf_anchor c" using inv(2) eq(2) by (simp add: valid_chain_def)
    have "holds C d (anchors @ [c]) None"
      unfolding renamed(3) using inv(1) wf renamed(2) eq(2) by (intro holds_stabilize) simp_all
    moreover have "valid_chain C (anchors @ [c]) None" using inv(2) eq(2) by (simp add: valid_chain_promote)
    moreover have "settled_or_ahead (note_failure res (Stabilize epoch) (rt_failed s)) t (anchors @ [c]) None"
      using renamed(1,4,5) eq by (auto simp: settled_or_ahead_def note_failure_def split: sum.splits)
    moreover have "as_reported (note_failure res (Stabilize epoch) (rt_failed s)) (report_stabilized res (rt_reported s)) t"
      using renamed(4) as_reported_stabilized [OF inv(7,5) renamed(1)] failure_noted(2) [OF inv(7), of res "Stabilize epoch"]
      by (auto simp: report_stabilized_def note_failure_def isl_def)
    moreover have "valid_chain C (rs_anchors t) (rs_candidate t)"
      using renamed(4) inv(5) eq calculation(2) by auto
    moreover have "(temporary_name (epoch_of b), File (anchor_encode C b)) \<in> set d" if "b \<in> set (rt_staged s)" for b
      using that inv(6) by (auto simp: renamed(3) set_dir_rename)
    ultimately show ?thesis
      using inv(4,6) by (intro retention_invI [of C d "anchors @ [c]" None]) auto
  qed
qed

lemma valid_chain_removal:
  assumes "valid_chain C anchors candidate" "list_ex (\<lambda>a. epoch_of a = epoch) anchors"
  shows "filter (\<lambda>a. epoch_of a < epoch) anchors = [] \<and> filter (\<lambda>a. epoch_of a \<ge> epoch) anchors = anchors
    \<or> (\<exists>p q. anchors = [p, q] \<and> candidate = None \<and> filter (\<lambda>a. epoch_of a < epoch) anchors = [p]
        \<and> filter (\<lambda>a. epoch_of a \<ge> epoch) anchors = [q] \<and> epoch_of p < epoch_of q \<and> valid_chain C [q] None)"
proof -
  have less: "a < b" if "checked_add a 1 = Some b" for a b :: u64
    using that by (simp add: checked_add_Some word_less_nat_alt)
  show ?thesis
    using assms by (auto simp: valid_chain_def split: list.splits option.splits dest!: less)
qed

lemma holds_remove:
  assumes "holds C d [p, q] None" "epoch_of p \<noteq> epoch_of q"
  shows "holds C (dir_remove (final_name (epoch_of p)) d) [q] None"
proof -
  have "wf_directory (dir_remove (final_name (epoch_of p)) d)"
    using assms(1) by (simp add: holds_def wf_dir_remove)
  moreover have "x \<noteq> final_entry C p" if "x \<in> set (dir_remove (final_name (epoch_of p)) d)" for x
    using that by (auto simp: final_entry_def)
  ultimately show ?thesis using assms unfolding holds_def by (auto simp: final_entry_def)
qed

lemma holds_final_exists:
  assumes "holds C d anchors candidate" "dir_exists d (final_name epoch)"
  shows "epoch \<in> epoch_of ` set anchors"
proof -
  from assms(2) obtain e where x: "(final_name epoch, e) \<in> set d" by (auto simp: dir_exists_iff)
  have "\<not> other_entry (final_name epoch, e)" "\<not> temporary_entry (final_name epoch, e)"
    "(final_name epoch, e) \<notin> candidate_entry C ` set_option candidate"
    by (auto simp: other_entry_def temporary_entry_def candidate_entry_def) (simp add: final_name_def)
  with assms(1) x have "(final_name epoch, e) \<in> final_entry C ` set anchors" unfolding holds_def by blast
  then show ?thesis by (auto simp: final_entry_def)
qed

lemma as_reportedI:
  "rs_candidate s = snd reported \<Longrightarrow> Remove e \<in> set failed \<Longrightarrow> rs_anchors s \<noteq> [] \<Longrightarrow> e \<le> epoch_of (last (rs_anchors s))
    \<Longrightarrow> rs_anchors s = filter (\<lambda>a. e \<le> epoch_of a) (fst reported) \<Longrightarrow> as_reported failed reported s"
  unfolding as_reported_def by blast

lemma as_reported_removed:
  assumes "as_reported failed reported s" "list_ex (\<lambda>a. epoch_of a = epoch) (rs_anchors s)"
    and "rs_anchors t = filter (\<lambda>a. epoch \<le> epoch_of a) (rs_anchors s)" "last (rs_anchors t) = last (rs_anchors s)"
    and "rs_candidate t = rs_candidate s"
  shows "as_reported (note_failure res (Remove epoch) failed) (report_removed res epoch reported) t"
proof -
  have ne: "rs_anchors t \<noteq> []" using assms(2) by (force simp: assms(3) list_ex_iff filter_empty_conv)
  then have low: "epoch \<le> epoch_of (last (rs_anchors t))" using last_in_set [OF ne] by (simp add: assms(3))
  from assms(1) consider "rs_anchors s = fst reported"
    | e where "Remove e \<in> set failed" "e \<le> epoch_of (last (rs_anchors s))" "rs_anchors s = filter (\<lambda>a. e \<le> epoch_of a) (fst reported)"
    unfolding as_reported_def by blast
  then show ?thesis
  proof cases
    case 1
    then show ?thesis using assms(1,3,5) ne low by (cases res) (auto simp: as_reported_def report_defs)
  next
    case (2 e)
    have t: "rs_anchors t = filter (\<lambda>a. e \<le> epoch_of a) (filter (\<lambda>a. epoch \<le> epoch_of a) (fst reported))"
      "rs_anchors t = filter (\<lambda>a. max e epoch \<le> epoch_of a) (fst reported)"
      unfolding assms(3) 2(3) by (auto intro!: filter_cong)
    have last: "e \<le> epoch_of (last (rs_anchors t))" "max e epoch \<le> epoch_of (last (rs_anchors t))"
      using 2(2) low assms(4) by simp_all
    have cand: "rs_candidate t = snd reported" using assms(1,5) by (simp add: as_reported_def)
    show ?thesis
    proof (cases res)
      case (Inl x)
      have "Remove (max e epoch) \<in> set (Remove epoch # failed)" using 2(1) by (simp add: max_def)
      then show ?thesis using Inl as_reportedI [OF cand _ ne last(2) t(2)] by (simp add: report_defs)
    next
      case (Inr n)
      then show ?thesis using 2(1) as_reportedI [of t "report_removed res epoch reported" e failed] cand ne last(1) t(1)
        by (simp add: report_defs)
    qed
  qed
qed

lemma remove_before_cases:
  assumes "remove_before io s d epoch synchronize = (res, t, d')" "valid_chain C (rs_anchors s) (rs_candidate s)"
  obtains (refused) e where "res = Inl e" "t = s" "d' = d"
  | (kept) "list_ex (\<lambda>a. epoch_of a = epoch) (rs_anchors s)" "filter (\<lambda>a. epoch \<le> epoch_of a) (rs_anchors s) = rs_anchors s"
      "t = s" "d' = d"
  | (removed) p q where "rs_anchors s = [p, q]" "rs_candidate s = None" "epoch_of p < epoch_of q"
      "valid_chain C [q] None" "dir_exists d (final_name (epoch_of p))"
      "d' = dir_remove (final_name (epoch_of p)) d" "t = s\<lparr>rs_anchors := [q]\<rparr>"
      "list_ex (\<lambda>a. epoch_of a = epoch) (rs_anchors s)" "filter (\<lambda>a. epoch \<le> epoch_of a) (rs_anchors s) = [q]"
proof (cases "list_ex (\<lambda>a. epoch_of a = epoch) (rs_anchors s)")
  case False
  with assms(1) show ?thesis by (intro refused) (auto simp: remove_before_def epoch_of_def)
next
  case True
  from valid_chain_removal [OF assms(2) True] show ?thesis
  proof (elim disjE exE conjE)
    assume none: "filter (\<lambda>a. epoch_of a < epoch) (rs_anchors s) = []"
      and all: "filter (\<lambda>a. epoch_of a \<ge> epoch) (rs_anchors s) = rs_anchors s"
    with assms(1) True show ?thesis
      by (intro kept) (simp_all add: remove_before_def epoch_of_def Let_def)
  next
    fix p q assume pq: "rs_anchors s = [p, q]" "rs_candidate s = None" "filter (\<lambda>a. epoch_of a < epoch) (rs_anchors s) = [p]"
      "filter (\<lambda>a. epoch_of a \<ge> epoch) (rs_anchors s) = [q]" "epoch_of p < epoch_of q" "valid_chain C [q] None"
    note result = assms(1) [unfolded remove_before_def epoch_of_def [symmetric] Let_def pq(3,4)]
    show ?thesis
    proof (cases "remove_ok io (final_name (epoch_of p)) \<and> dir_exists d (final_name (epoch_of p))")
      case False
      then have "res = Inl Io" "t = s" "d' = d" using result True by (simp_all split: if_splits)
      then show ?thesis by (rule refused)
    next
      case ok: True
      then have "d' = dir_remove (final_name (epoch_of p)) d" "t = s\<lparr>rs_anchors := [q]\<rparr>"
        using result True by (simp_all split: if_splits)
      with ok pq True show ?thesis by (intro removed) simp_all
    qed
  qed
qed

lemma remove_inv:
  assumes "retention_inv C s"
    and "remove_before io (rt_store s) (rt_directory s) epoch synchronize = (res, t, d)"
  shows "retention_inv C \<lparr>rt_store = t, rt_directory = d, rt_staged = rt_staged s,
    rt_reported = report_removed res epoch (rt_reported s), rt_failed = note_failure res (Remove epoch) (rt_failed s)\<rparr>"
proof -
  obtain anchors candidate where inv: "holds C (rt_directory s) anchors candidate"
    "valid_chain C anchors candidate" "settled_or_ahead (rt_failed s) (rt_store s) anchors candidate"
    "distinct (map epoch_of (rt_staged s))" "valid_chain C (rs_anchors (rt_store s)) (rs_candidate (rt_store s))"
    "\<forall>a\<in>set (rt_staged s). wf_anchor a \<and> (temporary_name (epoch_of a), File (anchor_encode C a)) \<in> set (rt_directory s)"
    "as_reported (rt_failed s) (rt_reported s) (rt_store s)"
    using assms(1) by (rule retention_invE)
  let ?A = "rs_anchors (rt_store s)"
  from assms(2) inv(5) show ?thesis
  proof (cases rule: remove_before_cases)
    case (refused e)
    with inv failure_noted(1) [OF inv(3)] failure_noted(2) [OF inv(7)] show ?thesis
      by (intro retention_invI [of C d anchors candidate]) (auto simp: report_removed_def)
  next
    case kept
    then have "as_reported (note_failure res (Remove epoch) (rt_failed s)) (report_removed res epoch (rt_reported s)) t"
      by (intro as_reported_removed [OF inv(7)]) simp_all
    with kept inv failure_noted(1) [OF inv(3)] show ?thesis
      by (intro retention_invI [of C d anchors candidate]) auto
  next
    case (removed p q)
    have "anchors = ?A \<or> anchors = [q]" "candidate = None"
      using inv(2,3) removed(1,2) by (auto simp: settled_or_ahead_def valid_chain_def split: option.splits)
    moreover have "anchors \<noteq> [q]"
    proof
      assume "anchors = [q]"
      with holds_final_exists [OF inv(1) removed(5)] removed(3) show False by simp
    qed
    ultimately have eq: "anchors = [p, q]" "candidate = None" using removed(1) by simp_all
    have "holds C d [q] None" unfolding removed(6) using inv(1) removed(3) eq by (intro holds_remove) auto
    moreover have "settled_or_ahead (note_failure res (Remove epoch) (rt_failed s)) t [q] None"
      using removed(2,7) by (simp add: settled_or_ahead_def)
    moreover have "as_reported (note_failure res (Remove epoch) (rt_failed s)) (report_removed res epoch (rt_reported s)) t"
      using removed by (intro as_reported_removed [OF inv(7)]) simp_all
    moreover have "valid_chain C (rs_anchors t) (rs_candidate t)" using removed(2,4,7) by simp
    moreover have "(temporary_name (epoch_of b), File (anchor_encode C b)) \<in> set d" if "b \<in> set (rt_staged s)" for b
      using that inv(6) by (auto simp: removed(6))
    ultimately show ?thesis
      using inv(4,6) removed(4) by (intro retention_invI [of C d "[q]" None]) auto
  qed
qed

lemma retention_step_inv: "retention_step C s t \<Longrightarrow> retention_inv C s \<Longrightarrow> retention_inv C t"
proof (induction rule: retention_step.induct)
  case (staged a io s synchronize b d)
  then show ?case using retention_stage_inv [OF staged.prems staged(1,2)] by simp
next
  case (stage_failed a io s synchronize e d)
  then show ?case using retention_stage_inv [OF stage_failed.prems stage_failed(1,2)] by simp
next
  case (published s xs a ys io synchronize res t d)
  then show ?case by (intro publish_inv)
next
  case (stabilized io s epoch synchronize res t d)
  then show ?case by (intro stabilize_inv)
next
  case (removed io s epoch synchronize res t d)
  then show ?case by (intro remove_inv)
next
  case (reopened io s t d)
  obtain anchors candidate where "holds C (rt_directory s) anchors candidate" "valid_chain C anchors candidate"
    using reopened.prems by (rule retention_invE)
  with retention_open_holds [OF this reopened(1)] show ?case
    by (intro retention_invI [of C d anchors candidate]) (auto simp: settled_or_ahead_def as_reported_def)
next
  case (reopen_failed io s e d)
  obtain anchors candidate where inv: "holds C (rt_directory s) anchors candidate" "valid_chain C anchors candidate"
    "settled_or_ahead (rt_failed s) (rt_store s) anchors candidate"
    "valid_chain C (rs_anchors (rt_store s)) (rs_candidate (rt_store s))" "as_reported (rt_failed s) (rt_reported s) (rt_store s)"
    using reopen_failed.prems by (rule retention_invE)
  with retention_open_holds [OF inv(1,2) reopen_failed(1)]
  have "retention_inv C \<lparr>rt_store = rt_store s, rt_directory = d, rt_staged = [], rt_reported = rt_reported s, rt_failed = rt_failed s\<rparr>"
    by (intro retention_invI [of C d anchors candidate]) auto
  then show ?case by (cases s) simp
qed

lemma retention_create_inv:
  assumes "retention_create d = Inr t" "wf_directory d"
  shows "retention_inv C \<lparr>rt_store = t, rt_directory = d, rt_staged = [], rt_reported = ([], None), rt_failed = []\<rparr>"
proof -
  have "\<forall>x\<in>set d. other_entry x" "rs_anchors t = []" "rs_candidate t = None"
    using assms(1)
    by (induction d rule: retention_create.induct)
      (auto simp: other_entry_def split: file_name.splits if_splits)
  with assms(2) show ?thesis
    by (intro retention_invI [of C d "[]" None]) (auto simp: holds_def valid_chain_def settled_or_ahead_def as_reported_def)
qed

section \<open>Properties\<close>

text \<open>C27. From a fresh data directory, after any operations on the store with any file-system
  failures, the directory opens to a valid chain: the anchors and candidate the store holds, or
  those with one more step, of a publication or stabilization that reported an error since the
  last successful open. The store holds the chain that follows from the successes reported to its
  clients, short of anchors before the epoch of a removal that reported an error.\<close>

theorem retention_reopens:
  assumes "retention_create d = Inr t" "wf_directory d"
    and "(retention_step C)\<^sup>*\<^sup>*
      \<lparr>rt_store = t, rt_directory = d, rt_staged = [], rt_reported = ([], None), rt_failed = []\<rparr> s"
  shows "(\<exists>u d'. retention_open C all_ok (rt_directory s) = (Inr u, d')
      \<and> settled_or_ahead (rt_failed s) (rt_store s) (rs_anchors u) (rs_candidate u)
      \<and> valid_chain C (rs_anchors u) (rs_candidate u))
    \<and> as_reported (rt_failed s) (rt_reported s) (rt_store s)"
proof -
  have "retention_inv C s"
    using assms(3) by (induction rule: rtranclp_induct)
      (auto intro: retention_create_inv [OF assms(1,2)] retention_step_inv)
  then obtain anchors candidate where "holds C (rt_directory s) anchors candidate" "valid_chain C anchors candidate"
    "settled_or_ahead (rt_failed s) (rt_store s) anchors candidate" "as_reported (rt_failed s) (rt_reported s) (rt_store s)"
    by (rule retention_invE)
  with retention_open_valid [OF this(1,2)] show ?thesis by fastforce
qed

definition sample_anchor :: retention_anchor where
  "sample_anchor = \<lparr>ra_fields = \<lparr>rf_epoch = 1, rf_retired_through_sequence = 2, rf_retired_checkpoint_lsn = nz 65648,
     rf_retired_block_digest = 1, rf_base_visible_csn = nz 1, rf_manifest_generation = nz 1, rf_manifest_digest = 1,
     rf_root_commit_lsn = nz 112, rf_root_commit_block_digest = 1, rf_next_transaction_id = 1, rf_checkpoint_count = 1,
     rf_committed_transaction_count = 1, rf_previous_anchor_digest = 0\<rparr>, ra_lineage = None\<rparr>"

lemma sample_anchor_wf: "wf_anchor sample_anchor"
  by (simp add: wf_anchor_def sample_anchor_def validate_retention_anchor_fields_def sequence_for_record_lsn_def
      checked_add_def wf_lineage_option_def less_eq_nonzero_def)

text \<open>An anchor staged and published, with the synchronization of the directory failing.\<close>

theorem retention_reopens_witness:
  "\<exists>d u d'. retention_open sum_crypto all_ok d = (Inr u, d') \<and> d = [candidate_entry sum_crypto sample_anchor]
    \<and> valid_chain sum_crypto (rs_anchors u) (rs_candidate u)
    \<and> settled_or_ahead [Publish sample_anchor] \<lparr>rs_anchors = [], rs_candidate = None, rs_ignored_temporary_files = 0\<rparr>
        (rs_anchors u) (rs_candidate u)"
proof -
  let ?t = "\<lparr>rs_anchors = [], rs_candidate = None, rs_ignored_temporary_files = 0\<rparr>"
  let ?s = "\<lparr>rt_store = ?t, rt_directory = [], rt_staged = [], rt_reported = ([], None), rt_failed = []\<rparr>"
  let ?d = "dir_put (temporary_name 1) (anchor_encode sum_crypto sample_anchor) []"
  let ?s1 = "?s\<lparr>rt_directory := ?d, rt_staged := [sample_anchor]\<rparr>"
  let ?d2 = "[candidate_entry sum_crypto sample_anchor]"
  let ?s2 = "\<lparr>rt_store = ?t, rt_directory = ?d2, rt_staged = [], rt_reported = ([], None), rt_failed = [Publish sample_anchor]\<rparr>"
  have e: "rf_epoch (ra_fields sample_anchor) = 1" "epoch_of sample_anchor = 1" by (simp_all add: sample_anchor_def epoch_of_def)
  have v: "validate_next sum_crypto ?t sample_anchor = Inr ()"
    by (simp add: validate_next_def expected_next_def sample_anchor_def)
  have stage: "retention_stage sum_crypto all_ok (rt_store ?s) (rt_directory ?s) sample_anchor True = (Inr sample_anchor, ?d)"
    by (simp add: retention_stage_def v e dir_exists_def all_ok_def Let_def)
  have "publish_candidate sum_crypto (all_ok\<lparr>dir_sync_ok := False\<rparr>) (rt_store ?s1) (rt_directory ?s1) sample_anchor True
      = (Inl Io, ?t, ?d2)"
    by (simp add: publish_candidate_def v e dir_exists_def all_ok_def Let_def dir_put_def dir_rename_def dir_remove_def
        candidate_entry_def)
  from retention_step.published [OF _ this, of "[]" "[]"] have second: "retention_step sum_crypto ?s1 ?s2"
    by (simp add: report_defs)
  have "retention_step sum_crypto ?s ?s1" using retention_step.staged [OF sample_anchor_wf stage] by simp
  then have "(retention_step sum_crypto)\<^sup>*\<^sup>* ?s ?s1" by (rule r_into_rtranclp)
  then have "(retention_step sum_crypto)\<^sup>*\<^sup>* ?s ?s2" using second by (rule rtranclp.rtrancl_into_rtrancl)
  from retention_reopens [OF _ _ this] show ?thesis by (auto simp: wf_directory_def)
qed

end
