(* ===== verification/Manifest.thy ===== *)
theory Manifest
  imports Mvcc Crypto Directory
begin

text \<open>
  Root manifests (\<^verbatim>\<open>crates/hyphae-native-manifest/src/lib.rs\<close>): the immutable record of a committed
  root set with its three encodings, and the store that stages, publishes and prunes the
  digest-chained manifests of the roots directory. This theory holds the definitions; the codec
  is verified in \<^verbatim>\<open>ManifestCodec\<close> and the store in \<^verbatim>\<open>ManifestStore\<close>.
\<close>

section \<open>Manifests\<close>

datatype manifest_error =
    ManifestIo
  | ManifestMvcc mvcc_error
  | ManifestUncommittedRootSet
  | ManifestInvalidLength
  | ManifestInvalidPreamble
  | ManifestChecksumMismatch
  | ManifestDigestMismatch
  | ManifestInvalidIdentity
  | ManifestInvalidStorageState
  | ManifestNoncanonicalRoots
  | ManifestInvalidChain
  | ManifestLineageMismatch
  | ManifestUnexpectedDirectoryEntry
  | ManifestPublicationTargetExists

definition MANIFEST_HEADER_SIZE :: nat where "MANIFEST_HEADER_SIZE = 176"
definition MANIFEST_V2_HEADER_SIZE :: nat where "MANIFEST_V2_HEADER_SIZE = 192"
definition MANIFEST_V3_HEADER_SIZE :: nat where "MANIFEST_V3_HEADER_SIZE = 216"
definition MAX_MANIFEST_ROOTS :: nat where "MAX_MANIFEST_ROOTS = 4096"
definition ROOT_ENTRY_SIZE :: nat where "ROOT_ENTRY_SIZE = 12"
definition MAGIC_V1 :: bytes where "MAGIC_V1 = ascii ''HYROOT01''"
definition MAGIC_V2 :: bytes where "MAGIC_V2 = ascii ''HYROOT02''"
definition MAGIC_V3 :: bytes where "MAGIC_V3 = ascii ''HYROOT03''"

lemmas manifest_sizes = MANIFEST_HEADER_SIZE_def MANIFEST_V2_HEADER_SIZE_def MANIFEST_V3_HEADER_SIZE_def
  MAX_MANIFEST_ROOTS_def ROOT_ENTRY_SIZE_def

record root_manifest =
  rm_generation :: manifest_generation
  rm_visible_csn :: csn
  rm_catalog_version :: catalog_version
  rm_wal_anchor :: wal_anchor
  rm_blob_generation :: u64
  rm_page_generation :: page_generation
  rm_retention_floor_csn :: csn
  rm_lineage :: "lineage_identity option"
  rm_roots :: "(root_slot, page_id) ordered_map"
  rm_previous_digest :: digest
  rm_digest :: digest

definition validate_storage_state :: "page_generation \<Rightarrow> csn \<Rightarrow> csn \<Rightarrow> manifest_error + unit" where
  "validate_storage_state page_generation retention_floor_csn visible_csn =
     (let first_generation = (page_generation = FIRST);
          first_floor = (retention_floor_csn = FIRST)
      in if retention_floor_csn > visible_csn \<or> first_generation \<noteq> first_floor
         then Inl ManifestInvalidStorageState
         else Inr ())"

definition manifest_checksum :: "crypto \<Rightarrow> bytes \<Rightarrow> u32" where
  "manifest_checksum C encoded = crc32c C (put 144 (replicate 32 0) (put 64 (replicate 4 0) encoded))"

definition manifest_digest :: "crypto \<Rightarrow> bytes \<Rightarrow> digest" where
  "manifest_digest C encoded = blake3 C (put 144 (replicate 32 0) encoded)"

text \<open>The loop that writes the root entries at their offsets.\<close>

fun put_roots :: "nat \<Rightarrow> (root_slot \<times> page_id) list \<Rightarrow> bytes \<Rightarrow> bytes" where
  "put_roots offset [] encoded = encoded"
| "put_roots offset ((RootSlot engine part, page) # roots) encoded =
     (let encoded = put offset [engine_code engine] encoded;
          encoded = put (offset + 2) (to_le_bytes part) encoded;
          encoded = put (offset + 4) (to_le_bytes (get page)) encoded
      in put_roots (offset + ROOT_ENTRY_SIZE) roots encoded)"

definition is_v1 :: "root_manifest \<Rightarrow> bool" where
  "is_v1 m = (rm_lineage m = None \<and> rm_page_generation m = FIRST \<and> rm_retention_floor_csn m = FIRST)"

text \<open>Header size, magic, version and the encoded header size.\<close>

definition manifest_format :: "root_manifest \<Rightarrow> nat \<times> bytes \<times> u16 \<times> u16" where
  "manifest_format m =
     (if rm_lineage m \<noteq> None then (MANIFEST_V3_HEADER_SIZE, MAGIC_V3, 3, 216)
      else if is_v1 m then (MANIFEST_HEADER_SIZE, MAGIC_V1, 1, 176)
      else (MANIFEST_V2_HEADER_SIZE, MAGIC_V2, 2, 192))"

definition manifest_write :: "nat \<times> bytes \<times> u16 \<times> u16 \<Rightarrow> bool \<Rightarrow> root_manifest \<Rightarrow> bytes" where
  "manifest_write format v1 m =
     (let (header_size, magic, format_version, header_size_u16) = format;
          payload_length = length (rm_roots m) * ROOT_ENTRY_SIZE;
          encoded = replicate (header_size + payload_length) 0;
          encoded = put 0 magic encoded;
          encoded = put 8 (to_le_bytes format_version) encoded;
          encoded = put 10 (to_le_bytes header_size_u16) encoded;
          encoded = put 16 (to_le_bytes (get (rm_generation m))) encoded;
          encoded = put 24 (to_le_bytes (get (rm_visible_csn m))) encoded;
          encoded = put 32 (to_le_bytes (get (rm_catalog_version m))) encoded;
          encoded = put 40 (to_le_bytes (get (anchor_lsn (rm_wal_anchor m)))) encoded;
          encoded = put 48 (to_le_bytes (rm_blob_generation m)) encoded;
          encoded = put 56 (to_le_bytes (word_of_nat (length (rm_roots m)) :: u32)) encoded;
          encoded = put 60 (to_le_bytes (word_of_nat payload_length :: u32)) encoded;
          encoded = put 80 (to_be_bytes (anchor_digest (rm_wal_anchor m))) encoded;
          encoded = put 112 (to_be_bytes (rm_previous_digest m)) encoded;
          encoded = (if \<not> v1
            then put 184 (to_le_bytes (get (rm_retention_floor_csn m)))
                   (put 176 (to_le_bytes (get (rm_page_generation m))) encoded)
            else encoded);
          encoded = (case rm_lineage m of None \<Rightarrow> encoded | Some l \<Rightarrow> put 192 (lineage_encode l) encoded)
      in put_roots header_size (rm_roots m) encoded)"

text \<open>
  The conversions of the root count and the payload length to 32 bits cannot fail: there are at
  most 4096 roots.
\<close>

definition encode_without_integrity :: "root_manifest \<Rightarrow> manifest_error + bytes" where
  "encode_without_integrity m =
     (if rm_roots m = [] \<or> length (rm_roots m) > MAX_MANIFEST_ROOTS then Inl ManifestInvalidLength
      else
        attempt (validate_storage_state (rm_page_generation m) (rm_retention_floor_csn m) (rm_visible_csn m)) (\<lambda>_.
        Inr (manifest_write (manifest_format m) (is_v1 m) m)))"

definition manifest_compute_digest :: "crypto \<Rightarrow> root_manifest \<Rightarrow> manifest_error + digest" where
  "manifest_compute_digest C m =
     attempt (encode_without_integrity m) (\<lambda>encoded.
     Inr (manifest_digest C (put 64 (to_le_bytes (manifest_checksum C encoded)) encoded)))"

definition manifest_encode :: "crypto \<Rightarrow> root_manifest \<Rightarrow> manifest_error + bytes" where
  "manifest_encode C m =
     attempt (encode_without_integrity m) (\<lambda>encoded.
     let checksum = manifest_checksum C encoded;
         encoded = put 64 (to_le_bytes checksum) encoded
     in Inr (put 144 (to_be_bytes (rm_digest m)) encoded))"

definition from_root_set ::
    "crypto \<Rightarrow> manifest_generation \<Rightarrow> digest \<Rightarrow> root_set \<Rightarrow> lineage_identity option \<Rightarrow> manifest_error + root_manifest"
where
  "from_root_set C generation previous_digest root lineage =
     attempt (ok_or ManifestUncommittedRootSet (rs_visible_csn root)) (\<lambda>visible_csn.
     attempt (ok_or ManifestUncommittedRootSet (rs_wal_anchor root)) (\<lambda>wal_anchor.
     if rs_roots root = [] \<or> length (rs_roots root) > MAX_MANIFEST_ROOTS then Inl ManifestUncommittedRootSet
     else
       attempt (ok_or ManifestUncommittedRootSet (rs_retention_floor_csn root)) (\<lambda>retention_floor_csn.
       let manifest = \<lparr>rm_generation = generation, rm_visible_csn = visible_csn,
             rm_catalog_version = rs_catalog_version root, rm_wal_anchor = wal_anchor,
             rm_blob_generation = rs_blob_generation root, rm_page_generation = rs_page_generation root,
             rm_retention_floor_csn = retention_floor_csn, rm_lineage = lineage,
             rm_roots = rs_roots root, rm_previous_digest = previous_digest, rm_digest = 0\<rparr> in
       attempt (manifest_compute_digest C manifest) (\<lambda>digest.
       Inr (manifest\<lparr>rm_digest := digest\<rparr>)))))"

definition to_root_set :: "crypto \<Rightarrow> root_manifest \<Rightarrow> manifest_error + root_set" where
  "to_root_set C m =
     map_err ManifestMvcc (committed_with_storage (blake3 C) (rm_visible_csn m) (rm_catalog_version m)
       (rm_wal_anchor m) (rm_roots m) (rm_blob_generation m) (rm_page_generation m) (rm_retention_floor_csn m))"

section \<open>Decoding\<close>

definition manifest_decode_engine :: "u8 \<Rightarrow> manifest_error + engine_kind" where
  "manifest_decode_engine value =
     (if value = 0 then Inr Kernel
      else if value = 1 then Inr Relational
      else if value = 2 then Inr Structure
      else if value = 3 then Inr Search
      else Inl ManifestInvalidIdentity)"

definition manifest_identity :: "string \<Rightarrow> bytes \<Rightarrow> manifest_error + 64 nonzero" where
  "manifest_identity label bs = map_err (\<lambda>_. ManifestInvalidIdentity) (identity_new label (from_le_bytes bs))"

fun decode_roots ::
    "bytes \<Rightarrow> nat list \<Rightarrow> (root_slot, page_id) ordered_map \<Rightarrow> root_slot option
      \<Rightarrow> manifest_error + (root_slot, page_id) ordered_map"
where
  "decode_roots payload [] roots prior = Inr roots"
| "decode_roots payload (index # indices) roots prior =
     (let offset = index * ROOT_ENTRY_SIZE in
      if payload ! (offset + 1) \<noteq> 0 then Inl ManifestInvalidPreamble
      else
        attempt (manifest_decode_engine (payload ! offset)) (\<lambda>engine.
        let part = from_le_bytes (seg (offset + 2) (offset + 4) payload) in
        attempt (manifest_identity ''PageId'' (seg (offset + 4) (offset + 12) payload)) (\<lambda>page.
        let slot = RootSlot engine part in
        if (case prior of None \<Rightarrow> False | Some previous \<Rightarrow> previous \<ge> slot) \<or> om_get roots slot \<noteq> None
        then Inl ManifestNoncanonicalRoots
        else decode_roots payload indices (om_insert slot page roots) (Some slot))))"

text \<open>The match on magic, version and header size.\<close>

definition manifest_preamble ::
    "bytes \<Rightarrow> manifest_error + (nat \<times> page_generation \<times> csn \<times> lineage_identity option)"
where
  "manifest_preamble encoded =
     (let magic = seg 0 8 encoded;
          version = (from_le_bytes (seg 8 10 encoded) :: u16);
          header = (from_le_bytes (seg 10 12 encoded) :: u16)
      in
      if version = 1 \<and> header = 176 \<and> magic = MAGIC_V1 then Inr (MANIFEST_HEADER_SIZE, FIRST, FIRST, None)
      else if version = 2 \<and> header = 192 \<and> magic = MAGIC_V2 then
        if length encoded < MANIFEST_V2_HEADER_SIZE then Inl ManifestInvalidLength
        else
          attempt (manifest_identity ''PageGeneration'' (seg 176 184 encoded)) (\<lambda>page_generation.
          attempt (manifest_identity ''Csn'' (seg 184 192 encoded)) (\<lambda>floor.
          Inr (MANIFEST_V2_HEADER_SIZE, page_generation, floor, None)))
      else if version = 3 \<and> header = 216 \<and> magic = MAGIC_V3 then
        if length encoded < MANIFEST_V3_HEADER_SIZE then Inl ManifestInvalidLength
        else
          attempt (manifest_identity ''PageGeneration'' (seg 176 184 encoded)) (\<lambda>page_generation.
          attempt (manifest_identity ''Csn'' (seg 184 192 encoded)) (\<lambda>floor.
          attempt (map_err (\<lambda>_. ManifestInvalidIdentity) (lineage_decode (seg 192 216 encoded))) (\<lambda>lineage.
          Inr (MANIFEST_V3_HEADER_SIZE, page_generation, floor, Some lineage))))
      else Inl ManifestInvalidPreamble)"

definition manifest_decode :: "crypto \<Rightarrow> bytes \<Rightarrow> manifest_error + root_manifest" where
  "manifest_decode C encoded =
     (if length encoded < MANIFEST_HEADER_SIZE then Inl ManifestInvalidLength
      else
        attempt (manifest_preamble encoded) (\<lambda>(header_size, page_generation, retention_floor_csn, lineage).
        if list_ex (\<lambda>byte. byte \<noteq> 0) (seg 12 16 encoded) \<or> list_ex (\<lambda>byte. byte \<noteq> 0) (seg 68 80 encoded)
        then Inl ManifestInvalidPreamble
        else
          let root_count = unat (from_le_bytes (seg 56 60 encoded) :: u32);
              payload_length = unat (from_le_bytes (seg 60 64 encoded) :: u32)
          in
          if root_count = 0 \<or> root_count > MAX_MANIFEST_ROOTS \<or> payload_length \<noteq> root_count * ROOT_ENTRY_SIZE
            \<or> length encoded \<noteq> header_size + payload_length
          then Inl ManifestInvalidLength
          else if manifest_checksum C encoded \<noteq> from_le_bytes (seg 64 68 encoded)
          then Inl ManifestChecksumMismatch
          else
            let digest = from_be_bytes (seg 144 176 encoded) in
            if manifest_digest C encoded \<noteq> digest then Inl ManifestDigestMismatch
            else
              attempt (manifest_identity ''ManifestGeneration'' (seg 16 24 encoded)) (\<lambda>generation.
              attempt (manifest_identity ''Csn'' (seg 24 32 encoded)) (\<lambda>visible_csn.
              attempt (validate_storage_state page_generation retention_floor_csn visible_csn) (\<lambda>_.
              attempt (manifest_identity ''CatalogVersion'' (seg 32 40 encoded)) (\<lambda>catalog_version.
              attempt (manifest_identity ''Lsn'' (seg 40 48 encoded)) (\<lambda>wal_lsn.
              let blob_generation = from_le_bytes (seg 48 56 encoded);
                  wal_digest = from_be_bytes (seg 80 112 encoded)
              in
              attempt (map_err ManifestMvcc (wal_anchor_new wal_lsn wal_digest)) (\<lambda>wal_anchor.
              let previous_digest = from_be_bytes (seg 112 144 encoded) in
              attempt (decode_roots (drop header_size encoded) [0..<root_count] [] None) (\<lambda>roots.
              Inr \<lparr>rm_generation = generation, rm_visible_csn = visible_csn, rm_catalog_version = catalog_version,
                rm_wal_anchor = wal_anchor, rm_blob_generation = blob_generation,
                rm_page_generation = page_generation, rm_retention_floor_csn = retention_floor_csn,
                rm_lineage = lineage, rm_roots = roots, rm_previous_digest = previous_digest,
                rm_digest = digest\<rparr>)))))))))"

end
