(* ===== verification/ManifestCodec.thy ===== *)
theory ManifestCodec
  imports Manifest
begin

text \<open>
  The manifest codec. The decoder accepts the images of the three versions; the encoder writes
  one of them, chosen by the contents. The two agree except on version 2 images of a first page
  generation, which the decoder accepts and the encoder never writes.
\<close>

section \<open>Root entries\<close>

fun manifest_entry :: "root_slot \<times> page_id \<Rightarrow> bytes" where
  "manifest_entry (RootSlot engine part, page) =
     [engine_code engine, 0] @ to_le_bytes part @ to_le_bytes (get page)"

abbreviation manifest_payload :: "(root_slot \<times> page_id) list \<Rightarrow> bytes" where
  "manifest_payload roots \<equiv> concat (map manifest_entry roots)"

lemma length_manifest_entry [simp]: "length (manifest_entry r) = 12"
  by (cases r rule: manifest_entry.cases) simp

lemma length_manifest_payload [simp]: "length (manifest_payload roots) = length roots * 12"
  by (induction roots) simp_all

lemma root_entry_frame:
  assumes "length a = 1" "length b = 2" "length c = 8" "offset = length pre"
  shows "put (offset + 4) c (put (offset + 2) b (put offset a (pre @ replicate (12 + n) 0)))
    = pre @ (a @ replicate 1 0 @ b @ c) @ replicate n 0"
proof -
  have "put (offset + 4) c (put (offset + 2) b (put offset a (pre @ replicate (12 + n) 0)))
    = (((((pre @ a) @ replicate 1 0) @ b) @ c) @ replicate n 0)"
    by (simp add: put_zeros assms append_assoc [symmetric] del: append_assoc replicate_Suc One_nat_def)
  then show ?thesis by simp
qed

lemma put_roots_entries:
  "offset = length pre \<Longrightarrow> put_roots offset roots (pre @ replicate (length roots * 12) 0) = pre @ manifest_payload roots"
proof (induction roots arbitrary: offset pre)
  case (Cons r roots)
  obtain engine part page where r: "r = (RootSlot engine part, page)" by (cases r rule: manifest_entry.cases)
  let ?n = "length roots * 12"
  have step: "put (offset + 4) (to_le_bytes (get page)) (put (offset + 2) (to_le_bytes part)
      (put offset [engine_code engine] (pre @ replicate (12 + ?n) 0)))
    = (pre @ manifest_entry r) @ replicate ?n 0"
    using root_entry_frame [of "[engine_code engine]" "to_le_bytes part" "to_le_bytes (get page)" offset pre ?n] Cons.prems
    by (simp add: r)
  show ?case
    using Cons.IH [of "offset + 12" "pre @ manifest_entry r"] Cons.prems step
    by (simp add: r ROOT_ENTRY_SIZE_def Let_def)
qed simp

lemma manifest_decode_engine_iff [result_simps]:
  "(manifest_decode_engine value = Inr engine) = (value = engine_code engine)"
  by (cases engine) (auto simp: manifest_decode_engine_def)

lemma manifest_identity_iff [result_simps]:
  "length bs = 8 \<Longrightarrow> (manifest_identity label bs = Inr i) = (bs = to_le_bytes (get i))"
  by (simp add: manifest_identity_def result_simps from_le_bytes_iff)

lemma om_insert_last: "(\<forall>x \<in> set m. fst x < k) \<Longrightarrow> om_insert k v m = m @ [(k, v)]"
  by (induction m) auto

lemma manifest_entry_iff:
  assumes "length bs = 12"
  shows "(bs = manifest_entry (RootSlot engine part, page))
    = (bs ! 1 = 0 \<and> bs ! 0 = engine_code engine \<and> (from_le_bytes (seg 2 4 bs) :: u16) = part
       \<and> seg 4 12 bs = to_le_bytes (get page))"
proof -
  have "bs = seg 0 1 bs @ seg 1 2 bs @ seg 2 4 bs @ seg 4 12 bs"
    using assms seg_all [of bs] by (simp flip: seg_split)
  moreover have "seg 0 1 bs = [bs ! 0]" "seg 1 2 bs = [bs ! 1]"
    using assms seg_one [of 0 bs] seg_one [of 1 bs] by (simp_all add: numeral_2_eq_2)
  ultimately have bs: "bs = [bs ! 0, bs ! 1] @ seg 2 4 bs @ seg 4 12 bs" by simp
  have "(bs = manifest_entry (RootSlot engine part, page))
    = ([bs ! 0, bs ! 1] @ seg 2 4 bs @ seg 4 12 bs = [engine_code engine, 0] @ to_le_bytes part @ to_le_bytes (get page))"
    by (subst bs) simp
  also have "\<dots> = (bs ! 1 = 0 \<and> bs ! 0 = engine_code engine \<and> seg 2 4 bs = to_le_bytes part
       \<and> seg 4 12 bs = to_le_bytes (get page))"
    using assms by (auto simp: append_eq_append_conv)
  finally show ?thesis using assms by (simp add: from_le_bytes_iff)
qed

definition prior_slot :: "(root_slot, page_id) ordered_map \<Rightarrow> root_slot option" where
  "prior_slot roots = (if roots = [] then None else Some (fst (last roots)))"

lemma prior_slot_iff:
  assumes "om_sorted roots"
  shows "((case prior_slot roots of None \<Rightarrow> False | Some previous \<Rightarrow> previous \<ge> slot) \<or> om_get roots slot \<noteq> None)
    = (\<not> (\<forall>x \<in> set roots. fst x < slot))"
proof (cases roots rule: rev_cases)
  case (snoc ys y)
  have "\<forall>x \<in> set ys. fst x < fst y" using assms by (auto simp: snoc om_sorted_def sorted_wrt_append)
  then have "(fst y < slot) = (\<forall>x \<in> set roots. fst x < slot)"
    by (auto simp: snoc dest: less_trans)
  moreover have "(\<forall>x \<in> set roots. fst x < slot) \<Longrightarrow> om_get roots slot = None"
    by (auto simp: map_of_eq_None_iff)
  ultimately show ?thesis by (auto simp: prior_slot_def snoc not_le)
qed (simp add: prior_slot_def)

lemma om_sorted_snoc: "om_sorted (m @ [(k, v)]) = (om_sorted m \<and> (\<forall>x \<in> set m. fst x < k))"
  by (auto simp: om_sorted_def sorted_wrt_append)

lemma om_sorted_appendD: "om_sorted (m @ m') \<Longrightarrow> om_sorted m"
  by (simp add: om_sorted_def sorted_wrt_append)


lemma ex_root_slot: "(\<exists>slot. P slot) = (\<exists>engine part. P (RootSlot engine part))"
  by (metis root_slot.exhaust)

lemma decode_roots_step:
  assumes "length payload = n * 12" "i < n" "om_sorted roots"
  shows "(decode_roots payload (i # is) roots (prior_slot roots) = Inr r)
    = (\<exists>slot page. seg (i * 12) (i * 12 + 12) payload = manifest_entry (slot, page) \<and> (\<forall>x \<in> set roots. fst x < slot)
         \<and> decode_roots payload is (roots @ [(slot, page)]) (prior_slot (roots @ [(slot, page)])) = Inr r)"
    (is "?L = ?R")
proof -
  let ?bs = "seg (i * 12) (i * 12 + 12) payload"
  have "i * 12 + 12 \<le> length payload" using assms(1,2) by simp
  then have bs: "length ?bs = 12" "?bs ! 0 = payload ! (i * 12)" "?bs ! 1 = payload ! (i * 12 + 1)"
    "seg 2 4 ?bs = seg (i * 12 + 2) (i * 12 + 4) payload" "seg 4 12 ?bs = seg (i * 12 + 4) (i * 12 + 12) payload"
    by (simp_all add: seg_nth seg_seg)
  note entry = manifest_entry_iff [OF bs(1), unfolded bs(2-5)]
  have len: "length (seg (i * 12 + 4) (i * 12 + 12) payload) = 8" using \<open>i * 12 + 12 \<le> length payload\<close> by simp
  have L: "?L = (payload ! (i * 12 + 1) = 0 \<and> (\<exists>engine page. payload ! (i * 12) = engine_code engine
      \<and> seg (i * 12 + 4) (i * 12 + 12) payload = to_le_bytes (get page)
      \<and> (let slot = RootSlot engine (from_le_bytes (seg (i * 12 + 2) (i * 12 + 4) payload)) in
          (\<forall>x \<in> set roots. fst x < slot) \<and> decode_roots payload is (om_insert slot page roots) (Some slot) = Inr r)))"
    by (simp add: ROOT_ENTRY_SIZE_def Let_def result_simps manifest_identity_iff [OF len] prior_slot_iff [OF assms(3)]
        del: not_None_eq de_Morgan_disj)
  have R: "?R = (\<exists>engine part page. ?bs = manifest_entry (RootSlot engine part, page) \<and> (\<forall>x \<in> set roots. fst x < RootSlot engine part)
         \<and> decode_roots payload is (om_insert (RootSlot engine part) page roots) (Some (RootSlot engine part)) = Inr r)"
    (is "_ = (\<exists>engine part page. ?Q engine part page)")
  proof -
    have "?R = (\<exists>slot. \<exists>page. ?bs = manifest_entry (slot, page) \<and> (\<forall>x \<in> set roots. fst x < slot)
         \<and> decode_roots payload is (om_insert slot page roots) (Some slot) = Inr r)"
      by (intro arg_cong [of _ _ Ex] ext conj_cong refl) (simp add: om_insert_last prior_slot_def)
    then show ?thesis by (simp only: ex_root_slot)
  qed
  show ?thesis unfolding L R entry Let_def by blast
qed

lemma decode_roots_from:
  assumes "length payload = n * 12" "i \<le> n" "om_sorted roots"
  shows "(decode_roots payload [i..<n] roots (prior_slot roots) = Inr r)
    = (\<exists>t. r = roots @ t \<and> om_sorted r \<and> length t = n - i \<and> drop (i * 12) payload = manifest_payload t)"
  using assms(2,3)
proof (induction "n - i" arbitrary: i roots)
  case 0
  then show ?case using assms(1) by auto
next
  case (Suc k)
  then have i: "i < n" "k = n - Suc i" "Suc i \<le> n" by simp_all
  have drop: "drop (i * 12) payload = seg (i * 12) (i * 12 + 12) payload @ drop (Suc i * 12) payload"
    using append_take_drop_id [of 12 "drop (i * 12) payload"] by (simp add: seg_def add.commute)
  have len: "length (seg (i * 12) (i * 12 + 12) payload) = 12" using assms(1) i by simp
  have IH: "(decode_roots payload [Suc i..<n] (roots @ [(slot, page)]) (prior_slot (roots @ [(slot, page)])) = Inr r)
    = (\<exists>t. r = (roots @ [(slot, page)]) @ t \<and> om_sorted r \<and> length t = k \<and> drop (Suc i * 12) payload = manifest_payload t)"
    if "\<forall>x \<in> set roots. fst x < slot" for slot page
    using Suc.hyps(1) [OF i(2,3), of "roots @ [(slot, page)]"] that Suc.prems(2) i(2) by (simp add: om_sorted_snoc)
  have "(decode_roots payload [i..<n] roots (prior_slot roots) = Inr r)
    = (\<exists>slot page. seg (i * 12) (i * 12 + 12) payload = manifest_entry (slot, page) \<and> (\<forall>y \<in> set roots. fst y < slot)
        \<and> (\<exists>t. r = (roots @ [(slot, page)]) @ t \<and> om_sorted r \<and> length t = k \<and> drop (Suc i * 12) payload = manifest_payload t))"
    unfolding upt_conv_Cons [OF i(1)] decode_roots_step [OF assms(1) i(1) Suc.prems(2)]
    by (intro arg_cong [of _ _ Ex] ext conj_cong refl IH)
  also have "\<dots> = (\<exists>x t. drop (i * 12) payload = manifest_payload (x # t)
        \<and> r = roots @ x # t \<and> om_sorted r \<and> length (x # t) = Suc k)"
    unfolding drop using len by (auto simp: append_eq_append_conv om_sorted_def sorted_wrt_append)
  also have "\<dots> = (\<exists>t. r = roots @ t \<and> om_sorted r \<and> length t = n - i \<and> drop (i * 12) payload = manifest_payload t)"
    unfolding Suc.hyps(2) [symmetric] by (auto simp: length_Suc_conv)
  finally show ?case .
qed

lemma decode_roots_iff:
  assumes "length payload = n * 12"
  shows "(decode_roots payload [0..<n] [] None = Inr roots)
    = (om_sorted roots \<and> length roots = n \<and> payload = manifest_payload roots)"
  using decode_roots_from [OF assms, of 0 "[]"] by (auto simp: prior_slot_def)


section \<open>Layout\<close>

text \<open>The format of each version and the manifests it can carry.\<close>

definition format_of :: "nat \<Rightarrow> nat \<times> bytes \<times> u16 \<times> u16" where
  "format_of v =
     (if v = 1 then (176, MAGIC_V1, 1, 176) else if v = 2 then (192, MAGIC_V2, 2, 192) else (216, MAGIC_V3, 3, 216))"

definition carries :: "nat \<Rightarrow> root_manifest \<Rightarrow> bool" where
  "carries v m = (v = 1 \<and> is_v1 m \<or> v = 2 \<and> rm_lineage m = None \<or> v = 3 \<and> rm_lineage m \<noteq> None)"

definition manifest_version :: "root_manifest \<Rightarrow> nat" where
  "manifest_version m = (if rm_lineage m \<noteq> None then 3 else if is_v1 m then 1 else 2)"

lemma manifest_version_carries [simp]: "carries (manifest_version m) m"
  by (simp add: carries_def manifest_version_def is_v1_def)

lemma manifest_format_version: "manifest_format m = format_of (manifest_version m)"
  by (simp add: manifest_format_def format_of_def manifest_version_def is_v1_def manifest_sizes)

lemma is_v1_version: "is_v1 m = (manifest_version m = 1)"
  by (simp add: manifest_version_def is_v1_def)

definition manifest_head :: "nat \<Rightarrow> bytes" where
  "manifest_head v = (case format_of v of (_, magic, version, header) \<Rightarrow> magic @ to_le_bytes version @ to_le_bytes header)"

definition manifest_fields :: "root_manifest \<Rightarrow> bytes" where
  "manifest_fields m = to_le_bytes (get (rm_generation m)) @ to_le_bytes (get (rm_visible_csn m))
     @ to_le_bytes (get (rm_catalog_version m)) @ to_le_bytes (get (anchor_lsn (rm_wal_anchor m)))
     @ to_le_bytes (rm_blob_generation m) @ to_le_bytes (word_of_nat (length (rm_roots m)) :: u32)
     @ to_le_bytes (word_of_nat (length (rm_roots m) * 12) :: u32)"

definition manifest_links :: "root_manifest \<Rightarrow> bytes" where
  "manifest_links m = to_be_bytes (anchor_digest (rm_wal_anchor m)) @ to_be_bytes (rm_previous_digest m)"

definition manifest_storage :: "nat \<Rightarrow> root_manifest \<Rightarrow> bytes" where
  "manifest_storage v m =
     (if v = 1 then []
      else to_le_bytes (get (rm_page_generation m)) @ to_le_bytes (get (rm_retention_floor_csn m))
        @ (case rm_lineage m of None \<Rightarrow> [] | Some l \<Rightarrow> lineage_encode l))"

lemma length_manifest_parts [simp]:
  "length (manifest_head v) = 12" "length (manifest_fields m) = 48" "length (manifest_links m) = 64"
  by (simp_all add: manifest_head_def format_of_def manifest_fields_def manifest_links_def MAGIC_V1_def MAGIC_V2_def MAGIC_V3_def)

lemma length_manifest_storage:
  "carries v m \<Longrightarrow> wf_lineage_option (rm_lineage m) \<Longrightarrow> 176 + length (manifest_storage v m) = fst (format_of v)"
  by (auto simp: manifest_storage_def carries_def format_of_def wf_lineage_option_def split: option.splits)

text \<open>A manifest with the given checksum and digest fields.\<close>

definition manifest_layout :: "nat \<Rightarrow> root_manifest \<Rightarrow> bytes \<Rightarrow> bytes \<Rightarrow> bytes" where
  "manifest_layout v m ck dg = manifest_head v @ replicate 4 0 @ manifest_fields m @ ck @ replicate 12 0
     @ manifest_links m @ dg @ manifest_storage v m @ manifest_payload (rm_roots m)"

lemma manifest_frame:
  assumes "length a = 8" "length b = 2" "length c = 2" "length d = 8" "length e = 8" "length f = 8"
    "length g = 8" "length h = 8" "length i = 4" "length j = 4" "length k = 32" "length l = 32"
  shows "put 112 l (put 80 k (put 60 j (put 56 i (put 48 h (put 40 g (put 32 f (put 24 e (put 16 d (put 10 c (put 8 b
      (put 0 a (replicate (176 + r) 0))))))))))))
    = (a @ b @ c) @ replicate 4 0 @ (d @ e @ f @ g @ h @ i @ j) @ replicate 4 0 @ replicate 12 0 @ (k @ l)
      @ replicate 32 0 @ replicate r 0"
proof -
  have "put 112 l (put 80 k (put 60 j (put 56 i (put 48 h (put 40 g (put 32 f (put 24 e (put 16 d (put 10 c (put 8 b
      (put 0 a (replicate (176 + r) 0))))))))))))
    = (((((((((((((a @ b) @ c) @ replicate 4 0) @ d) @ e) @ f) @ g) @ h) @ i) @ j) @ replicate 16 0) @ k) @ l)
      @ replicate (32 + r) 0"
    by (simp add: put_zeros_start put_zeros assms append_assoc [symmetric] del: append_assoc)
  also have "\<dots> = (a @ b @ c) @ replicate 4 0 @ (d @ e @ f @ g @ h @ i @ j) @ replicate (4 + 12) 0 @ (k @ l)
      @ replicate (32 + r) 0"
    by simp
  finally show ?thesis by (simp only: replicate_add append_assoc)
qed

lemma storage_frame:
  assumes "length pre = 176" "length a = 8" "length b = 8"
  shows "put 184 b (put 176 a (pre @ replicate (16 + r) 0)) = pre @ (a @ b) @ replicate r 0"
proof -
  have "put 184 b (put 176 a (pre @ replicate (16 + r) 0)) = ((pre @ a) @ b) @ replicate r 0"
    by (simp add: put_zeros assms append_assoc [symmetric] del: append_assoc)
  then show ?thesis by simp
qed

lemma lineage_frame:
  assumes "length pre = 176" "length a = 8" "length b = 8" "length l = 24"
  shows "put 192 l (put 184 b (put 176 a (pre @ replicate (40 + r) 0))) = pre @ (a @ b @ l) @ replicate r 0"
  using storage_frame [OF assms(1-3), of "24 + r"] put_zeros [of "pre @ a @ b" 192 l "24 + r"] assms by simp

lemma manifest_write_layout:
  assumes "carries v m" "wf_lineage_option (rm_lineage m)"
  shows "manifest_write (format_of v) (v = 1) m = manifest_layout v m (replicate 4 0) (replicate 32 0)"
proof -
  let ?n = "length (rm_roots m) * 12"
  define pre where "pre = manifest_head v @ replicate 4 0 @ manifest_fields m @ replicate 4 0 @ replicate 12 0
     @ manifest_links m @ replicate 32 0"
  obtain size magic version header where fmt: "format_of v = (size, magic, version, header)" by (metis prod_cases4)
  have magic: "length magic = 8" using fmt by (auto simp: format_of_def MAGIC_V1_def MAGIC_V2_def MAGIC_V3_def split: if_splits)
  have size: "176 \<le> size" using fmt by (auto simp: format_of_def split: if_splits)
  have len: "length pre = 176" by (simp add: pre_def)
  define base where "base = pre @ replicate (size - 176 + ?n) 0"
  have base: "put 112 (to_be_bytes (rm_previous_digest m)) (put 80 (to_be_bytes (anchor_digest (rm_wal_anchor m)))
      (put 60 (to_le_bytes (word_of_nat ?n :: u32)) (put 56 (to_le_bytes (word_of_nat (length (rm_roots m)) :: u32))
      (put 48 (to_le_bytes (rm_blob_generation m)) (put 40 (to_le_bytes (get (anchor_lsn (rm_wal_anchor m))))
      (put 32 (to_le_bytes (get (rm_catalog_version m))) (put 24 (to_le_bytes (get (rm_visible_csn m)))
      (put 16 (to_le_bytes (get (rm_generation m))) (put 10 (to_le_bytes header) (put 8 (to_le_bytes version)
      (put 0 magic (replicate (size + ?n) 0)))))))))))) = base"
    using manifest_frame [of magic "to_le_bytes version" "to_le_bytes header", where r = "size - 176 + ?n"] magic size
    by (simp add: base_def pre_def manifest_head_def fmt manifest_fields_def manifest_links_def)
  have written: "manifest_write (format_of v) (v = 1) m = put_roots size (rm_roots m)
    (let encoded = (if v \<noteq> 1 then put 184 (to_le_bytes (get (rm_retention_floor_csn m)))
                   (put 176 (to_le_bytes (get (rm_page_generation m))) base) else base)
     in case rm_lineage m of None \<Rightarrow> encoded | Some l \<Rightarrow> put 192 (lineage_encode l) encoded)"
    unfolding manifest_write_def fmt Let_def prod.case ROOT_ENTRY_SIZE_def base ..
  have "\<dots> = put_roots size (rm_roots m) ((pre @ manifest_storage v m) @ replicate ?n 0)"
    using assms fmt
      storage_frame [OF len, of "to_le_bytes (get (rm_page_generation m))" "to_le_bytes (get (rm_retention_floor_csn m))"]
      lineage_frame [OF len, of "to_le_bytes (get (rm_page_generation m))" "to_le_bytes (get (rm_retention_floor_csn m))"]
    by (auto simp: base_def Let_def carries_def format_of_def is_v1_def manifest_storage_def wf_lineage_option_def
        split: option.splits)
  also have "\<dots> = (pre @ manifest_storage v m) @ manifest_payload (rm_roots m)"
    using length_manifest_storage [OF assms] by (intro put_roots_entries) (simp add: len fmt)
  finally show ?thesis unfolding written by (simp add: manifest_layout_def pre_def)
qed

lemma manifest_layout_put_checksum:
  "length ck = 4 \<Longrightarrow> length x = 4 \<Longrightarrow> put 64 x (manifest_layout v m ck dg) = manifest_layout v m x dg"
  using put_middle [of 64 "manifest_head v @ replicate 4 0 @ manifest_fields m" ck x]
  by (simp add: manifest_layout_def)

lemma manifest_layout_put_digest:
  "length ck = 4 \<Longrightarrow> length dg = 32 \<Longrightarrow> length y = 32 \<Longrightarrow> put 144 y (manifest_layout v m ck dg) = manifest_layout v m ck y"
  using put_middle [of 144 "manifest_head v @ replicate 4 0 @ manifest_fields m @ ck @ replicate 12 0 @ manifest_links m" dg y]
  by (simp add: manifest_layout_def)

lemmas manifest_layout_puts = manifest_layout_put_checksum manifest_layout_put_digest

text \<open>The checksum and the digest of the image of a manifest in a version.\<close>

definition manifest_ck :: "crypto \<Rightarrow> nat \<Rightarrow> root_manifest \<Rightarrow> u32" where
  "manifest_ck C v m = crc32c C (manifest_layout v m (replicate 4 0) (replicate 32 0))"

definition manifest_dg :: "crypto \<Rightarrow> nat \<Rightarrow> root_manifest \<Rightarrow> digest" where
  "manifest_dg C v m = blake3 C (manifest_layout v m (to_le_bytes (manifest_ck C v m)) (replicate 32 0))"

definition manifest_image :: "crypto \<Rightarrow> nat \<Rightarrow> root_manifest \<Rightarrow> bytes" where
  "manifest_image C v m = manifest_layout v m (to_le_bytes (manifest_ck C v m)) (to_be_bytes (rm_digest m))"

lemma manifest_layout_integrity:
  assumes "length ck = 4" "length dg = 32"
  shows "manifest_checksum C (manifest_layout v m ck dg) = manifest_ck C v m"
    "manifest_digest C (manifest_layout v m ck dg) = blake3 C (manifest_layout v m ck (replicate 32 0))"
  using assms by (simp_all add: manifest_checksum_def manifest_digest_def manifest_ck_def manifest_layout_puts)

definition encodable_manifest :: "root_manifest \<Rightarrow> bool" where
  "encodable_manifest m = (rm_roots m \<noteq> [] \<and> length (rm_roots m) \<le> 4096
     \<and> validate_storage_state (rm_page_generation m) (rm_retention_floor_csn m) (rm_visible_csn m) = Inr ())"

lemma encode_without_integrity_iff:
  assumes "wf_lineage_option (rm_lineage m)"
  shows "(encode_without_integrity m = Inr e)
    = (encodable_manifest m \<and> e = manifest_layout (manifest_version m) m (replicate 4 0) (replicate 32 0))"
  using manifest_write_layout [OF manifest_version_carries assms]
  by (auto simp: encode_without_integrity_def encodable_manifest_def result_simps MAX_MANIFEST_ROOTS_def
      manifest_format_version is_v1_version)

lemma manifest_encode_iff:
  assumes "wf_lineage_option (rm_lineage m)"
  shows "(manifest_encode C m = Inr e) = (encodable_manifest m \<and> e = manifest_image C (manifest_version m) m)"
    "(manifest_compute_digest C m = Inr d) = (encodable_manifest m \<and> d = manifest_dg C (manifest_version m) m)"
  by (auto simp: manifest_encode_def manifest_compute_digest_def result_simps encode_without_integrity_iff [OF assms]
      Let_def manifest_layout_integrity manifest_layout_puts manifest_image_def manifest_dg_def)


section \<open>Decoding\<close>

lemma manifest_head_iff:
  assumes "12 \<le> length e" "format_of v = (hsize, magic, version, header)"
  shows "(seg 0 12 e = manifest_head v)
    = (seg 0 8 e = magic \<and> (from_le_bytes (seg 8 10 e) :: u16) = version \<and> (from_le_bytes (seg 10 12 e) :: u16) = header)"
proof -
  have segs: "seg 0 12 e = seg 0 8 e @ seg 8 10 e @ seg 10 12 e" by (simp flip: seg_split)
  have "length magic = 8" using assms(2) by (auto simp: format_of_def MAGIC_V1_def MAGIC_V2_def MAGIC_V3_def split: if_splits)
  then show ?thesis
    unfolding segs manifest_head_def assms(2) using assms(1) by (simp add: append_eq_append_conv from_le_bytes_iff)
qed

lemma manifest_storage_iff:
  assumes "carries v m" "wf_lineage_option (rm_lineage m)" "fst (format_of v) \<le> length e"
  shows "(seg 176 (fst (format_of v)) e = manifest_storage v m)
    = (v = 1 \<or> seg 176 184 e = to_le_bytes (get (rm_page_generation m)) \<and> seg 184 192 e = to_le_bytes (get (rm_retention_floor_csn m))
        \<and> (\<forall>l. rm_lineage m = Some l \<longrightarrow> seg 192 216 e = lineage_encode l))"
proof -
  have "seg 176 192 e = seg 176 184 e @ seg 184 192 e" "seg 176 216 e = seg 176 184 e @ seg 184 192 e @ seg 192 216 e"
    by (simp_all flip: seg_split)
  then show ?thesis
    using assms by (auto simp: carries_def format_of_def manifest_storage_def wf_lineage_option_def append_eq_append_conv seg_def [of 176 176] split: option.splits)
qed

lemma manifest_preamble_iff:
  assumes "176 \<le> length e"
  shows "(manifest_preamble e = Inr (n, rm_page_generation m, rm_retention_floor_csn m, rm_lineage m))
    = (wf_lineage_option (rm_lineage m) \<and> (\<exists>v. carries v m \<and> n = fst (format_of v) \<and> n \<le> length e
         \<and> seg 0 12 e = manifest_head v \<and> seg 176 n e = manifest_storage v m))" (is "?L = ?R")
proof -
  have head: "(seg 0 12 e = manifest_head 1) = (seg 0 8 e = MAGIC_V1 \<and> (from_le_bytes (seg 8 10 e) :: u16) = 1 \<and> (from_le_bytes (seg 10 12 e) :: u16) = 176)"
    "(seg 0 12 e = manifest_head 2) = (seg 0 8 e = MAGIC_V2 \<and> (from_le_bytes (seg 8 10 e) :: u16) = 2 \<and> (from_le_bytes (seg 10 12 e) :: u16) = 192)"
    "(seg 0 12 e = manifest_head 3) = (seg 0 8 e = MAGIC_V3 \<and> (from_le_bytes (seg 8 10 e) :: u16) = 3 \<and> (from_le_bytes (seg 10 12 e) :: u16) = 216)"
    using assms by (intro manifest_head_iff; simp add: format_of_def)+
  have sizes: "fst (format_of 1) = 176" "fst (format_of 2) = 192" "fst (format_of 3) = 216"
    by (simp_all add: format_of_def)
  have lin: "(lineage_decode x = Inr l) = (wf_lineage l \<and> x = lineage_encode l)" for x l
    using lineage.dec_iff [of x l] by auto
  have cases: "(\<exists>v. carries v m \<and> P v) = ((is_v1 m \<and> P 1) \<or> (rm_lineage m = None \<and> P 2) \<or> (rm_lineage m \<noteq> None \<and> P 3))" for P
    by (auto simp: carries_def)
  have R: "?R = (wf_lineage_option (rm_lineage m) \<and>
      ((is_v1 m \<and> n = 176 \<and> seg 0 12 e = manifest_head 1)
       \<or> (rm_lineage m = None \<and> n = 192 \<and> 192 \<le> length e \<and> seg 0 12 e = manifest_head 2
          \<and> seg 176 184 e = to_le_bytes (get (rm_page_generation m)) \<and> seg 184 192 e = to_le_bytes (get (rm_retention_floor_csn m)))
       \<or> (\<exists>l. rm_lineage m = Some l \<and> n = 216 \<and> 216 \<le> length e \<and> seg 0 12 e = manifest_head 3
          \<and> seg 176 184 e = to_le_bytes (get (rm_page_generation m)) \<and> seg 184 192 e = to_le_bytes (get (rm_retention_floor_csn m))
          \<and> seg 192 216 e = lineage_encode l)))"
  proof (cases "wf_lineage_option (rm_lineage m)")
    case True
    have "carries 1 m = is_v1 m" "carries 2 m = (rm_lineage m = None)" "carries 3 m = (rm_lineage m \<noteq> None)"
      by (simp_all add: carries_def)
    with True show ?thesis
      unfolding cases sizes using assms manifest_storage_iff [of 1 m e] manifest_storage_iff [of 2 m e] manifest_storage_iff [of 3 m e]
      unfolding sizes by (cases "rm_lineage m"; cases "is_v1 m"; simp add: is_v1_def del: One_nat_def; blast)
  qed simp
  show ?thesis
    unfolding R head
    by (cases "rm_lineage m")
      (auto simp: manifest_preamble_def Let_def result_simps lin is_v1_def wf_lineage_option_def manifest_sizes
        MAGIC_V1_def MAGIC_V2_def MAGIC_V3_def split: if_splits)
qed


lemma manifest_fields_iff:
  assumes "64 \<le> length e"
  shows "(seg 16 64 e = manifest_fields m)
    = (seg 16 24 e = to_le_bytes (get (rm_generation m)) \<and> seg 24 32 e = to_le_bytes (get (rm_visible_csn m))
       \<and> seg 32 40 e = to_le_bytes (get (rm_catalog_version m))
       \<and> seg 40 48 e = to_le_bytes (get (anchor_lsn (rm_wal_anchor m)))
       \<and> seg 48 56 e = to_le_bytes (rm_blob_generation m)
       \<and> seg 56 60 e = to_le_bytes (word_of_nat (length (rm_roots m)) :: u32)
       \<and> seg 60 64 e = to_le_bytes (word_of_nat (length (rm_roots m) * 12) :: u32))"
proof -
  have segs: "seg 16 64 e = seg 16 24 e @ seg 24 32 e @ seg 32 40 e @ seg 40 48 e @ seg 48 56 e @ seg 56 60 e @ seg 60 64 e"
    by (simp flip: seg_split)
  show ?thesis unfolding segs manifest_fields_def using assms by (simp add: append_eq_append_conv)
qed

lemma manifest_links_iff:
  assumes "144 \<le> length e"
  shows "(seg 80 144 e = manifest_links m)
    = (seg 80 112 e = to_be_bytes (anchor_digest (rm_wal_anchor m)) \<and> seg 112 144 e = to_be_bytes (rm_previous_digest m))"
proof -
  have segs: "seg 80 144 e = seg 80 112 e @ seg 112 144 e" by (simp flip: seg_split)
  show ?thesis unfolding segs manifest_links_def using assms by (simp add: append_eq_append_conv)
qed

lemma manifest_partition:
  assumes "176 \<le> n" "n \<le> length e"
  shows "e = seg 0 12 e @ seg 12 16 e @ seg 16 64 e @ seg 64 68 e @ seg 68 80 e @ seg 80 144 e @ seg 144 176 e
    @ seg 176 n e @ drop n e"
proof -
  have "e = seg 0 n e @ drop n e" by (simp add: seg_def)
  also have "seg 0 n e = seg 0 12 e @ seg 12 16 e @ seg 16 64 e @ seg 64 68 e @ seg 68 80 e @ seg 80 144 e @ seg 144 176 e @ seg 176 n e"
    using assms by (simp flip: seg_split)
  finally show ?thesis by simp
qed

lemma manifest_layout_segs:
  assumes "length ck = 4" "length dg = 32" "176 + length (manifest_storage v m) = n" and e: "e = manifest_layout v m ck dg"
  shows "length e = n + length (rm_roots m) * 12" "seg 0 12 e = manifest_head v" "seg 12 16 e = replicate 4 0"
    "seg 16 64 e = manifest_fields m" "seg 64 68 e = ck" "seg 68 80 e = replicate 12 0" "seg 80 144 e = manifest_links m"
    "seg 144 176 e = dg" "seg 176 n e = manifest_storage v m" "drop n e = manifest_payload (rm_roots m)"
  using assms(1-3) unfolding e manifest_layout_def by (simp_all add: seg_def flip: assms(3))

text \<open>The count fields hold the number of roots and the payload length without wrap-around.\<close>

lemma manifest_counts:
  assumes "length roots \<le> 4096"
  shows "unat (word_of_nat (length roots) :: u32) = length roots"
    "unat (word_of_nat (length roots) * 12 :: u32) = length roots * 12"
proof -
  have "unat (word_of_nat (length roots * 12) :: u32) = length roots * 12"
    using assms by (intro unat_word_of_nat) simp
  then show "unat (word_of_nat (length roots) * 12 :: u32) = length roots * 12" by simp
qed (use assms in \<open>simp add: unat_word_of_nat\<close>)

definition valid_manifest :: "root_manifest \<Rightarrow> bool" where
  "valid_manifest m = (wf_lineage_option (rm_lineage m) \<and> encodable_manifest m \<and> om_sorted (rm_roots m)
     \<and> anchor_digest (rm_wal_anchor m) \<noteq> 0)"

lemma root_manifest_eta:
  "\<lparr>rm_generation = rm_generation m, rm_visible_csn = rm_visible_csn m, rm_catalog_version = rm_catalog_version m,
    rm_wal_anchor = rm_wal_anchor m, rm_blob_generation = rm_blob_generation m,
    rm_page_generation = rm_page_generation m, rm_retention_floor_csn = rm_retention_floor_csn m,
    rm_lineage = rm_lineage m, rm_roots = rm_roots m, rm_previous_digest = rm_previous_digest m,
    rm_digest = rm_digest m\<rparr> = m"
  by (rule root_manifest.equality) simp_all

lemma wal_anchor_eta: "\<lparr>anchor_lsn = anchor_lsn a, anchor_digest = anchor_digest a\<rparr> = a"
  by (rule wal_anchor.equality) simp_all

lemma manifest_decode_image:
  assumes "valid_manifest m" "carries v m" "rm_digest m = manifest_dg C v m" "e = manifest_image C v m"
  shows "manifest_decode C e = Inr m"
proof -
  have lin: "wf_lineage_option (rm_lineage m)" and enc: "encodable_manifest m" and sorted: "om_sorted (rm_roots m)"
    and anchor: "anchor_digest (rm_wal_anchor m) \<noteq> 0" using assms(1) by (simp_all add: valid_manifest_def)
  define n where "n = fst (format_of v)"
  have n: "176 + length (manifest_storage v m) = n" using length_manifest_storage [OF assms(2) lin] by (simp add: n_def)
  note parts = manifest_layout_segs [OF _ _ n assms(4) [unfolded manifest_image_def], simplified]
  have len: "176 \<le> length e" "64 \<le> length e" "144 \<le> length e" "n \<le> length e" using parts(1) n by simp_all
  have pre: "manifest_preamble e = Inr (n, rm_page_generation m, rm_retention_floor_csn m, rm_lineage m)"
    using manifest_preamble_iff [OF len(1), of n m] lin assms(2) len(4) parts(2,9) n_def by blast
  note fields = parts(4) [unfolded manifest_fields_iff [OF len(2)]]
  note links = parts(7) [unfolded manifest_links_iff [OF len(3)]]
  have roots: "decode_roots (drop n e) [0..<length (rm_roots m)] [] None = Inr (rm_roots m)"
    using sorted parts(10) by (simp add: decode_roots_iff)
  have count: "rm_roots m \<noteq> []" "length (rm_roots m) \<le> 4096"
    and valid: "validate_storage_state (rm_page_generation m) (rm_retention_floor_csn m) (rm_visible_csn m) = Inr ()"
    using enc by (simp_all add: encodable_manifest_def)
  have ck: "manifest_checksum C e = manifest_ck C v m" and dg: "manifest_digest C e = rm_digest m"
    unfolding assms(4) manifest_image_def using assms(3) by (simp_all add: manifest_layout_integrity manifest_dg_def)
  have ids: "manifest_identity label (to_le_bytes (get i)) = Inr i" for label i by (simp add: manifest_identity_iff)
  show ?thesis
    using len(1) fields links count anchor
    by (simp add: manifest_decode_def pre parts(1,3,5,6,8) ck dg roots valid ids manifest_counts wal_anchor_new_def
        wal_anchor_eta root_manifest_eta manifest_sizes Let_def)
qed


lemma all_zero_seg: "length (seg a b e) = k \<Longrightarrow> (\<not> list_ex (\<lambda>byte. byte \<noteq> 0) (seg a b e)) = (seg a b e = replicate k (0 :: u8))"
  using all_zero_iff [of "seg a b e"] by (simp only:)

lemma manifest_decode_fields:
  assumes "manifest_decode C e = Inr m"
  obtains n where "176 \<le> length e"
    "manifest_preamble e = Inr (n, rm_page_generation m, rm_retention_floor_csn m, rm_lineage m)"
    "\<not> list_ex (\<lambda>byte. byte \<noteq> 0) (seg 12 16 e)" "\<not> list_ex (\<lambda>byte. byte \<noteq> 0) (seg 68 80 e)"
    "0 < unat (from_le_bytes (seg 56 60 e) :: u32)" "unat (from_le_bytes (seg 56 60 e) :: u32) \<le> 4096"
    "unat (from_le_bytes (seg 60 64 e) :: u32) = unat (from_le_bytes (seg 56 60 e) :: u32) * 12"
    "length e = n + unat (from_le_bytes (seg 60 64 e) :: u32)"
    "manifest_checksum C e = from_le_bytes (seg 64 68 e)"
    "manifest_digest C e = rm_digest m" "from_be_bytes (seg 144 176 e) = rm_digest m"
    "manifest_identity ''ManifestGeneration'' (seg 16 24 e) = Inr (rm_generation m)"
    "manifest_identity ''Csn'' (seg 24 32 e) = Inr (rm_visible_csn m)"
    "validate_storage_state (rm_page_generation m) (rm_retention_floor_csn m) (rm_visible_csn m) = Inr ()"
    "manifest_identity ''CatalogVersion'' (seg 32 40 e) = Inr (rm_catalog_version m)"
    "manifest_identity ''Lsn'' (seg 40 48 e) = Inr (anchor_lsn (rm_wal_anchor m))"
    "from_le_bytes (seg 48 56 e) = rm_blob_generation m"
    "from_be_bytes (seg 80 112 e) = anchor_digest (rm_wal_anchor m)" "anchor_digest (rm_wal_anchor m) \<noteq> 0"
    "from_be_bytes (seg 112 144 e) = rm_previous_digest m"
    "decode_roots (drop n e) [0..<unat (from_le_bytes (seg 56 60 e) :: u32)] [] None = Inr (rm_roots m)"
  using assms
  by (auto simp: manifest_decode_def Let_def result_simps wal_anchor_new_def manifest_sizes split: if_splits)

lemma manifest_image_decoded:
  assumes "manifest_decode C e = Inr m"
  shows "\<exists>v. carries v m \<and> valid_manifest m \<and> rm_digest m = manifest_dg C v m \<and> e = manifest_image C v m"
  using assms
proof (rule manifest_decode_fields)
  fix n
  let ?count = "unat (from_le_bytes (seg 56 60 e) :: u32)"
  assume len: "176 \<le> length e"
    and pre: "manifest_preamble e = Inr (n, rm_page_generation m, rm_retention_floor_csn m, rm_lineage m)"
    and zeros: "\<not> list_ex (\<lambda>byte. byte \<noteq> 0) (seg 12 16 e)" "\<not> list_ex (\<lambda>byte. byte \<noteq> 0) (seg 68 80 e)"
    and count: "0 < ?count" "?count \<le> 4096" "unat (from_le_bytes (seg 60 64 e) :: u32) = ?count * 12"
      "length e = n + unat (from_le_bytes (seg 60 64 e) :: u32)"
    and ck: "manifest_checksum C e = from_le_bytes (seg 64 68 e)"
    and dg: "manifest_digest C e = rm_digest m" "from_be_bytes (seg 144 176 e) = rm_digest m"
    and ids: "manifest_identity ''ManifestGeneration'' (seg 16 24 e) = Inr (rm_generation m)"
      "manifest_identity ''Csn'' (seg 24 32 e) = Inr (rm_visible_csn m)"
      "manifest_identity ''CatalogVersion'' (seg 32 40 e) = Inr (rm_catalog_version m)"
      "manifest_identity ''Lsn'' (seg 40 48 e) = Inr (anchor_lsn (rm_wal_anchor m))"
    and valid: "validate_storage_state (rm_page_generation m) (rm_retention_floor_csn m) (rm_visible_csn m) = Inr ()"
    and words: "from_le_bytes (seg 48 56 e) = rm_blob_generation m"
      "from_be_bytes (seg 80 112 e) = anchor_digest (rm_wal_anchor m)" "from_be_bytes (seg 112 144 e) = rm_previous_digest m"
    and anchor: "anchor_digest (rm_wal_anchor m) \<noteq> 0"
    and roots: "decode_roots (drop n e) [0..<?count] [] None = Inr (rm_roots m)"
  obtain v where lin: "wf_lineage_option (rm_lineage m)" and v: "carries v m" "n = fst (format_of v)" "n \<le> length e"
    "seg 0 12 e = manifest_head v" "seg 176 n e = manifest_storage v m"
    using pre manifest_preamble_iff [OF len, of n m] by blast
  have n: "176 + length (manifest_storage v m) = n" using length_manifest_storage [OF v(1) lin] v(2) by simp
  have r: "om_sorted (rm_roots m)" "length (rm_roots m) = ?count" "drop n e = manifest_payload (rm_roots m)"
    using roots count(3,4) by (subst (asm) decode_roots_iff; simp)+
  have "seg 56 60 e = to_le_bytes (word_of_nat (length (rm_roots m)) :: u32)"
    "seg 60 64 e = to_le_bytes (word_of_nat (length (rm_roots m) * 12) :: u32)"
    unfolding r(2) count(3) [symmetric] using len by simp_all
  with ids words len have fields: "seg 16 64 e = manifest_fields m" "seg 80 144 e = manifest_links m"
    by (simp_all add: manifest_fields_iff manifest_links_iff manifest_identity_iff from_le_bytes_iff from_be_bytes_iff)
  have "seg 12 16 e = replicate 4 0" "seg 68 80 e = replicate 12 0" 
    using zeros len all_zero_seg [of 12 16 e 4] all_zero_seg [of 68 80 e 12] by simp_all
  then have e: "e = manifest_layout v m (seg 64 68 e) (seg 144 176 e)"
    using manifest_partition [OF _ v(3)] n by (simp add: manifest_layout_def v(4,5) fields r(3))
  have "manifest_checksum C e = manifest_ck C v m"
    by (subst e, rule manifest_layout_integrity) (use len in simp_all)
  with ck have ck': "seg 64 68 e = to_le_bytes (manifest_ck C v m)"
    using len by (simp add: eq_commute [of _ "from_le_bytes _"] from_le_bytes_iff)
  have "manifest_digest C e = manifest_dg C v m"
    unfolding manifest_dg_def ck' [symmetric] by (subst e, rule manifest_layout_integrity) (use len in simp_all)
  with dg(1) have "rm_digest m = manifest_dg C v m" by simp
  moreover have "seg 144 176 e = to_be_bytes (rm_digest m)" using dg(2) len by (simp add: from_be_bytes_iff)
  ultimately show ?thesis
    using e ck' v(1) lin r(1,2) count anchor valid
    by (auto simp: valid_manifest_def encodable_manifest_def manifest_image_def)
qed

lemma manifest_decode_iff:
  "(manifest_decode C e = Inr m)
    = (\<exists>v. carries v m \<and> valid_manifest m \<and> rm_digest m = manifest_dg C v m \<and> e = manifest_image C v m)"
  using manifest_decode_image manifest_image_decoded by blast


section \<open>The codec and its exception\<close>

definition wf_manifest :: "crypto \<Rightarrow> root_manifest \<Rightarrow> bool" where
  "wf_manifest C m = (valid_manifest m \<and> manifest_compute_digest C m = Inr (rm_digest m))"

lemma wf_manifest_iff: "wf_manifest C m = (valid_manifest m \<and> rm_digest m = manifest_dg C (manifest_version m) m)"
  by (auto simp: wf_manifest_def manifest_encode_iff valid_manifest_def)

lemma wf_manifest_encode: "wf_manifest C m \<Longrightarrow> manifest_encode C m = Inr (manifest_image C (manifest_version m) m)"
  by (simp add: wf_manifest_iff manifest_encode_iff valid_manifest_def)

interpretation manifest_codec: codec "wf_manifest C" "manifest_encode C" "manifest_decode C" for C
proof
  fix m b
  assume wf: "wf_manifest C m" and "manifest_encode C m = Inr b"
  then have "b = manifest_image C (manifest_version m) m" by (simp add: wf_manifest_encode)
  with wf show "manifest_decode C b = Inr m"
    by (intro manifest_decode_image [of m "manifest_version m"]) (simp_all add: wf_manifest_iff)
qed

text \<open>A version that carries a manifest is the one the encoder writes, or version 2 for a first
  page generation.\<close>

lemma carries_cases: "carries v m = (v = manifest_version m \<or> (v = 2 \<and> is_v1 m))"
  by (auto simp: carries_def manifest_version_def is_v1_def)

text \<open>A sample manifest of the first page generation.\<close>

definition sample_anchor_wal :: wal_anchor where
  "sample_anchor_wal = \<lparr>anchor_lsn = nz 1, anchor_digest = 1\<rparr>"

definition sample_manifest :: root_manifest where
  "sample_manifest = \<lparr>rm_generation = nz 1, rm_visible_csn = nz 1, rm_catalog_version = nz 1,
     rm_wal_anchor = sample_anchor_wal, rm_blob_generation = 0, rm_page_generation = FIRST,
     rm_retention_floor_csn = FIRST, rm_lineage = None, rm_roots = [(RootSlot Kernel 0, nz 1)],
     rm_previous_digest = 0, rm_digest = 0\<rparr>"

lemma sample_manifest_valid: "valid_manifest sample_manifest" "is_v1 sample_manifest"
  by (simp_all add: sample_manifest_def sample_anchor_wal_def valid_manifest_def encodable_manifest_def is_v1_def
      wf_lineage_option_def validate_storage_state_def FIRST_def not_less)

text \<open>C31. The decoder accepts exactly the encodings of well-formed manifests (with the checksum and
  the digest of their contents) and, besides, the version 2 images of manifests of the first page
  generation, and returns the manifest.\<close>

theorem manifest_decode_characterised:
  "(manifest_decode C encoded = Inr m)
    = (wf_manifest C m \<and> manifest_encode C m = Inr encoded
       \<or> valid_manifest m \<and> is_v1 m \<and> rm_digest m = manifest_dg C 2 m \<and> encoded = manifest_image C 2 m)"
  unfolding manifest_decode_iff carries_cases using wf_manifest_encode [of C m] by (auto simp: wf_manifest_iff)

lemma manifest_layout_digest [simp]:
  "manifest_layout v (m\<lparr>rm_digest := d\<rparr>) = manifest_layout v m" "manifest_dg C v (m\<lparr>rm_digest := d\<rparr>) = manifest_dg C v m"
  "valid_manifest (m\<lparr>rm_digest := d\<rparr>) = valid_manifest m" "is_v1 (m\<lparr>rm_digest := d\<rparr>) = is_v1 m"
  by (simp_all add: manifest_layout_def manifest_fields_def manifest_links_def manifest_storage_def fun_eq_iff
      manifest_dg_def manifest_ck_def valid_manifest_def encodable_manifest_def is_v1_def)

lemma length_manifest_image:
  assumes "valid_manifest m" "carries v m"
  shows "length (manifest_image C v m) = fst (format_of v) + length (rm_roots m) * 12"
  using length_manifest_storage [OF assms(2)] assms(1)
  by (simp add: manifest_image_def manifest_layout_def valid_manifest_def)

text \<open>C32. The manifest encoding is not canonical: every valid manifest of the first page generation
  has a version 2 image that the decoder accepts and that encoding the decoded manifest does not
  reproduce.\<close>

theorem manifest_not_canonical:
  assumes "valid_manifest m" "is_v1 m" "m' = m\<lparr>rm_digest := manifest_dg C 2 m\<rparr>"
  shows "manifest_decode C (manifest_image C 2 m') = Inr m'
    \<and> (\<exists>encoded. manifest_encode C m' = Inr encoded \<and> length encoded = length (manifest_image C 2 m') - 16)"
proof -
  have v: "carries 1 m'" "carries 2 m'" "manifest_version m' = 1" "valid_manifest m'"
    using assms by (auto simp: carries_def is_v1_def manifest_version_def)
  have "manifest_decode C (manifest_image C 2 m') = Inr m'"
    using v assms(3) by (intro manifest_decode_image [of m' 2]) simp_all
  moreover have "manifest_encode C m' = Inr (manifest_image C 1 m')"
    using v by (simp add: manifest_encode_iff valid_manifest_def)
  ultimately show ?thesis using v length_manifest_image [of m' _ C] by (simp add: format_of_def)
qed

theorem manifest_not_canonical_witness:
  "manifest_decode sum_crypto (manifest_image sum_crypto 2 (sample_manifest\<lparr>rm_digest := manifest_dg sum_crypto 2 sample_manifest\<rparr>))
    = Inr (sample_manifest\<lparr>rm_digest := manifest_dg sum_crypto 2 sample_manifest\<rparr>)"
  using manifest_not_canonical [OF sample_manifest_valid refl, of sum_crypto] by blast

section \<open>Root sets in manifests\<close>

lemma from_root_set_manifest:
  assumes "from_root_set C generation previous root lineage = Inr m"
  shows "rm_lineage m = lineage \<and> rm_roots m = rs_roots root \<and> rs_visible_csn root = Some (rm_visible_csn m)
    \<and> rs_wal_anchor root = Some (rm_wal_anchor m) \<and> rs_retention_floor_csn root = Some (rm_retention_floor_csn m)
    \<and> rs_catalog_version root = rm_catalog_version m \<and> rs_blob_generation root = rm_blob_generation m
    \<and> rs_page_generation root = rm_page_generation m \<and> rm_generation m = generation \<and> rm_previous_digest m = previous
    \<and> manifest_compute_digest C (m\<lparr>rm_digest := 0\<rparr>) = Inr (rm_digest m)"
  using assms by (auto simp: from_root_set_def Let_def result_simps)

lemma compute_digest_update:
  assumes "wf_lineage_option (rm_lineage m)"
  shows "(manifest_compute_digest C (m\<lparr>rm_digest := d\<rparr>) = Inr x) = (manifest_compute_digest C m = Inr x)"
  using manifest_encode_iff(2) [of "m\<lparr>rm_digest := d\<rparr>" C x] manifest_encode_iff(2) [OF assms, of C x] assms
  by (simp add: encodable_manifest_def manifest_version_def)

lemma from_root_set_wf:
  assumes "from_root_set C generation previous root lineage = Inr m" "wf_lineage_option lineage" "om_sorted (rs_roots root)"
    "\<And>a. rs_wal_anchor root = Some a \<Longrightarrow> anchor_digest a \<noteq> 0"
  shows "wf_manifest C m"
proof -
  note m = from_root_set_manifest [OF assms(1)]
  have lin: "wf_lineage_option (rm_lineage m)" using m assms(2) by simp
  then have "manifest_compute_digest C m = Inr (rm_digest m)" using m compute_digest_update [of m C 0] by blast
  with lin show ?thesis
    using m assms(3,4) by (auto simp: wf_manifest_def valid_manifest_def manifest_encode_iff)
qed

text \<open>C30. A committed root set survives a manifest: the manifest built from it encodes, the decoder
  returns that manifest, and reconstruction gives back the root set, its digest included.\<close>

theorem manifest_preserves_root_set:
  assumes "committed_with_storage (blake3 C) visible version anchor roots blobs pages floor = Inr root"
    "om_sorted roots" "wf_lineage_option lineage" "from_root_set C generation previous root lineage = Inr m"
  shows "\<exists>encoded. manifest_encode C m = Inr encoded \<and> manifest_decode C encoded = Inr m \<and> to_root_set C m = Inr root"
proof -
  have root: "anchor_digest anchor \<noteq> 0" "rs_wal_anchor root = Some anchor" "rs_roots root = roots"
    using assms(1) by (auto simp: committed_with_storage_def Let_def split: if_splits)
  have wf: "wf_manifest C m" using from_root_set_wf [OF assms(4,3)] root assms(2) by auto
  have "to_root_set C m = Inr root"
    using assms(1) from_root_set_manifest [OF assms(4)]
    by (auto simp: to_root_set_def committed_with_storage_def Let_def split: if_splits)
  with wf show ?thesis using wf_manifest_encode [OF wf] manifest_codec.dec_enc [OF wf] by blast
qed

definition sample_root_set :: root_set where
  "sample_root_set = (let root = \<lparr>rs_visible_csn = Some (nz 1), rs_catalog_version = nz 1,
     rs_wal_anchor = Some sample_anchor_wal, rs_roots = [(RootSlot Kernel 0, nz 1)], rs_blob_generation = 0,
     rs_page_generation = FIRST, rs_retention_floor_csn = Some FIRST, rs_digest = 0\<rparr>
     in root\<lparr>rs_digest := compute_digest (blake3 sum_crypto) root\<rparr>)"

lemma sample_root_set_committed:
  "committed_with_storage (blake3 sum_crypto) (nz 1) (nz 1) sample_anchor_wal [(RootSlot Kernel 0, nz 1)] 0 FIRST FIRST
    = Inr sample_root_set"
  by (simp add: committed_with_storage_def sample_root_set_def sample_anchor_wal_def Let_def not_less)

lemma sample_from_root_set:
  "from_root_set sum_crypto (nz 1) 0 sample_root_set None
    = Inr (sample_manifest\<lparr>rm_digest := manifest_dg sum_crypto 1 sample_manifest\<rparr>)"
proof -
  have "manifest_compute_digest sum_crypto sample_manifest = Inr (manifest_dg sum_crypto 1 sample_manifest)"
    using sample_manifest_valid by (subst manifest_encode_iff(2)) (auto simp: valid_manifest_def is_v1_version)
  then show ?thesis
    by (simp add: from_root_set_def sample_root_set_def Let_def MAX_MANIFEST_ROOTS_def sample_manifest_def)
qed

theorem manifest_preserves_root_set_witness:
  "\<exists>encoded. manifest_encode sum_crypto (sample_manifest\<lparr>rm_digest := manifest_dg sum_crypto 1 sample_manifest\<rparr>) = Inr encoded
    \<and> manifest_decode sum_crypto encoded = Inr (sample_manifest\<lparr>rm_digest := manifest_dg sum_crypto 1 sample_manifest\<rparr>)
    \<and> to_root_set sum_crypto (sample_manifest\<lparr>rm_digest := manifest_dg sum_crypto 1 sample_manifest\<rparr>) = Inr sample_root_set"
  by (rule manifest_preserves_root_set [OF sample_root_set_committed _ _ sample_from_root_set])
    (simp_all add: wf_lineage_option_def)

end
