(* ===== verification/ManifestStore.thy ===== *)
theory ManifestStore
  imports ManifestCodec
begin

text \<open>
  The root manifest store (\<^verbatim>\<open>RootManifestStore\<close> of \<^verbatim>\<open>crates/hyphae-native-manifest/src/lib.rs\<close>): the
  roots directory, the operations that stage, publish and prune manifests in it, and the opening
  that verifies the chain. The store is verified in \<^verbatim>\<open>ManifestRecovery\<close>.
\<close>

section \<open>The store\<close>

record manifest_store =
  ms_manifests :: "root_manifest list"
  ms_retired_prefix :: "file_name list"
  ms_retired_prefix_bytes :: u64
  ms_retained_manifest_bytes :: u64
  ms_ignored_temporary_files :: nat

definition empty_manifest_store :: manifest_store where
  "empty_manifest_store = \<lparr>ms_manifests = [], ms_retired_prefix = [], ms_retired_prefix_bytes = 0,
     ms_retained_manifest_bytes = 0, ms_ignored_temporary_files = 0\<rparr>"

text \<open>\<^verbatim>\<open>create\<close>, on the data directory: the result and the data directory.\<close>

definition manifest_create :: "fs_outcome \<Rightarrow> directory \<Rightarrow> (manifest_error + manifest_store) \<times> directory" where
  "manifest_create io data =
     (if dir_exists data (Utf8 ''roots'') \<or> \<not> create_ok io then (Inl ManifestIo, data)
      else
        let data = data @ [(Utf8 ''roots'', NotFile)] in
        if \<not> dir_sync_ok io then (Inl ManifestIo, data) else (Inr empty_manifest_store, data))"

definition generation_stem :: "u64 \<Rightarrow> string" where
  "generation_stem generation = ''manifest-'' @ digits 16 16 (unat generation)"

definition parse_generation_hex :: "string \<Rightarrow> u64 option" where
  "parse_generation_hex = parse_fixed 16 16"

definition parse_generation_filename :: "string \<Rightarrow> u64 option" where
  "parse_generation_filename name =
     (case strip_prefix ''manifest-'' name of
        None \<Rightarrow> None
      | Some s \<Rightarrow> (case strip_suffix ''.hyroot'' s of None \<Rightarrow> None | Some v \<Rightarrow> parse_generation_hex v))"

definition parse_temporary_filename :: "string \<Rightarrow> u64 option" where
  "parse_temporary_filename name =
     (case strip_prefix ''manifest-'' name of
        None \<Rightarrow> None
      | Some s \<Rightarrow> (case strip_suffix ''.tmp'' s of None \<Rightarrow> None | Some v \<Rightarrow> parse_generation_hex v))"

definition manifest_path :: "u64 \<Rightarrow> file_name" where
  "manifest_path generation = Utf8 (generation_stem generation @ ''.hyroot'')"

definition manifest_temporary_path :: "u64 \<Rightarrow> file_name" where
  "manifest_temporary_path generation = Utf8 (generation_stem generation @ ''.tmp'')"

type_synonym manifest_file = "u64 \<times> file_name \<times> bytes"

fun manifest_scan ::
    "fs_outcome \<Rightarrow> directory \<Rightarrow> manifest_file list \<Rightarrow> file_name list
      \<Rightarrow> manifest_error + (manifest_file list \<times> file_name list)"
where
  "manifest_scan io [] manifests temporary = Inr (manifests, temporary)"
| "manifest_scan io ((n, e) # d) manifests temporary =
     (case e of
        NotFile \<Rightarrow> Inl ManifestUnexpectedDirectoryEntry
      | File content \<Rightarrow>
          (case n of
             NotUtf8 _ \<Rightarrow> Inl ManifestUnexpectedDirectoryEntry
           | Utf8 name \<Rightarrow>
               if parse_temporary_filename name \<noteq> None then manifest_scan io d manifests (temporary @ [n])
               else (case parse_generation_filename name of
                   Some generation \<Rightarrow>
                     if \<not> metadata_ok io n then Inl ManifestIo
                     else manifest_scan io d (manifests @ [(generation, n, content)]) temporary
                 | None \<Rightarrow> Inl ManifestUnexpectedDirectoryEntry)))"

record manifest_chain =
  mc_expected_generation :: u64
  mc_previous_digest :: digest
  mc_expected_lineage :: "lineage_identity option option"
  mc_manifests :: "root_manifest list"
  mc_retired_prefix :: "file_name list"
  mc_retired_prefix_bytes :: u64
  mc_retained_manifest_bytes :: u64

definition base_generation_of :: "(manifest_generation \<times> digest) option \<Rightarrow> u64" where
  "base_generation_of retained_base = (case retained_base of None \<Rightarrow> 1 | Some (generation, _) \<Rightarrow> get generation)"

text \<open>One iteration of the loop over the sorted manifest files.\<close>

definition open_manifest ::
    "crypto \<Rightarrow> fs_outcome \<Rightarrow> (manifest_generation \<times> digest) option \<Rightarrow> manifest_file \<Rightarrow> manifest_chain
      \<Rightarrow> manifest_error + manifest_chain"
where
  "open_manifest C io retained_base = (\<lambda>(generation, path, content) c.
     let base_generation = base_generation_of retained_base;
         bytes = word_of_nat (length content)
     in
     if generation < base_generation then
       attempt (ok_or ManifestInvalidLength (checked_add (mc_retired_prefix_bytes c) bytes)) (\<lambda>retired_bytes.
       Inr (c\<lparr>mc_retired_prefix_bytes := retired_bytes, mc_retired_prefix := mc_retired_prefix c @ [path]\<rparr>))
     else if generation \<noteq> mc_expected_generation c then Inl ManifestInvalidChain
     else if \<not> read_ok io path then Inl ManifestIo
     else
       attempt (manifest_decode C content) (\<lambda>manifest.
       if (case mc_expected_lineage c of None \<Rightarrow> False | Some lineage \<Rightarrow> lineage \<noteq> rm_lineage manifest)
       then Inl ManifestLineageMismatch
       else
         let expected_lineage =
               (if mc_expected_lineage c = None then Some (rm_lineage manifest) else mc_expected_lineage c);
             is_base = (generation = base_generation);
             base_matches = (case retained_base of None \<Rightarrow> True | Some (_, digest) \<Rightarrow> rm_digest manifest = digest);
             predecessor_matches = (is_base \<and> retained_base \<noteq> None \<or> rm_previous_digest manifest = mc_previous_digest c)
         in
         if get (rm_generation manifest) \<noteq> generation \<or> (is_base \<and> \<not> base_matches) \<or> \<not> predecessor_matches
         then Inl ManifestInvalidChain
         else
           attempt (ok_or ManifestInvalidLength (checked_add (mc_retained_manifest_bytes c) bytes)) (\<lambda>retained_bytes.
           attempt (ok_or ManifestInvalidChain (checked_add (mc_expected_generation c) 1)) (\<lambda>expected_generation.
           Inr (c\<lparr>mc_expected_lineage := expected_lineage, mc_previous_digest := rm_digest manifest,
                  mc_retained_manifest_bytes := retained_bytes, mc_manifests := mc_manifests c @ [manifest],
                  mc_expected_generation := expected_generation\<rparr>)))))"

fun open_manifests ::
    "crypto \<Rightarrow> fs_outcome \<Rightarrow> (manifest_generation \<times> digest) option \<Rightarrow> manifest_file list \<Rightarrow> manifest_chain
      \<Rightarrow> manifest_error + manifest_chain"
where
  "open_manifests C io retained_base [] c = Inr c"
| "open_manifests C io retained_base (f # files) c =
     attempt (open_manifest C io retained_base f c) (\<lambda>c. open_manifests C io retained_base files c)"

definition manifest_open_from ::
    "crypto \<Rightarrow> fs_outcome \<Rightarrow> (manifest_generation \<times> digest) option \<Rightarrow> directory
      \<Rightarrow> (manifest_error + manifest_store) \<times> directory"
where
  "manifest_open_from C io retained_base d =
     (if \<not> read_dir_ok io then (Inl ManifestIo, d)
      else (case attempt (manifest_scan io d [] []) (\<lambda>(files, temporary).
               let base_generation = base_generation_of retained_base in
               attempt (open_manifests C io retained_base (sort_key fst files)
                 \<lparr>mc_expected_generation = base_generation, mc_previous_digest = 0, mc_expected_lineage = None,
                   mc_manifests = [], mc_retired_prefix = [], mc_retired_prefix_bytes = 0,
                   mc_retained_manifest_bytes = 0\<rparr>) (\<lambda>c.
               if (case mc_manifests c of [] \<Rightarrow> True | m # _ \<Rightarrow> get (rm_generation m) \<noteq> base_generation)
                 \<and> (retained_base \<noteq> None \<or> mc_retired_prefix c \<noteq> [])
               then Inl ManifestInvalidChain
               else Inr (c, temporary))) of
          Inl e \<Rightarrow> (Inl e, d)
        | Inr (c, temporary) \<Rightarrow>
            (case remove_files io temporary d of
               (False, d) \<Rightarrow> (Inl ManifestIo, d)
             | (True, d) \<Rightarrow>
                 if length temporary \<noteq> 0 \<and> \<not> dir_sync_ok io then (Inl ManifestIo, d)
                 else (Inr \<lparr>ms_manifests = mc_manifests c, ms_retired_prefix = mc_retired_prefix c,
                     ms_retired_prefix_bytes = mc_retired_prefix_bytes c,
                     ms_retained_manifest_bytes = mc_retained_manifest_bytes c,
                     ms_ignored_temporary_files = length temporary\<rparr>, d))))"

definition manifest_current :: "manifest_store \<Rightarrow> root_manifest option" where
  "manifest_current s = (if ms_manifests s = [] then None else Some (last (ms_manifests s)))"

definition manifest_validate_lineage :: "manifest_store \<Rightarrow> lineage_identity \<Rightarrow> manifest_error + unit" where
  "manifest_validate_lineage s expected =
     (if list_ex (\<lambda>m. rm_lineage m \<noteq> Some expected) (ms_manifests s) then Inl ManifestLineageMismatch else Inr ())"

definition manifest_validate_next :: "manifest_store \<Rightarrow> root_manifest \<Rightarrow> manifest_error + unit" where
  "manifest_validate_next s m =
     attempt (case manifest_current s of
         Some current \<Rightarrow>
           attempt (ok_or ManifestInvalidChain (checked_add (get (rm_generation current)) 1)) (\<lambda>generation.
           Inr (generation, rm_digest current))
       | None \<Rightarrow> Inr (1, 0)) (\<lambda>(generation, digest).
     if (case manifest_current s of None \<Rightarrow> False | Some current \<Rightarrow> rm_lineage current \<noteq> rm_lineage m)
     then Inl ManifestLineageMismatch
     else if get (rm_generation m) \<noteq> generation \<or> rm_previous_digest m \<noteq> digest then Inl ManifestInvalidChain
     else Inr ())"

text \<open>A staged manifest with the length of its encoding; its paths follow from its generation.\<close>

record staged_manifest =
  sm_manifest :: root_manifest
  sm_bytes :: u64

definition manifest_stage ::
    "crypto \<Rightarrow> fs_outcome \<Rightarrow> manifest_store \<Rightarrow> directory \<Rightarrow> root_manifest \<Rightarrow> bool
      \<Rightarrow> (manifest_error + staged_manifest) \<times> directory"
where
  "manifest_stage C io s d m synchronize =
     (case manifest_validate_next s m of
        Inl e \<Rightarrow> (Inl e, d)
      | Inr _ \<Rightarrow>
          let temporary_path = manifest_temporary_path (get (rm_generation m));
              final_path = manifest_path (get (rm_generation m))
          in
          if dir_exists d temporary_path \<or> dir_exists d final_path
          then (Inl ManifestPublicationTargetExists, d)
          else (case manifest_encode C m of
              Inl e \<Rightarrow> (Inl e, d)
            | Inr encoded \<Rightarrow>
                if length encoded \<ge> 2 ^ 64 then (Inl ManifestInvalidLength, d)
                else if \<not> create_ok io then (Inl ManifestIo, d)
                else (case write_fault io of
                    Some k \<Rightarrow> (Inl ManifestIo, dir_put temporary_path (take k encoded) d)
                  | None \<Rightarrow>
                      let d = dir_put temporary_path encoded d in
                      if synchronize \<and> \<not> file_sync_ok io then (Inl ManifestIo, d)
                      else (Inr \<lparr>sm_manifest = m, sm_bytes = word_of_nat (length encoded)\<rparr>, d))))"

definition manifest_publish ::
    "fs_outcome \<Rightarrow> manifest_store \<Rightarrow> directory \<Rightarrow> staged_manifest \<Rightarrow> bool
      \<Rightarrow> (manifest_error + root_manifest) \<times> manifest_store \<times> directory"
where
  "manifest_publish io s d staged synchronize =
     (let m = sm_manifest staged;
          temporary_path = manifest_temporary_path (get (rm_generation m));
          final_path = manifest_path (get (rm_generation m))
      in case manifest_validate_next s m of
           Inl e \<Rightarrow> (Inl e, s, d)
         | Inr _ \<Rightarrow>
             if dir_exists d final_path then (Inl ManifestPublicationTargetExists, s, d)
             else (case checked_add (ms_retained_manifest_bytes s) (sm_bytes staged) of
                 None \<Rightarrow> (Inl ManifestInvalidLength, s, d)
               | Some retained_manifest_bytes \<Rightarrow>
                   if \<not> rename_ok io \<or> \<not> dir_exists d temporary_path then (Inl ManifestIo, s, d)
                   else
                     let d = dir_rename temporary_path final_path d in
                     if synchronize \<and> \<not> dir_sync_ok io then (Inl ManifestIo, s, d)
                     else (Inr m, s\<lparr>ms_manifests := ms_manifests s @ [m],
                         ms_retained_manifest_bytes := retained_manifest_bytes\<rparr>, d)))"

definition manifest_append ::
    "crypto \<Rightarrow> fs_outcome \<Rightarrow> manifest_store \<Rightarrow> directory \<Rightarrow> root_manifest \<Rightarrow> bool
      \<Rightarrow> (manifest_error + root_manifest) \<times> manifest_store \<times> directory"
where
  "manifest_append C io s d m synchronize =
     (case manifest_stage C io s d m synchronize of
        (Inl e, d) \<Rightarrow> (Inl e, s, d)
      | (Inr staged, d) \<Rightarrow> manifest_publish io s d staged synchronize)"

record manifest_prune_receipt =
  mp_base_generation :: manifest_generation
  mp_removed_files :: nat
  mp_removed_bytes :: u64
  mp_retained_files :: nat
  mp_retained_bytes :: u64

fun prune_candidates ::
    "fs_outcome \<Rightarrow> directory \<Rightarrow> root_manifest list \<Rightarrow> file_name list \<times> u64 \<times> u64
      \<Rightarrow> manifest_error + (file_name list \<times> u64 \<times> u64)"
where
  "prune_candidates io d [] acc = Inr acc"
| "prune_candidates io d (m # ms) (candidates, removed_retained_bytes, removed_bytes) =
     (let path = manifest_path (get (rm_generation m)) in
      attempt (ok_or ManifestIo (metadata_len io d path)) (\<lambda>bytes.
      attempt (ok_or ManifestInvalidLength (checked_add removed_retained_bytes bytes)) (\<lambda>removed_retained_bytes.
      attempt (ok_or ManifestInvalidLength (checked_add removed_bytes bytes)) (\<lambda>removed_bytes.
      prune_candidates io d ms (candidates @ [path], removed_retained_bytes, removed_bytes)))))"

definition manifest_prune_before ::
    "fs_outcome \<Rightarrow> manifest_store \<Rightarrow> directory \<Rightarrow> manifest_generation \<Rightarrow> digest \<Rightarrow> bool
      \<Rightarrow> (manifest_error + manifest_prune_receipt) \<times> manifest_store \<times> directory"
where
  "manifest_prune_before io s d base_generation base_digest synchronize =
     (let base_index = length (takeWhile (\<lambda>m. rm_generation m \<noteq> base_generation) (ms_manifests s)) in
      if base_index = length (ms_manifests s) \<or> rm_digest (ms_manifests s ! base_index) \<noteq> base_digest
      then (Inl ManifestInvalidChain, s, d)
      else (case prune_candidates io d (take base_index (ms_manifests s))
               (ms_retired_prefix s, 0, ms_retired_prefix_bytes s) of
          Inl e \<Rightarrow> (Inl e, s, d)
        | Inr (candidates, removed_retained_bytes, removed_bytes) \<Rightarrow>
            (case remove_files io candidates d of
               (False, d) \<Rightarrow> (Inl ManifestIo, s, d)
             | (True, d) \<Rightarrow>
                 if synchronize \<and> candidates \<noteq> [] \<and> \<not> dir_sync_ok io then (Inl ManifestIo, s, d)
                 else
                   let s = s\<lparr>ms_manifests := drop base_index (ms_manifests s), ms_retired_prefix := [],
                             ms_retired_prefix_bytes := 0\<rparr>
                   in case checked_sub (ms_retained_manifest_bytes s) removed_retained_bytes of
                        None \<Rightarrow> (Inl ManifestInvalidLength, s, d)
                      | Some retained_bytes \<Rightarrow>
                          (Inr \<lparr>mp_base_generation = base_generation, mp_removed_files = length candidates,
                              mp_removed_bytes = removed_bytes, mp_retained_files = length (ms_manifests s),
                              mp_retained_bytes = retained_bytes\<rparr>,
                           s\<lparr>ms_retained_manifest_bytes := retained_bytes\<rparr>, d))))"

end
