(* ===== verification/ManifestRecovery.thy ===== *)
theory ManifestRecovery
  imports ManifestStore "HOL-Library.Multiset"
begin

text \<open>
  The manifest store against the directory it manages: after any sequence of operations, with any
  file-system failures, the directory opens from its retained base to the chain the store holds,
  extended by at most one manifest whose publication was reported as failed; and the store holds the
  manifests whose publication was reported as done.
\<close>

section \<open>File names\<close>

lemma parse_generation_hex_iff:
  "(parse_generation_hex v = Some g) = (v = digits 16 16 (unat g) \<and> g \<noteq> 0)"
  unfolding parse_generation_hex_def by (rule parse_fixed_iff) simp_all

lemma parse_generation_filename_iff:
  "(parse_generation_filename name = Some g) = (name = generation_stem g @ ''.hyroot'' \<and> g \<noteq> 0)"
  unfolding parse_generation_filename_def strip_affixes_iff by (auto simp: parse_generation_hex_iff generation_stem_def)

lemma parse_temporary_filename_iff:
  "(parse_temporary_filename name = Some g) = (name = generation_stem g @ ''.tmp'' \<and> g \<noteq> 0)"
  unfolding parse_temporary_filename_def strip_affixes_iff by (auto simp: parse_generation_hex_iff generation_stem_def)

lemma generation_stem_eq [simp]: "(generation_stem a = generation_stem b) = (a = b)"
  unfolding generation_stem_def same_append_eq by (rule digits_inj) simp_all

lemma generation_stem_inj [simp]: "(generation_stem a @ s = generation_stem b @ t) = (a = b \<and> s = t)"
proof -
  have "length (generation_stem g) = 25" for g by (simp add: generation_stem_def)
  then show ?thesis by (simp add: append_eq_append_conv)
qed


lemma parse_manifest_names [simp]:
  "g \<noteq> 0 \<Longrightarrow> parse_generation_filename (generation_stem g @ ''.hyroot'') = Some g"
  "g \<noteq> 0 \<Longrightarrow> parse_temporary_filename (generation_stem g @ ''.tmp'') = Some g"
  "parse_generation_filename (generation_stem g @ ''.tmp'') = None"
  "parse_temporary_filename (generation_stem g @ ''.hyroot'') = None"
proof -
  show "parse_generation_filename (generation_stem g @ ''.tmp'') = None"
    using parse_generation_filename_iff [of "generation_stem g @ ''.tmp''"]
    by (cases "parse_generation_filename (generation_stem g @ ''.tmp'')") auto
  show "parse_temporary_filename (generation_stem g @ ''.hyroot'') = None"
    using parse_temporary_filename_iff [of "generation_stem g @ ''.hyroot''"]
    by (cases "parse_temporary_filename (generation_stem g @ ''.hyroot'')") auto
qed (simp_all add: parse_generation_filename_iff parse_temporary_filename_iff)

section \<open>What a directory holds\<close>

abbreviation gen_of :: "root_manifest \<Rightarrow> u64" where
  "gen_of m \<equiv> get (rm_generation m)"














section \<open>Opening\<close>



























section \<open>The store and its directory\<close>





definition retained_of :: "(manifest_generation \<times> digest) option \<Rightarrow> root_manifest list \<Rightarrow> root_manifest list" where
  "retained_of base chain = filter (\<lambda>m. base_generation_of base \<le> gen_of m) chain"




























lemma retained_of_retained [simp]: "retained_of base (retained_of base chain) = retained_of base chain"
  by (simp add: retained_of_def)










text \<open>
  A chain that ends at the last generation does not open, although the store publishes it: the
  loop computes the generation after the last one.
\<close>

lemma last_generation_unopenable:
  assumes "manifest_decode C content = Inr m" "gen_of m = 18446744073709551615" "base = Some (rm_generation m, rm_digest m)"
  shows "fst (manifest_open_from C all_ok base [(manifest_path 18446744073709551615, File content)]) \<in> {Inl ManifestInvalidChain, Inl ManifestInvalidLength}"
proof -
  have "manifest_scan all_ok [(manifest_path 18446744073709551615, File content)] [] [] = Inr ([(18446744073709551615, manifest_path 18446744073709551615, content)], [])"
    by (simp add: manifest_path_def all_ok_def)
  moreover have "checked_add (18446744073709551615 :: u64) 1 = None" by (simp add: checked_add_None)
  ultimately show ?thesis
    using assms by (auto simp: manifest_open_from_def base_generation_of_def open_manifest_def all_ok_def Let_def ok_or_def
        split: option.splits)
qed

end
