(* ===== verification/Pages.thy ===== *)
theory Pages
  imports LogicalTypes Crypto FileReads
begin

text \<open>
  Native pages (\<^verbatim>\<open>crates/hyphae-native-pages/src/lib.rs\<close>): the page codec, the append-only page file
  with its unpublished tails, and the partitioned buffer pool. This theory holds the definitions;
  the codec is verified in \<^verbatim>\<open>PageCodec\<close>, the page file in \<^verbatim>\<open>PageFile\<close> and the pool in
  \<^verbatim>\<open>BufferPool\<close>.
\<close>

section \<open>Pages\<close>

definition PAGE_SIZE :: nat where "PAGE_SIZE = 16384"
definition PAGE_HEADER_SIZE :: nat where "PAGE_HEADER_SIZE = 96"
definition PAGE_PAYLOAD_SIZE :: nat where "PAGE_PAYLOAD_SIZE = PAGE_SIZE - PAGE_HEADER_SIZE"
definition PAGE_MAGIC :: bytes where "PAGE_MAGIC = ascii ''HYPAGE01''"

lemmas page_sizes = PAGE_PAYLOAD_SIZE_def PAGE_SIZE_def PAGE_HEADER_SIZE_def

datatype page_kind =
    CatalogRoot | HeapLeaf | VersionChain | BTreeInternal | BTreeLeaf | HashDirectory | HashBucket
  | StructureNode | Bitmap | SearchDelta | VectorMetadata | OverflowPage

fun page_kind_code :: "page_kind \<Rightarrow> u8" where
  "page_kind_code CatalogRoot = 1"
| "page_kind_code HeapLeaf = 2"
| "page_kind_code VersionChain = 3"
| "page_kind_code BTreeInternal = 4"
| "page_kind_code BTreeLeaf = 5"
| "page_kind_code HashDirectory = 6"
| "page_kind_code HashBucket = 7"
| "page_kind_code StructureNode = 8"
| "page_kind_code Bitmap = 9"
| "page_kind_code SearchDelta = 10"
| "page_kind_code VectorMetadata = 11"
| "page_kind_code OverflowPage = 12"

datatype page_error =
    PageInvalidLength nat
  | PageInvalidMagic
  | PageUnsupportedFormat u16 u16
  | PageUnknownKind u8
  | PageReservedNonzero
  | PageIdMismatch u64 u64
  | PagePayloadTooLarge nat
  | PageNonzeroPadding
  | PageChecksumMismatch
  | PageDigestMismatch

definition page_kind_try_from :: "u8 \<Rightarrow> page_error + page_kind" where
  "page_kind_try_from value =
     (if value = 1 then Inr CatalogRoot
      else if value = 2 then Inr HeapLeaf
      else if value = 3 then Inr VersionChain
      else if value = 4 then Inr BTreeInternal
      else if value = 5 then Inr BTreeLeaf
      else if value = 6 then Inr HashDirectory
      else if value = 7 then Inr HashBucket
      else if value = 8 then Inr StructureNode
      else if value = 9 then Inr Bitmap
      else if value = 10 then Inr SearchDelta
      else if value = 11 then Inr VectorMetadata
      else if value = 12 then Inr OverflowPage
      else Inl (PageUnknownKind value))"

record page =
  pg_id :: page_id
  pg_kind :: page_kind
  pg_creating_csn :: "csn option"
  pg_next :: "page_id option"
  pg_payload :: bytes

definition page_new ::
    "page_id \<Rightarrow> page_kind \<Rightarrow> csn option \<Rightarrow> page_id option \<Rightarrow> bytes \<Rightarrow> page_error + page"
where
  "page_new i kind creating_csn next_page payload =
     (if length payload > PAGE_PAYLOAD_SIZE then Inl (PagePayloadTooLarge (length payload))
      else Inr \<lparr>pg_id = i, pg_kind = kind, pg_creating_csn = creating_csn, pg_next = next_page,
        pg_payload = payload\<rparr>)"

definition page_checksum :: "crypto \<Rightarrow> bytes \<Rightarrow> u32" where
  "page_checksum C encoded =
     (let checksum = crc32c C (seg 0 44 encoded);
          checksum = crc32c_append C checksum (replicate 36 0)
      in crc32c_append C checksum (drop 80 encoded))"

definition page_digest :: "crypto \<Rightarrow> bytes \<Rightarrow> digest" where
  "page_digest C encoded = blake3 C (seg 0 48 encoded @ replicate 32 0 @ drop 80 encoded)"

definition page_encode :: "crypto \<Rightarrow> page \<Rightarrow> bytes" where
  "page_encode C p =
     (let encoded = replicate PAGE_SIZE 0;
          encoded = put 0 PAGE_MAGIC encoded;
          encoded = put 8 (to_le_bytes (1 :: u16)) encoded;
          encoded = put 10 [page_kind_code (pg_kind p)] encoded;
          encoded = put 12 (to_le_bytes (96 :: u16)) encoded;
          encoded = put 16 (to_le_bytes (get (pg_id p))) encoded;
          encoded = put 24 (to_le_bytes (get_or_zero (pg_creating_csn p))) encoded;
          encoded = put 32 (to_le_bytes (get_or_zero (pg_next p))) encoded;
          encoded = put 40 (to_le_bytes (if length (pg_payload p) < 2 ^ 32
            then word_of_nat (length (pg_payload p)) else - 1 :: u32)) encoded;
          encoded = put PAGE_HEADER_SIZE (pg_payload p) encoded;
          encoded = put 44 (to_le_bytes (page_checksum C encoded)) encoded
      in put 48 (to_be_bytes (page_digest C encoded)) encoded)"

definition page_decode :: "crypto \<Rightarrow> page_id \<Rightarrow> bytes \<Rightarrow> page_error + page" where
  "page_decode C expected_id encoded =
     (if length encoded \<noteq> PAGE_SIZE then Inl (PageInvalidLength (length encoded))
      else if seg 0 8 encoded \<noteq> PAGE_MAGIC then Inl PageInvalidMagic
      else
        let version = (from_le_bytes (seg 8 10 encoded) :: u16);
            header_length = (from_le_bytes (seg 12 14 encoded) :: u16)
        in
        if version \<noteq> 1 \<or> unat header_length \<noteq> PAGE_HEADER_SIZE
        then Inl (PageUnsupportedFormat version header_length)
        else if encoded ! 11 \<noteq> 0 \<or> list_ex (\<lambda>byte. byte \<noteq> 0) (seg 14 16 encoded)
          \<or> list_ex (\<lambda>byte. byte \<noteq> 0) (seg 80 96 encoded)
        then Inl PageReservedNonzero
        else
          attempt (page_kind_try_from (encoded ! 10)) (\<lambda>kind.
          let found_id = from_le_bytes (seg 16 24 encoded) in
          if found_id \<noteq> get expected_id then Inl (PageIdMismatch (get expected_id) found_id)
          else
            let payload_length = unat (from_le_bytes (seg 40 44 encoded) :: u32) in
            if payload_length > PAGE_PAYLOAD_SIZE then Inl (PagePayloadTooLarge payload_length)
            else
              let payload_end = PAGE_HEADER_SIZE + payload_length in
              if list_ex (\<lambda>byte. byte \<noteq> 0) (drop payload_end encoded) then Inl PageNonzeroPadding
              else if page_checksum C encoded \<noteq> from_le_bytes (seg 44 48 encoded) then Inl PageChecksumMismatch
              else if page_digest C encoded \<noteq> from_be_bytes (seg 48 80 encoded) then Inl PageDigestMismatch
              else Inr \<lparr>pg_id = expected_id, pg_kind = kind,
                  pg_creating_csn = nonzero_option (from_le_bytes (seg 24 32 encoded)),
                  pg_next = nonzero_option (from_le_bytes (seg 32 40 encoded)),
                  pg_payload = seg PAGE_HEADER_SIZE payload_end encoded\<rparr>))"

section \<open>The page file\<close>

text \<open>
  The content of the file and the length up to which it is synchronized. An operation of the
  system takes its outcome as an argument, as in the log: \<open>open_ok\<close>, \<open>metadata_ok\<close>, \<open>seek_ok\<close>, a
  \<open>fault\<close> of \<^verbatim>\<open>write_all\<close>, \<open>set_len_ok\<close>, \<open>sync_ok\<close>, and the bytes each read call gives.
\<close>

record page_file =
  pf_content :: bytes
  pf_synced :: nat

datatype page_store_error =
    PageStoreIo
  | PageStorePage page_error
  | InvalidFileLength nat
  | PageStorePoisoned
  | PageIdExhausted
  | PageOutsideBoundary page_id
  | InvalidRollbackBoundary u64 u64

record page_store =
  ps_file :: page_file
  ps_generation :: page_generation
  ps_next_page_id :: u64
  ps_physical_reads :: u64
  ps_poisoned :: bool

text \<open>Writing at the end, \<^verbatim>\<open>File::set_len\<close> (which truncates, or extends with zero bytes) and \<^verbatim>\<open>sync_data\<close>.\<close>

definition write_end :: "bytes \<Rightarrow> page_file \<Rightarrow> page_file" where
  "write_end bs f = f\<lparr>pf_content := pf_content f @ bs\<rparr>"

definition set_len :: "nat \<Rightarrow> page_file \<Rightarrow> page_file" where
  "set_len n f = \<lparr>pf_content = take n (pf_content f) @ replicate (n - length (pf_content f)) 0,
     pf_synced = min n (pf_synced f)\<rparr>"

definition sync_file :: "page_file \<Rightarrow> page_file" where
  "sync_file f = f\<lparr>pf_synced := length (pf_content f)\<rparr>"

definition create_generation :: "bool \<Rightarrow> page_generation \<Rightarrow> page_store_error + page_store" where
  "create_generation create_ok generation =
     (if \<not> create_ok then Inl PageStoreIo
      else Inr \<lparr>ps_file = \<lparr>pf_content = [], pf_synced = 0\<rparr>, ps_generation = generation,
        ps_next_page_id = 1, ps_physical_reads = 0, ps_poisoned = False\<rparr>)"

definition open_generation ::
    "bool \<Rightarrow> bool \<Rightarrow> page_file \<Rightarrow> page_generation \<Rightarrow> page_store_error + page_store"
where
  "open_generation open_ok metadata_ok file generation =
     (if \<not> open_ok \<or> \<not> metadata_ok then Inl PageStoreIo
      else
        let file_length = length (pf_content file) in
        if file_length mod PAGE_SIZE \<noteq> 0 then Inl (InvalidFileLength file_length)
        else
          attempt (ok_or PageIdExhausted (checked_add (word_of_nat (file_length div PAGE_SIZE)) 1)) (\<lambda>next_page_id.
          Inr \<lparr>ps_file = file, ps_generation = generation, ps_next_page_id = next_page_id,
            ps_physical_reads = 0, ps_poisoned = False\<rparr>))"

text \<open>The result is paired with the file as it is left.\<close>

definition open_repair_tail_generation ::
    "bool \<Rightarrow> bool \<Rightarrow> bool \<Rightarrow> bool \<Rightarrow> page_file \<Rightarrow> page_generation
      \<Rightarrow> (page_store_error + (page_store \<times> nat)) \<times> page_file"
where
  "open_repair_tail_generation open_ok metadata_ok set_len_ok sync_ok file generation =
     (if \<not> open_ok \<or> \<not> metadata_ok then (Inl PageStoreIo, file)
      else
        let file_length = length (pf_content file);
            truncated_tail_bytes = file_length mod PAGE_SIZE;
            complete_length = file_length - truncated_tail_bytes
        in
        if truncated_tail_bytes \<noteq> 0 \<and> \<not> set_len_ok then (Inl PageStoreIo, file)
        else if truncated_tail_bytes \<noteq> 0 \<and> \<not> sync_ok then (Inl PageStoreIo, set_len complete_length file)
        else
          let file = (if truncated_tail_bytes \<noteq> 0 then sync_file (set_len complete_length file) else file) in
          (attempt (ok_or PageIdExhausted (checked_add (word_of_nat (complete_length div PAGE_SIZE)) 1)) (\<lambda>next_page_id.
           Inr (\<lparr>ps_file = file, ps_generation = generation, ps_next_page_id = next_page_id,
               ps_physical_reads = 0, ps_poisoned = False\<rparr>, truncated_tail_bytes)), file))"

definition page_count :: "page_store \<Rightarrow> u64" where
  "page_count s = ps_next_page_id s - 1"

text \<open>A reader shares the file: it sees the file of the writer at the time of a read.\<close>

definition read_handle :: "bool \<Rightarrow> page_store \<Rightarrow> page_store_error + page_store" where
  "read_handle clone_ok s = (if \<not> clone_ok then Inl PageStoreIo else Inr (s\<lparr>ps_physical_reads := 0\<rparr>))"

definition page_append ::
    "crypto \<Rightarrow> bool \<Rightarrow> nat option \<Rightarrow> page_store \<Rightarrow> page_kind \<Rightarrow> csn option \<Rightarrow> page_id option \<Rightarrow> bytes
      \<Rightarrow> (page_store_error + page_id) \<times> page_store"
where
  "page_append C seek_ok fault s kind creating_csn next_page payload =
     (if ps_poisoned s then (Inl PageStorePoisoned, s)
      else (case attempt (map_err (\<lambda>_. PageIdExhausted) (identity_new ''PageId'' (ps_next_page_id s))) (\<lambda>i.
                 attempt (map_err PageStorePage (page_new i kind creating_csn next_page payload)) (\<lambda>p.
                 Inr (i, page_encode C p))) of
          Inl e \<Rightarrow> (Inl e, s)
        | Inr (i, encoded) \<Rightarrow>
            let s = s\<lparr>ps_poisoned := True\<rparr> in
            if \<not> seek_ok then (Inl PageStoreIo, s)
            else (case fault of
                Some k \<Rightarrow> (Inl PageStoreIo, s\<lparr>ps_file := write_end (take k encoded) (ps_file s)\<rparr>)
              | None \<Rightarrow>
                  let s = s\<lparr>ps_file := write_end encoded (ps_file s)\<rparr> in
                  (case checked_add (ps_next_page_id s) 1 of
                     None \<Rightarrow> (Inl PageIdExhausted, s)
                   | Some next_page_id \<Rightarrow>
                       (Inr i, s\<lparr>ps_next_page_id := next_page_id, ps_poisoned := False\<rparr>)))))"

definition rollback_unpublished_tail ::
    "bool \<Rightarrow> page_store \<Rightarrow> u64 \<Rightarrow> (page_store_error + unit) \<times> page_store"
where
  "rollback_unpublished_tail set_len_ok s retained_page_count =
     (if ps_poisoned s then (Inl PageStorePoisoned, s)
      else if retained_page_count > page_count s
      then (Inl (InvalidRollbackBoundary retained_page_count (page_count s)), s)
      else if retained_page_count = page_count s then (Inr (), s)
      else (case checked_mul retained_page_count 16384 of
          None \<Rightarrow> (Inl PageIdExhausted, s)
        | Some retained_bytes \<Rightarrow>
            let s = s\<lparr>ps_poisoned := True\<rparr> in
            if \<not> set_len_ok then (Inl PageStoreIo, s)
            else
              let s = s\<lparr>ps_file := set_len (unat retained_bytes) (ps_file s)\<rparr> in
              (case checked_add retained_page_count 1 of
                 None \<Rightarrow> (Inl PageIdExhausted, s)
               | Some next_page_id \<Rightarrow> (Inr (), s\<lparr>ps_next_page_id := next_page_id, ps_poisoned := False\<rparr>))))"

definition page_read_exact_at :: "reads \<Rightarrow> bytes \<Rightarrow> nat \<Rightarrow> nat \<Rightarrow> page_store_error + bytes" where
  "page_read_exact_at = read_exact_at PageStoreIo"

definition page_read ::
    "crypto \<Rightarrow> reads \<Rightarrow> page_store \<Rightarrow> page_id \<Rightarrow> (page_store_error + page) \<times> page_store"
where
  "page_read C io s i =
     (if get i \<ge> ps_next_page_id s then (Inl (PageOutsideBoundary i), s)
      else (case (case checked_sub (get i) 1 of None \<Rightarrow> None | Some slot \<Rightarrow> checked_mul slot 16384) of
          None \<Rightarrow> (Inl PageIdExhausted, s)
        | Some offset \<Rightarrow>
            (attempt (page_read_exact_at io (pf_content (ps_file s)) PAGE_SIZE (unat offset)) (\<lambda>encoded.
             map_err PageStorePage (page_decode C i encoded)),
             s\<lparr>ps_physical_reads := ps_physical_reads s + 1\<rparr>)))"

definition page_sync_data :: "bool \<Rightarrow> page_store \<Rightarrow> (page_store_error + unit) \<times> page_store" where
  "page_sync_data sync_ok s =
     (if ps_poisoned s then (Inl PageStorePoisoned, s)
      else if \<not> sync_ok then (Inl PageStoreIo, s\<lparr>ps_poisoned := True\<rparr>)
      else (Inr (), s\<lparr>ps_file := sync_file (ps_file s)\<rparr>))"

section \<open>Unpublished tails\<close>

text \<open>The retained page count of the capability; the store is borrowed.\<close>

definition begin_unpublished_tail :: "page_store \<Rightarrow> page_store_error + u64" where
  "begin_unpublished_tail s = (if ps_poisoned s then Inl PageStorePoisoned else Inr (page_count s))"

definition appended_page_count :: "page_store \<Rightarrow> u64 \<Rightarrow> u64" where
  "appended_page_count s retained_page_count = page_count s - retained_page_count"

text \<open>Dropping a capability that is not finalized rolls its tail back and ignores the outcome.\<close>

definition drop_tail :: "bool \<Rightarrow> page_store \<Rightarrow> u64 \<Rightarrow> bool \<Rightarrow> page_store" where
  "drop_tail set_len_ok s retained_page_count finalized =
     (if \<not> finalized then snd (rollback_unpublished_tail set_len_ok s retained_page_count) else s)"

definition finalize_tail :: "bool \<Rightarrow> page_store \<Rightarrow> u64 \<Rightarrow> page_store" where
  "finalize_tail set_len_ok s retained_page_count = drop_tail set_len_ok s retained_page_count True"

text \<open>An explicit rollback that fails still drops the capability, which tries again.\<close>

definition rollback_tail ::
    "bool \<Rightarrow> bool \<Rightarrow> page_store \<Rightarrow> u64 \<Rightarrow> (page_store_error + unit) \<times> page_store"
where
  "rollback_tail set_len_ok set_len_ok' s retained_page_count =
     (case rollback_unpublished_tail set_len_ok s retained_page_count of
        (Inl e, s) \<Rightarrow> (Inl e, drop_tail set_len_ok' s retained_page_count False)
      | (Inr u, s) \<Rightarrow> (Inr u, drop_tail set_len_ok' s retained_page_count True))"

section \<open>The buffer pool\<close>

datatype buffer_pool_error =
    BufferPoolStore page_store_error
  | BufferPoolInvalidCapacity nat nat
  | BufferPoolPoisoned
  | PartitionExhausted

type_synonym page_key = "page_generation \<times> page_id"

text \<open>A frame with the number of handles that clients hold besides the pool's own.\<close>

record page_frame =
  fr_page :: page
  fr_last_used :: u64
  fr_handles :: nat

record pool_partition =
  pp_capacity :: nat
  pp_frames :: "(page_key \<times> page_frame) list"
  pp_poisoned :: bool

record buffer_pool =
  bp_partitions :: "pool_partition list"
  bp_clock :: u64

definition buffer_pool_new :: "nat \<Rightarrow> nat \<Rightarrow> buffer_pool_error + buffer_pool" where
  "buffer_pool_new capacity partition_count =
     (if partition_count = 0 \<or> capacity < partition_count
      then Inl (BufferPoolInvalidCapacity capacity partition_count)
      else
        let base = capacity div partition_count;
            remainder = capacity mod partition_count
        in Inr \<lparr>bp_partitions = map (\<lambda>index. \<lparr>pp_capacity = base + (if index < remainder then 1 else 0),
              pp_frames = [], pp_poisoned = False\<rparr>) [0..<partition_count],
            bp_clock = 1\<rparr>)"

text \<open>The partition count converts to 64 bits, and the remainder below it converts back.\<close>

definition partition_index :: "buffer_pool \<Rightarrow> page_key \<Rightarrow> nat" where
  "partition_index pool key =
     (let mixed = (get (fst key) * 0x9e3779b97f4a7c15) XOR get (snd key)
      in unat mixed mod length (bp_partitions pool))"

definition touch_frame :: "page_key \<Rightarrow> u64 \<Rightarrow> (page_key \<times> page_frame) list \<Rightarrow> (page_key \<times> page_frame) list" where
  "touch_frame key stamp frames =
     map (\<lambda>(k, f). (k, if k = key then f\<lparr>fr_last_used := stamp, fr_handles := fr_handles f + 1\<rparr> else f)) frames"

definition set_frames :: "nat \<Rightarrow> (page_key \<times> page_frame) list \<Rightarrow> buffer_pool \<Rightarrow> buffer_pool" where
  "set_frames index frames pool =
     pool\<lparr>bp_partitions := (bp_partitions pool)[index := (bp_partitions pool ! index)\<lparr>pp_frames := frames\<rparr>]\<rparr>"

text \<open>The look-up under the lock: a hit stamps the frame and hands out a handle.\<close>

definition pool_lookup ::
    "buffer_pool \<Rightarrow> page_key \<Rightarrow> u64 \<Rightarrow> (buffer_pool_error + page option) \<times> buffer_pool"
where
  "pool_lookup pool key stamp =
     (let index = partition_index pool key; partition = bp_partitions pool ! index in
      if pp_poisoned partition then (Inl BufferPoolPoisoned, pool)
      else (case map_of (pp_frames partition) key of
          Some frame \<Rightarrow> (Inr (Some (fr_page frame)), set_frames index (touch_frame key stamp (pp_frames partition)) pool)
        | None \<Rightarrow> (Inr None, pool)))"

text \<open>\<^verbatim>\<open>min_by_key\<close> gives the first entry with the least stamp, in the order of iteration.\<close>

fun min_by_last_used :: "(page_key \<times> page_frame) list \<Rightarrow> page_key option" where
  "min_by_last_used [] = None"
| "min_by_last_used ((k, f) # frames) =
     Some (fst (foldl (\<lambda>best x. if fr_last_used (snd x) < fr_last_used (snd best) then x else best) (k, f) frames))"

text \<open>
  The insertion under the lock, after the page was read without it. The iteration order of the
  hash map is the argument \<open>iter\<close>.
\<close>

definition pool_insert ::
    "((page_key \<times> page_frame) list \<Rightarrow> (page_key \<times> page_frame) list) \<Rightarrow> buffer_pool \<Rightarrow> page_key \<Rightarrow> u64 \<Rightarrow> page
      \<Rightarrow> (buffer_pool_error + page) \<times> buffer_pool"
where
  "pool_insert iter pool key stamp p =
     (let index = partition_index pool key; partition = bp_partitions pool ! index; frames = pp_frames partition in
      if pp_poisoned partition then (Inl BufferPoolPoisoned, pool)
      else (case map_of frames key of
          Some frame \<Rightarrow> (Inr (fr_page frame), set_frames index (touch_frame key stamp frames) pool)
        | None \<Rightarrow>
            (case (if length frames \<ge> pp_capacity partition
                   then (case min_by_last_used (filter (\<lambda>(_, f). fr_handles f = 0) (iter frames)) of
                       None \<Rightarrow> Inl PartitionExhausted
                     | Some victim \<Rightarrow> Inr (filter (\<lambda>(k, _). k \<noteq> victim) frames))
                   else Inr frames) of
               Inl e \<Rightarrow> (Inl e, pool)
             | Inr frames \<Rightarrow>
                 (Inr p, set_frames index ((key, \<lparr>fr_page = p, fr_last_used = stamp, fr_handles = 1\<rparr>) # frames) pool))))"

definition get_or_load ::
    "crypto \<Rightarrow> reads \<Rightarrow> ((page_key \<times> page_frame) list \<Rightarrow> (page_key \<times> page_frame) list) \<Rightarrow> buffer_pool \<Rightarrow> page_store
      \<Rightarrow> page_id \<Rightarrow> (buffer_pool_error + page) \<times> buffer_pool \<times> page_store"
where
  "get_or_load C io iter pool s i =
     (let key = (ps_generation s, i);
          stamp = bp_clock pool;
          pool = pool\<lparr>bp_clock := bp_clock pool + 1\<rparr>
      in (case pool_lookup pool key stamp of
          (Inl e, pool) \<Rightarrow> (Inl e, pool, s)
        | (Inr (Some p), pool) \<Rightarrow> (Inr p, pool, s)
        | (Inr None, pool) \<Rightarrow>
            (case page_read C io s i of
               (Inl e, s) \<Rightarrow> (Inl (BufferPoolStore e), pool, s)
             | (Inr p, s) \<Rightarrow> (case pool_insert iter pool key stamp p of (r, pool) \<Rightarrow> (r, pool, s)))))"

text \<open>A client drops a handle.\<close>

definition release_frame :: "page_key \<Rightarrow> buffer_pool \<Rightarrow> buffer_pool" where
  "release_frame key pool =
     (let index = partition_index pool key in
      set_frames index (map (\<lambda>(k, f). (k, if k = key then f\<lparr>fr_handles := fr_handles f - 1\<rparr> else f))
        (pp_frames (bp_partitions pool ! index))) pool)"

end
