(* ===== verification/PageCodec.thy ===== *)
theory PageCodec
  imports Pages Codec
begin

text \<open>
  The page codec: the image of a page, and that the decoder accepts exactly the images of the
  pages with the requested identity and a payload that fits.
\<close>

definition wf_page :: "page \<Rightarrow> bool" where
  "wf_page p = (length (pg_payload p) \<le> PAGE_PAYLOAD_SIZE)"

lemma page_new_iff [result_simps]:
  "(page_new i kind c n payload = Inr p)
    = (p = \<lparr>pg_id = i, pg_kind = kind, pg_creating_csn = c, pg_next = n, pg_payload = payload\<rparr> \<and> wf_page p)"
  by (auto simp: page_new_def wf_page_def)

lemma page_kind_try_from_iff [result_simps]: "(page_kind_try_from value = Inr kind) = (value = page_kind_code kind)"
  by (cases kind) (auto simp: page_kind_try_from_def)

section \<open>The image of a page\<close>

definition page_head :: "page \<Rightarrow> bytes" where
  "page_head p = PAGE_MAGIC @ to_le_bytes (1 :: u16) @ [page_kind_code (pg_kind p)] @ replicate 1 0
     @ to_le_bytes (96 :: u16) @ replicate 2 0 @ to_le_bytes (get (pg_id p))
     @ to_le_bytes (get_or_zero (pg_creating_csn p)) @ to_le_bytes (get_or_zero (pg_next p))
     @ to_le_bytes (word_of_nat (length (pg_payload p)) :: u32)"

definition page_tail :: "page \<Rightarrow> bytes" where
  "page_tail p = replicate 16 0 @ pg_payload p @ replicate (16288 - length (pg_payload p)) 0"

definition page_check :: "crypto \<Rightarrow> page \<Rightarrow> u32" where
  "page_check C p = crc32c_append C (crc32c_append C (crc32c C (page_head p)) (replicate 36 0)) (page_tail p)"

definition page_hash :: "crypto \<Rightarrow> page \<Rightarrow> digest" where
  "page_hash C p = blake3 C (page_head p @ to_le_bytes (page_check C p) @ replicate 32 0 @ page_tail p)"

definition page_image :: "crypto \<Rightarrow> page \<Rightarrow> bytes" where
  "page_image C p = page_head p @ to_le_bytes (page_check C p) @ to_be_bytes (page_hash C p) @ page_tail p"

lemma length_PAGE_MAGIC [simp]: "length PAGE_MAGIC = 8"
  by (simp add: PAGE_MAGIC_def)

lemma length_page_head [simp]: "length (page_head p) = 44"
  by (simp add: page_head_def)

lemma length_page_tail [simp]: "wf_page p \<Longrightarrow> length (page_tail p) = 16304"
  by (simp add: page_tail_def wf_page_def page_sizes)

lemma length_page_image [simp]: "wf_page p \<Longrightarrow> length (page_image C p) = 16384"
  by (simp add: page_image_def)

lemma page_frame_layout:
  assumes "length m = 8" "length v = 2" "length k = 1" "length h = 2" "length i = 8" "length c = 8"
    "length n = 8" "length l = 4" "length payload \<le> 16288"
  shows "put 96 payload (put 40 l (put 32 n (put 24 c (put 16 i (put 12 h (put 10 k (put 8 v (put 0 m
      (replicate 16384 0)))))))))
    = (m @ v @ k @ replicate 1 0 @ h @ replicate 2 0 @ i @ c @ n @ l) @ replicate 52 0 @ payload
        @ replicate (16288 - length payload) 0"
proof -
  have "put 96 payload (put 40 l (put 32 n (put 24 c (put 16 i (put 12 h (put 10 k (put 8 v (put 0 m
      (replicate 16384 0)))))))))
    = ((((((((((((m @ v) @ k) @ replicate 1 0) @ h) @ replicate 2 0) @ i) @ c) @ n) @ l) @ replicate 52 0)
        @ payload) @ replicate (16288 - length payload) 0)"
    by (simp add: put_zeros_start put_zeros assms append_assoc [symmetric] del: append_assoc replicate_Suc One_nat_def)
  then show ?thesis by simp
qed

lemma page_checksum_layout:
  "length head = 44 \<Longrightarrow> length mid = 36 \<Longrightarrow> page_checksum C (head @ mid @ tail)
    = crc32c_append C (crc32c_append C (crc32c C head) (replicate 36 0)) tail"
  by (simp add: page_checksum_def seg_def)

lemma page_digest_layout:
  "length head = 44 \<Longrightarrow> length ck = 4 \<Longrightarrow> length dg = 32
    \<Longrightarrow> page_digest C (head @ ck @ dg @ tail) = blake3 C (head @ ck @ replicate 32 0 @ tail)"
  by (simp add: page_digest_def seg_def)

lemma page_encode_image: assumes "wf_page p" shows "page_encode C p = page_image C p"
proof -
  let ?n = "length (pg_payload p)"
  have n: "?n \<le> 16288" "?n < 2 ^ 32" using assms by (simp_all add: wf_page_def page_sizes)
  have z: "replicate 52 0 = replicate 4 0 @ replicate 32 0 @ replicate 16 (0 :: u8)"
    by (simp flip: replicate_add)
  have z': "replicate 36 0 = replicate 4 0 @ replicate 32 (0 :: u8)" by (simp flip: replicate_add)
  let ?framed = "page_head p @ replicate 4 0 @ replicate 32 0 @ page_tail p"
  have framed: "put 96 (pg_payload p) (put 40 (to_le_bytes (word_of_nat ?n :: u32))
      (put 32 (to_le_bytes (get_or_zero (pg_next p))) (put 24 (to_le_bytes (get_or_zero (pg_creating_csn p)))
      (put 16 (to_le_bytes (get (pg_id p))) (put 12 (to_le_bytes (96 :: u16))
      (put 10 [page_kind_code (pg_kind p)] (put 8 (to_le_bytes (1 :: u16)) (put 0 PAGE_MAGIC (replicate 16384 0)))))))))
    = ?framed"
    unfolding page_head_def page_tail_def by (subst page_frame_layout) (use n in \<open>simp_all add: z\<close>)
  have ck: "page_checksum C ?framed = page_check C p"
    using page_checksum_layout [of "page_head p" "replicate 36 0" C "page_tail p"]
    by (simp only: z' page_check_def append_assoc length_page_head length_append length_replicate)
  have dg: "page_digest C (page_head p @ to_le_bytes (page_check C p) @ replicate 32 0 @ page_tail p) = page_hash C p"
    by (subst page_digest_layout) (simp_all add: page_hash_def)
  have step1: "put 44 (to_le_bytes (page_check C p)) ?framed
      = page_head p @ to_le_bytes (page_check C p) @ replicate 32 0 @ page_tail p"
    by (rule put_middle) simp_all
  have step2: "put 48 (to_be_bytes (page_hash C p)) (page_head p @ to_le_bytes (page_check C p) @ replicate 32 0 @ page_tail p)
      = page_image C p"
    using put_middle [of 48 "page_head p @ to_le_bytes (page_check C p)" "replicate 32 0" "to_be_bytes (page_hash C p)" "page_tail p"]
    by (simp add: page_image_def)
  show ?thesis
    unfolding page_encode_def Let_def PAGE_SIZE_def PAGE_HEADER_SIZE_def if_P [OF n(2)] framed ck step1 dg step2 ..
qed

lemma page_image_parts:
  assumes "e = page_image C p"
  shows "seg 0 8 e = PAGE_MAGIC" "seg 8 10 e = to_le_bytes (1 :: u16)" "e ! 10 = page_kind_code (pg_kind p)"
    "e ! 11 = 0" "seg 12 14 e = to_le_bytes (96 :: u16)" "seg 14 16 e = replicate 2 0"
    "seg 16 24 e = to_le_bytes (get (pg_id p))" "seg 24 32 e = to_le_bytes (get_or_zero (pg_creating_csn p))"
    "seg 32 40 e = to_le_bytes (get_or_zero (pg_next p))"
    "seg 40 44 e = to_le_bytes (word_of_nat (length (pg_payload p)) :: u32)"
    "seg 44 48 e = to_le_bytes (page_check C p)" "seg 48 80 e = to_be_bytes (page_hash C p)"
    "seg 80 96 e = replicate 16 0" "drop 96 e = pg_payload p @ replicate (16288 - length (pg_payload p)) 0"
  by (simp_all add: assms page_image_def page_head_def page_tail_def seg_def nth_append)

lemma page_image_checks:
  "page_checksum C (page_image C p) = page_check C p" "page_digest C (page_image C p) = page_hash C p"
  using page_checksum_layout [of "page_head p" "to_le_bytes (page_check C p) @ to_be_bytes (page_hash C p)" C "page_tail p"]
  by (simp_all add: page_image_def page_digest_layout page_check_def page_hash_def)

section \<open>The codec is canonical\<close>

lemma page_decode_encoded: assumes "wf_page p" shows "page_decode C (pg_id p) (page_encode C p) = Inr p"
proof -
  define e where "e = page_image C p"
  note parts = page_image_parts [OF e_def]
  let ?n = "length (pg_payload p)"
  have n: "?n \<le> 16288" using assms by (simp add: wf_page_def page_sizes)
  have u: "unat (word_of_nat ?n :: u32) = ?n" using n by (intro unat_word_of_nat) simp
  have len: "length e = 16384" using assms by (simp add: e_def)
  have tail: "drop (96 + ?n) e = replicate (16288 - ?n) 0"
    using parts(14) by (simp add: add.commute [of 96] flip: drop_drop)
  have payload: "seg 96 (96 + ?n) e = pg_payload p" by (simp add: seg_def parts(14))
  have kind: "page_kind_try_from (page_kind_code (pg_kind p)) = Inr (pg_kind p)" by (simp add: result_simps)
  have checks: "page_checksum C e = page_check C p" "page_digest C e = page_hash C p"
    by (simp_all add: e_def page_image_checks)
  have "page_decode C (pg_id p) e = Inr p"
    using n by (simp add: page_decode_def page_sizes len parts u tail payload kind checks Let_def)
  then show ?thesis by (simp add: e_def page_encode_image assms)
qed

lemma page_partition:
  assumes "length e = 16384"
  shows "e = (seg 0 8 e @ seg 8 10 e @ [e ! 10] @ [e ! 11] @ seg 12 14 e @ seg 14 16 e @ seg 16 24 e @ seg 24 32 e
    @ seg 32 40 e @ seg 40 44 e) @ seg 44 48 e @ seg 48 80 e @ seg 80 96 e @ drop 96 e"
proof -
  have "drop 96 e = seg 96 16384 e" using assms by (simp add: seg_def)
  moreover have "[e ! 10] = seg 10 11 e" "[e ! 11] = seg 11 12 e"
    using assms seg_one [of 10 e] seg_one [of 11 e] by simp_all
  moreover have "e = seg 0 16384 e" using seg_all [of e] assms by simp
  ultimately show ?thesis by (simp flip: seg_split)
qed

lemma page_encode_decoded:
  assumes "page_decode C i e = Inr p"
  shows "wf_page p \<and> pg_id p = i \<and> page_encode C p = e"
proof -
  define n where "n = unat (from_le_bytes (seg 40 44 e) :: u32)"
  have len: "length e = 16384" and magic: "seg 0 8 e = PAGE_MAGIC"
    and ver: "(from_le_bytes (seg 8 10 e) :: u16) = 1" "unat (from_le_bytes (seg 12 14 e) :: u16) = 96"
    and zero: "e ! 11 = 0" "seg 14 16 e = replicate (length (seg 14 16 e)) 0"
      "seg 80 96 e = replicate (length (seg 80 96 e)) 0"
    and kind: "page_kind_try_from (e ! 10) = Inr (pg_kind p)"
    and i: "from_le_bytes (seg 16 24 e) = get i" and n: "n \<le> 16288"
    and pad: "drop (96 + n) e = replicate (length (drop (96 + n) e)) 0"
    and ck: "page_checksum C e = from_le_bytes (seg 44 48 e)"
    and dg: "page_digest C e = from_be_bytes (seg 48 80 e)"
    and p: "pg_id p = i" "pg_creating_csn p = nonzero_option (from_le_bytes (seg 24 32 e))"
      "pg_next p = nonzero_option (from_le_bytes (seg 32 40 e))" "pg_payload p = seg 96 (96 + n) e"
    using assms unfolding n_def
    by (auto simp: page_decode_def Let_def all_zero_iff page_sizes attempt_eq_Inr split: if_splits)
  have wf: "wf_page p" using n len by (simp add: wf_page_def page_sizes p)
  have plen: "length (pg_payload p) = n" using n len by (simp add: p)
  have head: "page_head p = seg 0 8 e @ seg 8 10 e @ [e ! 10] @ [e ! 11] @ seg 12 14 e @ seg 14 16 e @ seg 16 24 e
    @ seg 24 32 e @ seg 32 40 e @ seg 40 44 e"
  proof -
    have "from_le_bytes (seg 12 14 e) = (96 :: u16)"
      using arg_cong [OF ver(2), of "word_of_nat :: nat \<Rightarrow> u16"] by (simp add: word_of_nat_unat)
    then have "to_le_bytes (96 :: u16) = seg 12 14 e" using len by (intro to_le_bytes_eqI) simp_all
    moreover have "to_le_bytes (1 :: u16) = seg 8 10 e" using len by (intro to_le_bytes_eqI ver) simp_all
    moreover have "to_le_bytes (word_of_nat n :: u32) = seg 40 44 e"
      using len by (simp add: n_def word_of_nat_unat)
    moreover have "to_le_bytes (get i) = seg 16 24 e" using len by (intro to_le_bytes_eqI i) simp_all
    moreover have "e ! 10 = page_kind_code (pg_kind p)" using kind by (simp add: result_simps)
    moreover have "seg 14 16 e = replicate 2 0" using zero(2) len by simp
    ultimately show ?thesis using len magic zero(1) by (simp add: page_head_def p(1-3) plen)
  qed
  have tail: "page_tail p = seg 80 96 e @ drop 96 e"
    using pad len n zero(3) seg_split [of 96 "96 + n" 16384 e]
    by (simp add: page_tail_def p seg_tail [of _ e, unfolded len])
  have e: "e = page_head p @ seg 44 48 e @ seg 48 80 e @ page_tail p"
    using page_partition [OF len] by (simp only: head tail append_assoc)
  have "page_checksum C (page_head p @ (seg 44 48 e @ seg 48 80 e) @ page_tail p) = page_check C p"
    using len by (subst page_checksum_layout) (simp_all add: page_check_def)
  then have "page_checksum C e = page_check C p" by (simp only: append_assoc flip: e)
  with ck have c: "seg 44 48 e = to_le_bytes (page_check C p)"
    using len by (intro to_le_bytes_eqI [symmetric]) simp_all
  have "page_digest C (page_head p @ seg 44 48 e @ seg 48 80 e @ page_tail p) = page_hash C p"
    using len by (subst page_digest_layout) (simp_all add: page_hash_def c)
  then have "page_digest C e = page_hash C p" by (simp only: flip: e)
  with dg len have "seg 48 80 e = to_be_bytes (page_hash C p)" by (simp add: from_be_bytes_iff [symmetric])
  with e c have "e = page_image C p" by (simp add: page_image_def)
  with wf p(1) show ?thesis by (simp add: page_encode_image)
qed

interpretation page_codec: canonical_codec "\<lambda>p. wf_page p \<and> pg_id p = i" "\<lambda>p. Inr (page_encode C p) :: unit + bytes"
    "page_decode C i" for C i
  by unfold_locales (auto simp: page_decode_encoded dest: page_encode_decoded)

text \<open>C33. A slot of the page file reads as a page exactly when it holds the image of that page: the
  decoder accepts the bytes the encoder writes for a page with the requested identity and a payload
  that fits, and no others.\<close>

theorem page_decode_canonical:
  "(page_decode C i e = Inr p) = (length (pg_payload p) \<le> 16288 \<and> pg_id p = i \<and> e = page_encode C p)"
  using page_codec.dec_iff [of C i e p] by (auto simp: wf_page_def page_sizes)

lemma length_page_encode [simp]: "wf_page p \<Longrightarrow> length (page_encode C p) = 16384"
  by (simp add: page_encode_image)

end
