(* ===== verification/PageFile.thy ===== *)
theory PageFile
  imports PageCodec
begin

text \<open>
  The page file as a state machine: appends, unpublished tails, synchronization, crashes and
  reopening with repair. A page stays readable as it was appended until its unpublished tail is
  rolled back, and a synchronized page for ever.
\<close>

section \<open>What a file holds\<close>

definition slot :: "page_id \<Rightarrow> bytes \<Rightarrow> bytes" where
  "slot i content = seg ((unat (get i) - 1) * 16384) (unat (get i) * 16384) content"

definition page_at :: "crypto \<Rightarrow> bytes \<Rightarrow> page_id \<Rightarrow> page \<Rightarrow> bool" where
  "page_at C content i p =
     (wf_page p \<and> pg_id p = i \<and> unat (get i) * 16384 \<le> length content \<and> slot i content = page_encode C p)"

definition pages_at :: "crypto \<Rightarrow> bytes \<Rightarrow> nat \<Rightarrow> (page_id \<rightharpoonup> page) \<Rightarrow> bool" where
  "pages_at C content bound M = (\<forall>i p. M i = Some p \<longrightarrow> page_at C content i p \<and> unat (get i) * 16384 \<le> bound)"

lemma get_pos: "0 < unat (get (i :: page_id))"
  using get_nonzero [of i] by (simp add: unat_gt_0)

lemma slot_cong:
  assumes "take n a = take n b" "unat (get i) * 16384 \<le> n"
  shows "slot i a = slot i b"
proof -
  have "seg x y a = seg x y b" if "y \<le> n" for x y
    using that arg_cong [OF assms(1), of "take y"] by (simp add: seg_def drop_take [symmetric] min_absorb1)
  with assms(2) show ?thesis by (simp add: slot_def)
qed

lemma page_at_cong:
  assumes "page_at C a i p" "take n a = take n b" "unat (get i) * 16384 \<le> n"
  shows "page_at C b i p"
proof -
  have "min n (length a) = min n (length b)" using arg_cong [OF assms(2), of length] by (simp add: min.commute)
  moreover have "unat (get i) * 16384 \<le> length a" using assms(1) by (simp add: page_at_def)
  ultimately have "unat (get i) * 16384 \<le> length b" using assms(3) by linarith
  with assms show ?thesis using slot_cong [OF assms(2,3)] by (simp add: page_at_def)
qed

lemma page_at_append: assumes "page_at C a i p" shows "page_at C (a @ b) i p"
  using assms by (intro page_at_cong [OF assms, of "length a"]) (simp_all add: page_at_def)

lemma pages_at_append: "pages_at C a n M \<Longrightarrow> pages_at C (a @ b) n M"
  by (simp add: pages_at_def page_at_append)

lemma pages_at_cong: "pages_at C a n M \<Longrightarrow> take n a = take n b \<Longrightarrow> pages_at C b n M"
  unfolding pages_at_def by (blast intro: page_at_cong)

lemma pages_at_mono: "pages_at C a n M \<Longrightarrow> n \<le> m \<Longrightarrow> pages_at C a m M"
  unfolding pages_at_def by (blast intro: le_trans)

lemma pages_at_submap: "pages_at C a n M \<Longrightarrow> N \<subseteq>\<^sub>m M \<Longrightarrow> pages_at C a n N"
  unfolding pages_at_def map_le_def by (metis domI)

text \<open>A read returns the page that its slot holds.\<close>

lemma page_read_at:
  assumes "page_at C (pf_content (ps_file s)) i p" "get i < ps_next_page_id s"
    and "length (pf_content (ps_file s)) < 2 ^ 64" "\<forall>k. io k \<noteq> None"
  shows "page_read C io s i = (Inr p, s\<lparr>ps_physical_reads := ps_physical_reads s + 1\<rparr>)"
proof -
  let ?c = "pf_content (ps_file s)"
  have p: "wf_page p" "pg_id p = i" "slot i ?c = page_encode C p" and le: "unat (get i) * 16384 \<le> length ?c"
    using assms(1) by (simp_all add: page_at_def)
  have sub: "checked_sub (get i) 1 = Some (get i - 1)" "unat (get i - 1) = unat (get i) - 1"
    using get_pos [of i] by (simp_all add: checked_sub_def unat_sub_small Suc_le_eq)
  define off :: u64 where "off = (get i - 1) * 16384"
  have "(unat (get i) - 1) * 16384 < 2 ^ 64" using le assms(3) by (simp add: diff_mult_distrib)
  then have mul: "checked_mul (get i - 1) 16384 = Some off" by (simp add: checked_mul_def sub(2) off_def)
  then have off: "unat off = (unat (get i) - 1) * 16384" by (simp add: checked_mul_eq_Some sub(2))
  have off_end: "unat off + 16384 = unat (get i) * 16384"
    using get_pos [of i] off by (cases "unat (get i)") simp_all
  have "read_exact_at PageStoreIo io ?c 16384 (unat off) = Inr (slot i ?c)"
    using read_exact_at_complete [OF assms(4), of "unat off" 16384 ?c] le off_end
    by (simp add: slot_def del: One_nat_def flip: off)
  then show ?thesis
    using assms(2) p page_decode_encoded [OF p(1), of C]
    by (simp add: page_read_def page_read_exact_at_def sub mul PAGE_SIZE_def linorder_not_le)
qed

section \<open>The invariant of a store\<close>

text \<open>The pages below the boundary are in the file; a store that is not poisoned has nothing else there.\<close>

definition store_inv :: "crypto \<Rightarrow> page_store \<Rightarrow> (page_id \<rightharpoonup> page) \<Rightarrow> bool" where
  "store_inv C s M =
     (let pages = (unat (ps_next_page_id s) - 1) * 16384; file_length = length (pf_content (ps_file s)) in
      ps_next_page_id s \<noteq> 0 \<and> pages \<le> file_length \<and> (\<not> ps_poisoned s \<longrightarrow> file_length = pages)
      \<and> pages_at C (pf_content (ps_file s)) pages M)"

lemma store_inv_below:
  assumes "store_inv C s M" "M i = Some p" shows "get i < ps_next_page_id s"
proof -
  have "ps_next_page_id s \<noteq> 0" "unat (get i) * 16384 \<le> (unat (ps_next_page_id s) - 1) * 16384"
    using assms by (auto simp: store_inv_def pages_at_def Let_def)
  then have "0 < unat (ps_next_page_id s)" "unat (get i) \<le> unat (ps_next_page_id s) - 1"
    by (simp_all add: unat_gt_0 del: One_nat_def)
  then show ?thesis by (simp add: word_less_nat_alt)
qed

lemma store_inv_read:
  assumes "store_inv C s M" "M i = Some p" "length (pf_content (ps_file s)) < 2 ^ 64" "\<forall>k. io k \<noteq> None"
  shows "page_read C io s i = (Inr p, s\<lparr>ps_physical_reads := ps_physical_reads s + 1\<rparr>)"
  using assms store_inv_below [OF assms(1,2)]
  by (intro page_read_at) (auto simp: store_inv_def pages_at_def Let_def)

lemma page_read_store: "snd (page_read C io s i) \<in> {s, s\<lparr>ps_physical_reads := ps_physical_reads s + 1\<rparr>}"
  by (simp add: page_read_def split: option.split)

section \<open>Operations keep the invariant\<close>

text \<open>The page that an append writes.\<close>

definition appended :: "page_store \<Rightarrow> page_kind \<Rightarrow> csn option \<Rightarrow> page_id option \<Rightarrow> bytes \<Rightarrow> page" where
  "appended s kind c n payload = \<lparr>pg_id = nz (ps_next_page_id s), pg_kind = kind, pg_creating_csn = c, pg_next = n,
     pg_payload = payload\<rparr>"

lemma page_append_Inr:
  assumes "page_append C seek_ok fault s kind c n payload = (Inr i, s')"
  shows "\<not> ps_poisoned s \<and> i = nz (ps_next_page_id s) \<and> get i = ps_next_page_id s
    \<and> wf_page (appended s kind c n payload) \<and> seek_ok \<and> fault = None
    \<and> checked_add (ps_next_page_id s) 1 = Some (ps_next_page_id s')
    \<and> s' = s\<lparr>ps_file := write_end (page_encode C (appended s kind c n payload)) (ps_file s),
        ps_next_page_id := ps_next_page_id s'\<rparr>"
  using assms
  by (auto simp: page_append_def Let_def identity_new_def attempt_def map_err_def page_new_def appended_def
      wf_page_def split: if_splits sum.splits option.splits)

lemma write_end_Nil [simp]: "write_end [] f = f"
  by (simp add: write_end_def)

lemma page_append_Inl:
  assumes "page_append C seek_ok fault s kind c n payload = (Inl e, s')"
  shows "s' = s \<or> (\<exists>junk. ps_file s' = write_end junk (ps_file s) \<and> ps_poisoned s'
    \<and> ps_next_page_id s' = ps_next_page_id s \<and> ps_generation s' = ps_generation s)"
proof -
  have ex: "\<exists>junk. f = write_end junk f" "\<exists>junk. write_end b f = write_end junk f" for f b
    by (rule exI [of _ "[]"], simp) blast
  from assms show ?thesis
    by (auto simp: page_append_def Let_def ex split: if_splits sum.splits option.splits)
qed

lemma slot_append_end:
  assumes "length content = (unat (get i) - 1) * 16384" "length bs = 16384"
  shows "slot i (content @ bs) = bs" "unat (get i) * 16384 = length (content @ bs)"
  using assms get_pos [of i] by (cases "unat (get i)"; simp add: slot_def seg_def)+

lemma store_inv_write_end:
  assumes "store_inv C s M" "ps_poisoned s'" "ps_file s' = write_end junk (ps_file s)"
    "ps_next_page_id s' = ps_next_page_id s"
  shows "store_inv C s' M"
proof -
  have *: "pages_at C (c @ junk) n M" if "pages_at C c n M" for c n
    using that(1) by (rule pages_at_append)
  from assms show ?thesis
    by (auto simp: store_inv_def Let_def write_end_def intro!: *)
qed

lemma store_inv_append:
  assumes inv: "store_inv C s M" and app: "page_append C seek_ok fault s kind c n payload = (Inr i, s')"
  shows "store_inv C s' (M(i \<mapsto> appended s kind c n payload)) \<and> \<not> ps_poisoned s' \<and> M i = None"
proof -
  let ?p = "appended s kind c n payload" and ?n = "ps_next_page_id s" and ?c = "pf_content (ps_file s)"
  have a: "\<not> ps_poisoned s" "get i = ?n" "wf_page ?p" "i = nz ?n" "checked_add ?n 1 = Some (ps_next_page_id s')"
    and s': "s' = s\<lparr>ps_file := write_end (page_encode C ?p) (ps_file s), ps_next_page_id := ps_next_page_id s'\<rparr>"
    using page_append_Inr [OF app] by auto
  have next': "unat (ps_next_page_id s') = unat ?n + 1" using a(5) by (simp add: checked_add_Some)
  have len: "length ?c = (unat (get i) - 1) * 16384" and M: "pages_at C ?c (length ?c) M"
    using inv a(1,2) by (auto simp: store_inv_def Let_def)
  have fresh: "M i = None" using store_inv_below [OF inv, of i] a(2) by (cases "M i") auto
  have content: "pf_content (ps_file s') = ?c @ page_encode C ?p" by (subst s') (simp add: write_end_def)
  note new = slot_append_end [OF len length_page_encode [OF a(3), of C]]
  have "page_at C (?c @ page_encode C ?p) i ?p"
    using a(3,4) new by (simp add: page_at_def appended_def)
  moreover have "pages_at C (?c @ page_encode C ?p) (unat ?n * 16384) M"
    using pages_at_mono [OF pages_at_append [OF M, of "page_encode C ?p"], of "unat ?n * 16384"] len a(2) by simp
  ultimately have "pages_at C (?c @ page_encode C ?p) (unat ?n * 16384) (M(i \<mapsto> ?p))"
    by (simp add: pages_at_def a(2))
  moreover have "ps_next_page_id s' \<noteq> 0" using next' by (auto simp flip: unat_eq_0)
  moreover have "\<not> ps_poisoned s'" using a(1) by (subst s') simp
  ultimately show ?thesis using fresh new(2) a(2) by (simp add: store_inv_def Let_def next' content)
qed

text \<open>A store with its readable pages and, among them, the ones within the synchronized length.\<close>

definition store_ok :: "crypto \<Rightarrow> page_store \<Rightarrow> (page_id \<rightharpoonup> page) \<Rightarrow> (page_id \<rightharpoonup> page) \<Rightarrow> bool" where
  "store_ok C s M D =
     (store_inv C s M \<and> pages_at C (pf_content (ps_file s)) (pf_synced (ps_file s)) D \<and> D \<subseteq>\<^sub>m M)"

definition within :: "u64 \<Rightarrow> (page_id \<rightharpoonup> page) \<Rightarrow> bool" where
  "within r M = (\<forall>i \<in> dom M. get i \<le> r)"

lemma store_inv_submap: "store_inv C s M \<Longrightarrow> N \<subseteq>\<^sub>m M \<Longrightarrow> store_inv C s N"
  by (auto simp: store_inv_def Let_def intro: pages_at_submap)

lemma store_inv_poison: "store_inv C s M \<Longrightarrow> store_inv C (s\<lparr>ps_poisoned := True\<rparr>) M"
  by (simp add: store_inv_def Let_def)

lemma pages_at_within:
  assumes "pages_at C a n M" "within r M"
  shows "pages_at C (take (unat r * 16384) a @ z) (min (unat r * 16384) n) M"
  unfolding pages_at_def
proof (intro allI impI)
  fix i p
  assume "M i = Some p"
  with assms have at: "page_at C a i p" "unat (get i) * 16384 \<le> n" and "unat (get i) \<le> unat r"
    by (auto simp: pages_at_def within_def word_le_nat_alt)
  then have le: "unat (get i) * 16384 \<le> min (unat r * 16384) (length a)" by (simp add: page_at_def)
  have "take (min (unat r * 16384) (length a)) a = take (min (unat r * 16384) (length a)) (take (unat r * 16384) a @ z)"
    by simp
  from page_at_cong [OF at(1) this le] at(2) le
  show "page_at C (take (unat r * 16384) a @ z) i p \<and> unat (get i) * 16384 \<le> min (unat r * 16384) n" by simp
qed

lemma rollback_cases:
  assumes "rollback_unpublished_tail set_len_ok s r = (res, s')"
  obtains "s' = s" | "s' = s\<lparr>ps_poisoned := True\<rparr>"
  | n where "\<not> ps_poisoned s" "r < page_count s" "set_len_ok" "res = Inr ()" "unat n = unat r + 1"
    "s' = s\<lparr>ps_file := set_len (unat r * 16384) (ps_file s), ps_next_page_id := n\<rparr>"
proof (cases "ps_poisoned s \<or> page_count s \<le> r \<or> checked_mul r 16384 = None")
  case True
  with assms have "s' = s" by (auto simp: rollback_unpublished_tail_def split: if_splits)
  then show thesis by (rule that(1))
next
  case False
  then obtain b where b: "checked_mul r 16384 = Some b" and ok: "\<not> ps_poisoned s" "r < page_count s" by auto
  from b have bytes: "unat b = unat r * 16384" by (simp add: checked_mul_eq_Some)
  have "unat r + 1 < 2 ^ 64"
    using ok(2) unat_u64_less [of "page_count s"] by (simp add: word_less_nat_alt)
  then obtain n where n: "checked_add r 1 = Some n" by (simp add: checked_add_def)
  then have "unat n = unat r + 1" by (simp add: checked_add_Some)
  note n' = this
  have order: "\<not> page_count s < r" "r \<noteq> page_count s" using ok(2) by auto
  have clean: "s\<lparr>ps_file := f, ps_next_page_id := k, ps_poisoned := False\<rparr> = s\<lparr>ps_file := f, ps_next_page_id := k\<rparr>" for f k
    using ok(1) by (cases s) simp
  show thesis
  proof (cases set_len_ok)
    case True
    with assms ok order b n have "res = Inr () \<and> s' = s\<lparr>ps_file := set_len (unat b) (ps_file s), ps_next_page_id := n, ps_poisoned := False\<rparr>"
      by (simp add: rollback_unpublished_tail_def Let_def)
    with ok True n' show thesis by (intro that(3)) (simp_all add: bytes clean)
  next
    case False
    with assms ok order b have "s' = s\<lparr>ps_poisoned := True\<rparr>" by (auto simp: rollback_unpublished_tail_def Let_def)
    then show thesis by (rule that(2))
  qed
qed

lemma unat_page_count: "store_inv C s M \<Longrightarrow> unat (page_count s) = unat (ps_next_page_id s) - 1"
  unfolding page_count_def by (subst unat_sub_small) (simp_all add: store_inv_def Let_def Suc_le_eq unat_gt_0)

lemma store_ok_rollback:
  assumes ok: "store_ok C s M D" and sub: "N \<subseteq>\<^sub>m M" "D \<subseteq>\<^sub>m N" and r: "within r N"
    and roll: "rollback_unpublished_tail set_len_ok s r = (res, s')"
  shows "store_ok C s' N D"
proof -
  let ?c = "pf_content (ps_file s)" and ?n = "unat r * 16384"
  have inv: "store_inv C s N" and D: "pages_at C ?c (pf_synced (ps_file s)) D"
    using ok sub store_inv_submap [of C s M N] by (simp_all add: store_ok_def)
  from roll show ?thesis
  proof (cases rule: rollback_cases)
    case 1
    with inv D sub show ?thesis by (simp add: store_ok_def)
  next
    case 2
    with inv D sub show ?thesis by (simp add: store_ok_def store_inv_poison)
  next
    case (3 n)
    have "unat r + 1 \<le> unat (ps_next_page_id s) - 1"
      using 3(2) unat_page_count [OF inv] by (simp add: word_less_nat_alt)
    moreover have len: "length ?c = (unat (ps_next_page_id s) - 1) * 16384" and N: "pages_at C ?c (length ?c) N"
      using inv 3(1) by (auto simp: store_inv_def Let_def)
    ultimately have cut: "?n \<le> length ?c" by simp
    have "within r D" using r map_le_implies_dom_le [OF sub(2)] by (simp add: within_def subset_iff)
    note pages = pages_at_within [OF D this, of "[]"] pages_at_within [OF N r, of "[]"]
    have "n \<noteq> 0" using 3(5) by (metis Suc_eq_plus1 Zero_not_Suc unsigned_0)
    then have "store_inv C s' N"
      using pages(2) cut by (simp add: store_inv_def Let_def set_len_def 3(5,6) min_absorb1)
    then show ?thesis
      using pages(1) cut sub(2) by (simp add: store_ok_def set_len_def 3(6))
  qed
qed

lemma store_ok_submap: "store_ok C s M D \<Longrightarrow> N \<subseteq>\<^sub>m M \<Longrightarrow> D \<subseteq>\<^sub>m N \<Longrightarrow> store_ok C s N D"
  by (auto simp: store_ok_def intro: store_inv_submap)

lemma store_ok_drop_tail:
  assumes "store_ok C s M D" "N \<subseteq>\<^sub>m M" "D \<subseteq>\<^sub>m N" "within r N"
  shows "store_ok C (drop_tail set_len_ok s r finalized) N D"
  using store_ok_rollback [OF assms, of set_len_ok "fst (rollback_unpublished_tail set_len_ok s r)"
      "snd (rollback_unpublished_tail set_len_ok s r)"] store_ok_submap [OF assms(1-3)]
  by (simp add: drop_tail_def)

lemma store_ok_rollback_tail:
  assumes "store_ok C s M D" "N \<subseteq>\<^sub>m M" "D \<subseteq>\<^sub>m N" "within r N"
    and "rollback_tail set_len_ok set_len_ok' s r = (res, s')"
  shows "store_ok C s' N D"
proof -
  obtain res1 s1 where roll: "rollback_unpublished_tail set_len_ok s r = (res1, s1)" by force
  have s1: "store_ok C s1 N D" by (rule store_ok_rollback [OF assms(1-4) roll])
  have "store_ok C (drop_tail set_len_ok' s1 r b) N D" for b
    by (rule store_ok_drop_tail [OF s1 _ assms(3,4)]) simp
  with assms(5) roll show ?thesis by (auto simp: rollback_tail_def split: sum.splits)
qed

lemma store_ok_sync:
  assumes "store_ok C s M D" "page_sync_data sync_ok s = (res, s')"
  shows "store_ok C s' M (if res = Inr () then M else D)"
  using assms
  by (auto simp: page_sync_data_def store_ok_def store_inv_def Let_def sync_file_def split: if_splits)

lemma store_ok_append_Inr:
  assumes "store_ok C s M D" "page_append C seek_ok fault s kind c n payload = (Inr i, s')"
  shows "store_ok C s' (M(i \<mapsto> appended s kind c n payload)) D"
proof -
  let ?p = "appended s kind c n payload" and ?c = "pf_content (ps_file s)"
  have inv: "store_inv C s M" and D: "pages_at C ?c (pf_synced (ps_file s)) D" "D \<subseteq>\<^sub>m M"
    using assms(1) by (simp_all add: store_ok_def)
  note app = store_inv_append [OF inv assms(2)]
  have new_file: "ps_file s' = write_end (page_encode C ?p) (ps_file s)"
    using page_append_Inr [OF assms(2)] by (cases s') auto
  have "pages_at C (?c @ page_encode C ?p) (pf_synced (ps_file s)) D"
    using D(1) by (rule pages_at_append)
  moreover have "D \<subseteq>\<^sub>m M(i \<mapsto> ?p)" using D(2) app by (auto simp: map_le_def dom_def)
  ultimately show ?thesis using app by (simp add: store_ok_def new_file write_end_def)
qed

lemma store_ok_append_Inl:
  assumes "store_ok C s M D" "page_append C seek_ok fault s kind c n payload = (Inl e, s')"
  shows "store_ok C s' M D"
  using page_append_Inl [OF assms(2)]
proof
  assume "\<exists>junk. ps_file s' = write_end junk (ps_file s) \<and> ps_poisoned s'
    \<and> ps_next_page_id s' = ps_next_page_id s \<and> ps_generation s' = ps_generation s"
  then obtain junk where s': "ps_file s' = write_end junk (ps_file s)" "ps_poisoned s'"
    "ps_next_page_id s' = ps_next_page_id s" by blast
  with assms(1) store_inv_write_end [OF _ s'(2,1,3), of C M] show ?thesis
    by (simp add: store_ok_def write_end_def pages_at_append)
qed (use assms(1) in simp)

lemma store_ok_reads: "store_ok C s M D \<Longrightarrow> page_read C io s i = (res, s') \<Longrightarrow> store_ok C s' M D"
  using page_read_store [of C io s i] by (auto simp: store_ok_def store_inv_def)

section \<open>Reopening\<close>

text \<open>What a crash may leave of a file: the synchronized prefix, and anything after it.\<close>

definition file_survives :: "page_file \<Rightarrow> page_file \<Rightarrow> bool" where
  "file_survives f f' =
     (take (pf_synced f) (pf_content f') = take (pf_synced f) (pf_content f) \<and> pf_synced f' = pf_synced f)"

text \<open>The files that crashes and failed attempts to reopen lead to.\<close>

inductive disk_reaches :: "page_file \<Rightarrow> page_file \<Rightarrow> bool" for f where
  stay: "disk_reaches f f"
| crash: "disk_reaches f g \<Longrightarrow> file_survives g h \<Longrightarrow> disk_reaches f h"
| failed_open: "disk_reaches f g \<Longrightarrow> length (pf_content g) < 2 ^ 64
    \<Longrightarrow> open_repair_tail_generation open_ok metadata_ok set_len_ok sync_ok g generation = (Inl e, h) \<Longrightarrow> disk_reaches f h"

abbreviation durable_at :: "crypto \<Rightarrow> page_file \<Rightarrow> (page_id \<rightharpoonup> page) \<Rightarrow> bool" where
  "durable_at C f D \<equiv> pages_at C (pf_content f) (pf_synced f) D"

lemma durable_at_sync: "durable_at C f D \<Longrightarrow> durable_at C (sync_file f) D"
  by (auto simp: pages_at_def sync_file_def page_at_def)

lemma durable_at_repair:
  assumes "durable_at C f D" "length (pf_content f) < 2 ^ 64"
  shows "durable_at C (set_len (length (pf_content f) - length (pf_content f) mod PAGE_SIZE) f) D"
proof -
  let ?n = "length (pf_content f) div 16384"
  define r :: u64 where "r = word_of_nat ?n"
  have r: "unat r = ?n" using assms(2) unfolding r_def by (intro unat_word_of_nat) simp
  have cut: "length (pf_content f) - length (pf_content f) mod PAGE_SIZE = unat r * 16384"
    by (simp add: PAGE_SIZE_def r minus_mod_eq_div_mult)
  have "unat (get i) \<le> unat r" if "D i = Some p" for i p
    using assms(1) that by (auto simp: pages_at_def page_at_def r less_eq_div_iff_mult_less_eq)
  then have "within r D" by (auto simp: within_def word_le_nat_alt)
  from pages_at_within [OF assms(1) this, of "replicate (unat r * 16384 - length (pf_content f)) 0"]
  show ?thesis unfolding cut by (simp add: set_len_def)
qed

lemma durable_at_open:
  assumes "open_repair_tail_generation a b c d f generation = (res, f')"
    and "durable_at C f D" "length (pf_content f) < 2 ^ 64"
  shows "durable_at C f' D"
  using assms durable_at_repair [OF assms(2,3)]
  by (auto simp: open_repair_tail_generation_def Let_def durable_at_sync split: if_splits)

lemma disk_reaches_durable: "disk_reaches f g \<Longrightarrow> durable_at C f D \<Longrightarrow> durable_at C g D"
proof (induction rule: disk_reaches.induct)
  case (crash g h)
  then show ?case using pages_at_cong [of C "pf_content g" "pf_synced g" D "pf_content h"]
    by (simp add: file_survives_def)
next
  case (failed_open g)
  then show ?case by (blast intro: durable_at_open)
qed

lemma open_repair_store:
  assumes "open_repair_tail_generation a b c d f generation = (Inr (s, n), f')" "length (pf_content f) < 2 ^ 64"
  shows "ps_file s = f' \<and> \<not> ps_poisoned s \<and> ps_generation s = generation \<and> ps_next_page_id s \<noteq> 0
    \<and> length (pf_content f') = (unat (ps_next_page_id s) - 1) * 16384"
proof -
  let ?l = "length (pf_content f)"
  have "unat (word_of_nat (?l div 16384) :: u64) = ?l div 16384" using assms(2) by (intro unat_word_of_nat) simp
  moreover have "(?l - ?l mod 16384) div 16384 = ?l div 16384" "?l - ?l mod 16384 = ?l div 16384 * 16384"
    by (simp_all add: minus_mod_eq_div_mult)
  moreover have "?l div 16384 * 16384 \<le> ?l" by simp
  moreover have "?l mod 16384 = 0 \<Longrightarrow> ?l div 16384 * 16384 = ?l" by (metis add.right_neutral div_mult_mod_eq)
  ultimately show ?thesis using assms(1)
    by (auto simp: open_repair_tail_generation_def Let_def PAGE_SIZE_def result_simps checked_add_Some sync_file_def
        set_len_def split: if_splits dest!: arg_cong [of _ 0 unat])
qed

lemma store_ok_open:
  assumes "open_repair_tail_generation a b c d f generation = (Inr (s, n), f')"
    and "durable_at C f D" "length (pf_content f) < 2 ^ 64"
  shows "store_ok C s D D"
proof -
  note opened = open_repair_store [OF assms(1,3)] and durable = durable_at_open [OF assms]
  then have "pages_at C (pf_content f') (length (pf_content f')) D" by (auto simp: pages_at_def page_at_def)
  with opened durable show ?thesis by (simp add: store_ok_def store_inv_def Let_def)
qed

section \<open>The page file as a state machine\<close>

text \<open>
  A store, the retained count of its unpublished tail while one is open, the readable pages, and
  the synchronized ones. While a tail is open the store is borrowed: nothing but the tail acts on it.
\<close>

record page_system =
  sys_store :: page_store
  sys_tail :: "u64 option"
  sys_pages :: "page_id \<rightharpoonup> page"
  sys_durable :: "page_id \<rightharpoonup> page"

definition retained_pages :: "u64 \<Rightarrow> page_system \<Rightarrow> page_id \<rightharpoonup> page" where
  "retained_pages r y = sys_pages y |` {i. get i \<le> r}"

text \<open>The operations of an open store.\<close>

inductive page_op :: "crypto \<Rightarrow> page_system \<Rightarrow> page_system \<Rightarrow> bool" for C where
  append_page:
    "page_append C seek_ok fault (sys_store y) kind c n payload = (Inr i, s')
      \<Longrightarrow> page_op C y (y\<lparr>sys_store := s', sys_pages := (sys_pages y)(i \<mapsto> appended (sys_store y) kind c n payload)\<rparr>)"
| append_fails:
    "page_append C seek_ok fault (sys_store y) kind c n payload = (Inl e, s') \<Longrightarrow> page_op C y (y\<lparr>sys_store := s'\<rparr>)"
| read_page: "page_read C io (sys_store y) i = (res, s') \<Longrightarrow> page_op C y (y\<lparr>sys_store := s'\<rparr>)"
| sync_pages:
    "sys_tail y = None \<Longrightarrow> page_sync_data sync_ok (sys_store y) = (res, s')
      \<Longrightarrow> page_op C y (y\<lparr>sys_store := s', sys_durable := (if res = Inr () then sys_pages y else sys_durable y)\<rparr>)"
| begin_tail:
    "sys_tail y = None \<Longrightarrow> begin_unpublished_tail (sys_store y) = Inr r \<Longrightarrow> page_op C y (y\<lparr>sys_tail := Some r\<rparr>)"
| finalize_tail:
    "sys_tail y = Some r \<Longrightarrow> page_op C y (y\<lparr>sys_store := finalize_tail set_len_ok (sys_store y) r, sys_tail := None\<rparr>)"
| rollback_tail:
    "sys_tail y = Some r \<Longrightarrow> rollback_tail set_len_ok set_len_ok' (sys_store y) r = (res, s')
      \<Longrightarrow> page_op C y (y\<lparr>sys_store := s', sys_tail := None, sys_pages := retained_pages r y\<rparr>)"
| drop_tail:
    "sys_tail y = Some r
      \<Longrightarrow> page_op C y (y\<lparr>sys_store := drop_tail set_len_ok (sys_store y) r False, sys_tail := None,
            sys_pages := retained_pages r y\<rparr>)"

text \<open>A restart: crashes and failed attempts to open, then a successful one.\<close>

inductive page_step :: "crypto \<Rightarrow> page_system \<Rightarrow> page_system \<Rightarrow> bool" for C where
  op: "page_op C y y' \<Longrightarrow> page_step C y y'"
| reopen:
    "disk_reaches (ps_file (sys_store y)) f \<Longrightarrow> length (pf_content f) < 2 ^ 64
      \<Longrightarrow> open_repair_tail_generation a b c d f generation = (Inr (s', n), f')
      \<Longrightarrow> page_step C y \<lparr>sys_store = s', sys_tail = None, sys_pages = sys_durable y, sys_durable = sys_durable y\<rparr>"

inductive page_reachable :: "crypto \<Rightarrow> page_system \<Rightarrow> bool" for C where
  created: "create_generation True generation = Inr s
    \<Longrightarrow> page_reachable C \<lparr>sys_store = s, sys_tail = None, sys_pages = Map.empty, sys_durable = Map.empty\<rparr>"
| step: "page_reachable C y \<Longrightarrow> page_step C y y' \<Longrightarrow> page_reachable C y'"

definition page_system_inv :: "crypto \<Rightarrow> page_system \<Rightarrow> bool" where
  "page_system_inv C y =
     (store_ok C (sys_store y) (sys_pages y) (sys_durable y)
      \<and> (\<forall>r. sys_tail y = Some r \<longrightarrow> within r (sys_durable y)))"

lemma retained_pages_sub: "retained_pages r y \<subseteq>\<^sub>m sys_pages y" "within r (retained_pages r y)"
  by (auto simp: retained_pages_def map_le_def within_def dom_def restrict_map_def)

lemma retained_pages_durable:
  "D \<subseteq>\<^sub>m sys_pages y \<Longrightarrow> within r D \<Longrightarrow> D \<subseteq>\<^sub>m retained_pages r y"
  by (auto simp: retained_pages_def map_le_def within_def)

lemma store_ok_within: assumes "store_ok C s M D" "N \<subseteq>\<^sub>m M" shows "within (page_count s) N"
proof -
  have inv: "store_inv C s M" using assms(1) by (simp add: store_ok_def)
  have "get i \<le> page_count s" if "M i = Some p" for i p
    using store_inv_below [OF inv that] unat_page_count [OF inv] by (simp add: word_le_nat_alt word_less_nat_alt)
  then have "within (page_count s) M" by (auto simp: within_def)
  with map_le_implies_dom_le [OF assms(2)] show ?thesis by (auto simp: within_def subset_iff)
qed

lemma page_op_inv:
  assumes "page_op C y y'" "page_system_inv C y" shows "page_system_inv C y'"
  using assms
proof (induction rule: page_op.induct)
  case (append_page seek_ok fault y kind c n payload i s')
  then show ?case by (auto simp: page_system_inv_def intro: store_ok_append_Inr)
next
  case (append_fails seek_ok fault y kind c n payload e s')
  then show ?case by (auto simp: page_system_inv_def intro: store_ok_append_Inl)
next
  case (read_page io y i res s')
  then show ?case by (auto simp: page_system_inv_def intro: store_ok_reads)
next
  case (sync_pages y sync_ok res s')
  then show ?case using store_ok_sync [OF _ sync_pages(2)] by (auto simp: page_system_inv_def)
next
  case (begin_tail y r)
  then have ok: "store_ok C (sys_store y) (sys_pages y) (sys_durable y)" and "r = page_count (sys_store y)"
    by (auto simp: page_system_inv_def begin_unpublished_tail_def split: if_splits)
  moreover have "sys_durable y \<subseteq>\<^sub>m sys_pages y" using ok by (simp add: store_ok_def)
  ultimately show ?case using store_ok_within [OF ok] by (simp add: page_system_inv_def)
next
  case (finalize_tail y r set_len_ok)
  then show ?case by (simp add: page_system_inv_def finalize_tail_def drop_tail_def)
next
  case (rollback_tail y r set_len_ok set_len_ok' res s')
  then have ok: "store_ok C (sys_store y) (sys_pages y) (sys_durable y)" and "within r (sys_durable y)"
    by (simp_all add: page_system_inv_def)
  then have "sys_durable y \<subseteq>\<^sub>m retained_pages r y" by (auto simp: store_ok_def intro: retained_pages_durable)
  from store_ok_rollback_tail [OF ok retained_pages_sub(1) this retained_pages_sub(2) rollback_tail(2)]
  show ?case by (simp add: page_system_inv_def)
next
  case (drop_tail y r set_len_ok)
  then have ok: "store_ok C (sys_store y) (sys_pages y) (sys_durable y)" and "within r (sys_durable y)"
    by (simp_all add: page_system_inv_def)
  then have "sys_durable y \<subseteq>\<^sub>m retained_pages r y" by (auto simp: store_ok_def intro: retained_pages_durable)
  from store_ok_drop_tail [OF ok retained_pages_sub(1) this retained_pages_sub(2)]
  show ?case by (simp add: page_system_inv_def)
qed

lemma page_step_inv:
  assumes "page_step C y y'" "page_system_inv C y" shows "page_system_inv C y'"
  using assms
proof (induction rule: page_step.induct)
  case (op y y')
  then show ?case by (rule page_op_inv)
next
  case (reopen y f a b c d generation s' n f')
  then have "durable_at C f (sys_durable y)"
    by (auto simp: page_system_inv_def store_ok_def intro: disk_reaches_durable)
  with reopen show ?case by (auto simp: page_system_inv_def intro: store_ok_open)
qed

lemma page_reachable_inv: "page_reachable C y \<Longrightarrow> page_system_inv C y"
proof (induction rule: page_reachable.induct)
  case (created generation s)
  then show ?case
    by (auto simp: create_generation_def page_system_inv_def store_ok_def store_inv_def pages_at_def)
next
  case (step y y')
  then show ?case by (blast intro: page_step_inv)
qed

section \<open>Durability\<close>

lemma open_repair_succeeds:
  assumes "length (pf_content f) < 2 ^ 64"
  obtains s n f' where "open_repair_tail_generation True True True True f generation = (Inr (s, n), f')"
    "length (pf_content f') < 2 ^ 64"
proof -
  let ?l = "length (pf_content f)"
  have d: "(?l - ?l mod 16384) div 16384 = ?l div 16384" by (simp add: minus_mod_eq_div_mult)
  have "unat (word_of_nat (?l div 16384) :: u64) = ?l div 16384" using assms by (intro unat_word_of_nat) simp
  moreover have "?l div 16384 + 1 < 2 ^ 64" using assms by simp
  ultimately obtain k where k: "checked_add (word_of_nat (?l div 16384)) 1 = Some (k :: u64)"
    by (simp add: checked_add_def)
  define g where "g = (if ?l mod 16384 \<noteq> 0 then sync_file (set_len (?l - ?l mod 16384) f) else f)"
  have "length (pf_content g) < 2 ^ 64" using assms by (simp add: g_def sync_file_def set_len_def less_imp_diff_less)
  then show thesis
    by (intro that) (auto simp: open_repair_tail_generation_def Let_def PAGE_SIZE_def d k g_def)
qed

text \<open>C5. A synchronized page is never lost: after any execution of appends, unpublished tails,
  rollbacks, failed operations and earlier restarts, whatever crashes leave beyond the synchronized
  prefix and however many attempts to reopen fail, opening with tail repair succeeds when the system
  reports no error, and reading the page gives what was appended.\<close>

theorem page_durability:
  assumes reach: "page_reachable C y" and durable: "sys_durable y i = Some p"
    and disk: "disk_reaches (ps_file (sys_store y)) f" and small: "length (pf_content f) < 2 ^ 64"
    and io: "\<forall>k. io k \<noteq> None"
  shows "\<exists>s n f'. open_repair_tail_generation True True True True f generation = (Inr (s, n), f')
    \<and> fst (page_read C io s i) = Inr p"
proof -
  have D: "durable_at C f (sys_durable y)"
    using page_reachable_inv [OF reach] disk_reaches_durable [OF disk] by (simp add: page_system_inv_def store_ok_def)
  obtain s n f' where opened: "open_repair_tail_generation True True True True f generation = (Inr (s, n), f')"
    and small': "length (pf_content f') < 2 ^ 64" by (rule open_repair_succeeds [OF small])
  have "store_inv C s (sys_durable y)" using store_ok_open [OF opened D small] by (simp add: store_ok_def)
  from store_inv_read [OF this durable] small' io open_repair_store [OF opened small]
  have "fst (page_read C io s i) = Inr p" by simp
  with opened show ?thesis by blast
qed

lemma page_append_succeeds:
  assumes "\<not> ps_poisoned s" "ps_next_page_id s \<noteq> 0" "checked_add (ps_next_page_id s) 1 = Some k" "length payload \<le> 16288"
  shows "page_append C True None s kind c n payload = (Inr (nz (ps_next_page_id s)),
    s\<lparr>ps_file := write_end (page_encode C (appended s kind c n payload)) (ps_file s), ps_next_page_id := k\<rparr>)"
  using assms
  by (cases s) (simp add: page_append_def identity_new_def page_new_def page_sizes appended_def)

text \<open>A store that is created, gets one page and is synchronized.\<close>

definition one_page :: page where
  "one_page = \<lparr>pg_id = FIRST, pg_kind = HeapLeaf, pg_creating_csn = None, pg_next = None, pg_payload = [7]\<rparr>"

definition empty_store :: page_store where
  "empty_store = \<lparr>ps_file = \<lparr>pf_content = [], pf_synced = 0\<rparr>, ps_generation = FIRST, ps_next_page_id = 1,
     ps_physical_reads = 0, ps_poisoned = False\<rparr>"

definition written_store :: page_store where
  "written_store = \<lparr>ps_file = \<lparr>pf_content = page_encode sum_crypto one_page, pf_synced = 0\<rparr>, ps_generation = FIRST,
     ps_next_page_id = 2, ps_physical_reads = 0, ps_poisoned = False\<rparr>"

definition one_page_store :: page_store where
  "one_page_store = written_store\<lparr>ps_file := \<lparr>pf_content = page_encode sum_crypto one_page, pf_synced = 16384\<rparr>\<rparr>"

lemmas one_page_stores = empty_store_def written_store_def one_page_store_def

abbreviation empty_system :: page_system where
  "empty_system \<equiv> \<lparr>sys_store = empty_store, sys_tail = None, sys_pages = Map.empty, sys_durable = Map.empty\<rparr>"

abbreviation written_system :: page_system where
  "written_system \<equiv> \<lparr>sys_store = written_store, sys_tail = None, sys_pages = [FIRST \<mapsto> one_page], sys_durable = Map.empty\<rparr>"

definition one_page_system :: page_system where
  "one_page_system = \<lparr>sys_store = one_page_store, sys_tail = None, sys_pages = [FIRST \<mapsto> one_page],
     sys_durable = [FIRST \<mapsto> one_page]\<rparr>"

lemma nz_one: "nz 1 = FIRST"
  using nz_get [of FIRST] by simp

lemma wf_one_page [simp]: "wf_page one_page"
  by (simp add: wf_page_def one_page_def page_sizes)

lemma empty_reachable: "page_reachable sum_crypto empty_system"
  by (rule created [of FIRST]) (simp add: create_generation_def empty_store_def)

lemma write_one_page: "page_op sum_crypto empty_system written_system"
proof -
  have p: "appended empty_store HeapLeaf None None [7] = one_page" by (simp add: appended_def empty_store_def one_page_def nz_one)
  have "page_append sum_crypto True None empty_store HeapLeaf None None [7] = (Inr FIRST, written_store)"
    by (subst page_append_succeeds) (simp_all add: p, simp_all add: one_page_stores write_end_def nz_one checked_add_def)
  from append_page [of sum_crypto _ _ empty_system, simplified, OF this, unfolded p] show ?thesis by simp
qed

lemma one_page_reachable: "page_reachable sum_crypto one_page_system"
proof -
  have "page_sync_data True written_store = (Inr (), one_page_store)"
    by (simp add: page_sync_data_def one_page_stores sync_file_def)
  then have "page_op sum_crypto written_system one_page_system"
    using sync_pages [of written_system True] by (simp add: one_page_system_def)
  with write_one_page show ?thesis by (blast intro: empty_reachable page_reachable.step op)
qed

theorem page_durability_witness:
  "page_reachable sum_crypto one_page_system
    \<and> (\<exists>s n f'. open_repair_tail_generation True True True True
          (ps_file (sys_store one_page_system)) FIRST = (Inr (s, n), f')
        \<and> fst (page_read sum_crypto (\<lambda>_. Some 5) s FIRST) = Inr one_page)"
  using page_durability [OF one_page_reachable _ disk_reaches.stay, of FIRST one_page "\<lambda>_. Some 5" FIRST] one_page_reachable
  by (simp add: one_page_system_def one_page_stores)

section \<open>Rolling an unpublished tail back\<close>

definition sync_bounded :: "page_file \<Rightarrow> bool" where
  "sync_bounded f = (pf_synced f \<le> length (pf_content f))"

lemma sync_bounded_simps [simp]:
  "sync_bounded f \<Longrightarrow> sync_bounded (write_end bs f)" "sync_bounded (set_len n f)" "sync_bounded (sync_file f)"
  by (auto simp: sync_bounded_def write_end_def set_len_def sync_file_def)

lemma sync_bounded_rollback:
  "sync_bounded (ps_file s) \<Longrightarrow> sync_bounded (ps_file (snd (rollback_unpublished_tail set_len_ok s r)))"
  by (auto simp: rollback_unpublished_tail_def Let_def split: option.splits)

lemma sync_bounded_drop:
  "sync_bounded (ps_file s) \<Longrightarrow> sync_bounded (ps_file (drop_tail set_len_ok s r finalized))"
  by (simp add: drop_tail_def sync_bounded_rollback)

lemma sync_bounded_rollback_tail:
  assumes "sync_bounded (ps_file s)" "rollback_tail set_len_ok set_len_ok' s r = (res, s')"
  shows "sync_bounded (ps_file s')"
  using assms sync_bounded_rollback [OF assms(1), of set_len_ok r]
  by (auto simp: rollback_tail_def sync_bounded_drop split: prod.splits sum.splits)

lemma sync_bounded_open:
  assumes "open_repair_tail_generation a b c d f generation = (res, f')" "sync_bounded f"
  shows "sync_bounded f'"
  using assms by (auto simp: open_repair_tail_generation_def Let_def split: if_splits)

lemma sync_bounded_disk: "disk_reaches f g \<Longrightarrow> sync_bounded f \<Longrightarrow> sync_bounded g"
proof (induction rule: disk_reaches.induct)
  case (crash g h)
  then have "length (take (pf_synced g) (pf_content h)) = length (take (pf_synced g) (pf_content g))"
    and "pf_synced h = pf_synced g"
    by (simp_all only: file_survives_def)
  with crash show ?case by (simp add: sync_bounded_def)
next
  case (failed_open g)
  then show ?case by (blast intro: sync_bounded_open)
qed

lemma page_op_sync_bounded:
  assumes "page_op C y y'" "sync_bounded (ps_file (sys_store y))"
  shows "sync_bounded (ps_file (sys_store y'))"
  using assms(1)
proof (cases rule: page_op.cases)
  case (append_page seek_ok fault kind c n payload i s')
  with assms(2) page_append_Inr [OF append_page(2)] show ?thesis by (cases s') auto
next
  case (append_fails seek_ok fault kind c n payload e s')
  with assms(2) page_append_Inl [OF append_fails(2)] show ?thesis by auto
next
  case (read_page io i res s')
  with assms(2) page_read_store [of C io "sys_store y" i] show ?thesis by auto
next
  case (sync_pages sync_ok res s')
  with assms(2) show ?thesis by (auto simp: page_sync_data_def split: if_splits)
qed (use assms(2) in \<open>auto simp: finalize_tail_def sync_bounded_drop intro: sync_bounded_rollback_tail\<close>)

lemma page_reachable_sync_bounded: "page_reachable C y \<Longrightarrow> sync_bounded (ps_file (sys_store y))"
proof (induction rule: page_reachable.induct)
  case (created generation s)
  then show ?case by (auto simp: create_generation_def sync_bounded_def)
next
  case (step y y')
  from step(2) show ?case
  proof (cases rule: page_step.cases)
    case op
    with step(3) show ?thesis by (blast intro: page_op_sync_bounded)
  next
    case (reopen f a b c d generation s' n f')
    with step(3) sync_bounded_open [OF reopen(4)] sync_bounded_disk [OF reopen(2)] open_repair_store [OF reopen(4,3)]
    show ?thesis by simp
  qed
qed

text \<open>The stores that successful appends to a tail lead to.\<close>

inductive tail_appends :: "crypto \<Rightarrow> page_store \<Rightarrow> page_store \<Rightarrow> bool" for C s where
  none: "tail_appends C s s"
| more: "tail_appends C s t \<Longrightarrow> page_append C seek_ok fault t kind c n payload = (Inr i, t') \<Longrightarrow> tail_appends C s t'"

lemma tail_appends_extends:
  assumes "tail_appends C s t" "\<not> ps_poisoned s"
  shows "\<exists>bs. t = s\<lparr>ps_file := write_end bs (ps_file s), ps_next_page_id := ps_next_page_id t\<rparr>
    \<and> unat (ps_next_page_id s) \<le> unat (ps_next_page_id t) \<and> (t \<noteq> s \<longrightarrow> unat (ps_next_page_id s) < unat (ps_next_page_id t))"
  using assms(1)
proof (induction rule: tail_appends.induct)
  case none
  show ?case by (rule exI [of _ "[]"]) simp
next
  case (more t seek_ok fault kind c n payload i t')
  obtain bs where t: "t = s\<lparr>ps_file := write_end bs (ps_file s), ps_next_page_id := ps_next_page_id t\<rparr>"
    and le: "unat (ps_next_page_id s) \<le> unat (ps_next_page_id t)" using more.IH by blast
  let ?e = "page_encode C (appended t kind c n payload)"
  have t': "t' = t\<lparr>ps_file := write_end ?e (ps_file t), ps_next_page_id := ps_next_page_id t'\<rparr>"
    and n': "unat (ps_next_page_id t') = unat (ps_next_page_id t) + 1"
    using page_append_Inr [OF more(2)] by (auto simp: checked_add_Some)
  have "ps_file t = write_end bs (ps_file s)" by (subst t) simp
  then have "t' = s\<lparr>ps_file := write_end (bs @ ?e) (ps_file s), ps_next_page_id := ps_next_page_id t'\<rparr>"
    by (subst t', subst t) (simp add: write_end_def)
  with le n' show ?case by (intro exI [of _ "bs @ ?e"]) simp
qed

text \<open>C7. Discarding an unpublished tail undoes it: after any number of appends through the
  capability, a rollback whose truncation succeeds reports success and leaves the store exactly as
  it was when the tail was begun: the same file, the same boundary, not poisoned.\<close>

theorem rollback_undoes_tail:
  assumes reach: "page_reachable C y" and begun: "begin_unpublished_tail (sys_store y) = Inr r"
    and run: "tail_appends C (sys_store y) t" and small: "length (pf_content (ps_file (sys_store y))) < 2 ^ 64"
  shows "rollback_tail True set_len_ok t r = (Inr (), sys_store y)"
proof -
  let ?s = "sys_store y"
  have r: "r = page_count ?s" "\<not> ps_poisoned ?s" using begun by (auto simp: begin_unpublished_tail_def split: if_splits)
  obtain bs where t: "t = ?s\<lparr>ps_file := write_end bs (ps_file ?s), ps_next_page_id := ps_next_page_id t\<rparr>"
    and grows: "t \<noteq> ?s \<longrightarrow> unat (ps_next_page_id ?s) < unat (ps_next_page_id t)"
    using tail_appends_extends [OF run r(2)] by blast
  show ?thesis
  proof (cases "t = ?s")
    case True
    with r show ?thesis by (simp add: rollback_tail_def rollback_unpublished_tail_def drop_tail_def)
  next
    case False
    have inv: "store_inv C ?s (sys_pages y)" using page_reachable_inv [OF reach] by (simp add: page_system_inv_def store_ok_def)
    then have next0: "0 < unat (ps_next_page_id ?s)" and len: "length (pf_content (ps_file ?s)) = unat r * 16384"
      using r unat_page_count [OF inv] by (auto simp: store_inv_def Let_def unat_gt_0)
    have less: "r < page_count t"
      using grows False next0 unat_page_count [OF inv] r(1) unat_sub_small [of 1 "ps_next_page_id t"]
      by (simp add: page_count_def word_less_nat_alt Suc_le_eq)
    have mul: "checked_mul r 16384 = Some (r * 16384)" using small len by (simp add: checked_mul_def)
    then have bytes: "unat (r * 16384) = unat r * 16384" by (simp add: checked_mul_eq_Some)
    have "checked_add r 1 = Some (ps_next_page_id ?s)"
      using next0 unat_page_count [OF inv] r(1) unat_u64_less [of "ps_next_page_id ?s"]
      by (simp add: checked_add_def page_count_def)
    moreover have "set_len (unat r * 16384) (write_end bs (ps_file ?s)) = ps_file ?s"
      using page_reachable_sync_bounded [OF reach] len
      by (cases "ps_file ?s") (simp add: set_len_def write_end_def sync_bounded_def min_absorb2)
    moreover have "ps_file t = write_end bs (ps_file ?s)" "\<not> ps_poisoned t" by (subst t, simp, subst t, simp add: r)
    moreover have "t\<lparr>ps_poisoned := True, ps_file := ps_file ?s, ps_next_page_id := ps_next_page_id ?s, ps_poisoned := False\<rparr> = ?s"
      by (subst t) (use r(2) in \<open>cases ?s, simp\<close>)
    moreover have "\<not> page_count t < r" "r \<noteq> page_count t" using less by auto
    ultimately show ?thesis
      using mul bytes by (simp add: rollback_tail_def rollback_unpublished_tail_def drop_tail_def Let_def)
  qed
qed

theorem rollback_undoes_tail_witness:
  "\<exists>t. tail_appends sum_crypto one_page_store t \<and> t \<noteq> one_page_store
    \<and> rollback_tail True False t 1 = (Inr (), one_page_store)"
proof -
  let ?p = "appended one_page_store BTreeLeaf None (Some FIRST) [1, 2]"
  define t where "t = one_page_store\<lparr>ps_file := write_end (page_encode sum_crypto ?p) (ps_file one_page_store), ps_next_page_id := 3\<rparr>"
  have "page_append sum_crypto True None one_page_store BTreeLeaf None (Some FIRST) [1, 2] = (Inr (nz 2), t)"
    by (subst page_append_succeeds) (simp_all add: t_def one_page_stores checked_add_def)
  then have run: "tail_appends sum_crypto one_page_store t" by (rule more [OF none])
  have "t \<noteq> one_page_store" by (auto simp: t_def one_page_stores)
  moreover have "rollback_tail True False t 1 = (Inr (), one_page_store)"
    using rollback_undoes_tail [OF one_page_reachable, of 1 t False] run
    by (simp add: one_page_system_def begin_unpublished_tail_def page_count_def one_page_stores)
  ultimately show ?thesis using run by blast
qed

end
