(* ===== verification/BufferPool.thy ===== *)
theory BufferPool
  imports PageFile
begin

text \<open>
  The buffer pool over a page file that is being appended to, rolled back and read by many threads:
  the cached frames agree with the file at every moment, the capacity is never exceeded, and only
  frames that nobody holds are evicted.
\<close>

section \<open>Frames of a pool\<close>

type_synonym frames = "(page_key \<times> page_frame) list"

definition partition_ok :: "(page_key \<Rightarrow> page \<Rightarrow> bool) \<Rightarrow> pool_partition \<Rightarrow> bool" where
  "partition_ok P part =
     (distinct (map fst (pp_frames part)) \<and> length (pp_frames part) \<le> pp_capacity part \<and> 0 < pp_capacity part
      \<and> (\<forall>k f. (k, f) \<in> set (pp_frames part) \<longrightarrow> P k (fr_page f)))"

text \<open>Every partition is within its capacity, and every cached page is one that \<open>P\<close> allows for its key.\<close>

definition pool_ok :: "(page_key \<Rightarrow> page \<Rightarrow> bool) \<Rightarrow> buffer_pool \<Rightarrow> bool" where
  "pool_ok P pool = (bp_partitions pool \<noteq> [] \<and> list_all (partition_ok P) (bp_partitions pool))"

definition pool_capacities :: "buffer_pool \<Rightarrow> nat list" where
  "pool_capacities pool = map pp_capacity (bp_partitions pool)"

lemma partition_index_less: "bp_partitions pool \<noteq> [] \<Longrightarrow> partition_index pool key < length (bp_partitions pool)"
  by (simp add: partition_index_def Let_def)

lemma pool_ok_partition: "pool_ok P pool \<Longrightarrow> partition_ok P (bp_partitions pool ! partition_index pool key)"
  by (simp add: pool_ok_def partition_index_less list_all_length)

lemma pool_ok_set_frames:
  assumes "pool_ok P pool" "partition_ok P ((bp_partitions pool ! index)\<lparr>pp_frames := frames\<rparr>)"
  shows "pool_ok P (set_frames index frames pool)"
  using assms by (auto simp: pool_ok_def set_frames_def list_all_iff dest!: set_update_subset_insert [THEN subsetD])

lemma pool_ok_clock [simp]: "pool_ok P (pool\<lparr>bp_clock := t\<rparr>) = pool_ok P pool"
  by (simp add: pool_ok_def)

lemma capacities_set_frames [simp]: "pool_capacities (set_frames index frames pool) = pool_capacities pool"
proof (rule nth_equalityI)
  show "pool_capacities (set_frames index frames pool) ! i = pool_capacities pool ! i"
    if "i < length (pool_capacities (set_frames index frames pool))" for i
    using that by (cases "index = i") (simp_all add: pool_capacities_def set_frames_def)
qed (simp add: pool_capacities_def set_frames_def)

lemma pool_ok_mono: "pool_ok P pool \<Longrightarrow> (\<And>k p. P k p \<Longrightarrow> Q k p) \<Longrightarrow> pool_ok Q pool"
  unfolding pool_ok_def partition_ok_def list_all_iff by blast

lemma partition_ok_map:
  assumes "partition_ok P part" "\<And>k f. fr_page (g k f) = fr_page f"
  shows "partition_ok P (part\<lparr>pp_frames := map (\<lambda>(k, f). (k, g k f)) (pp_frames part)\<rparr>)"
proof -
  let ?h = "\<lambda>(k, f). (k, g k f)"
  have "map fst (map ?h xs) = map fst xs" for xs :: frames by (induction xs) auto
  then have "distinct (map fst (map ?h (pp_frames part)))" using assms(1) by (simp only: partition_ok_def)
  with assms show ?thesis by (auto simp: partition_ok_def simp del: map_map)
qed

lemma partition_ok_touch: "partition_ok P part \<Longrightarrow> partition_ok P (part\<lparr>pp_frames := touch_frame key stamp (pp_frames part)\<rparr>)"
  unfolding touch_frame_def by (rule partition_ok_map) simp_all

lemma pool_ok_release: "pool_ok P pool \<Longrightarrow> pool_ok P (release_frame key pool)"
  unfolding release_frame_def Let_def
  by (intro pool_ok_set_frames partition_ok_map pool_ok_partition) simp_all

lemma partition_ok_get: "partition_ok P part \<Longrightarrow> map_of (pp_frames part) key = Some f \<Longrightarrow> P key (fr_page f)"
  unfolding partition_ok_def by (blast dest: map_of_SomeD)

lemma pool_lookup_ok:
  assumes "pool_ok P pool" "pool_lookup pool key stamp = (res, pool')"
  shows "pool_ok P pool' \<and> pool_capacities pool' = pool_capacities pool \<and> (\<forall>p. res = Inr (Some p) \<longrightarrow> P key p)"
  using assms pool_ok_partition [OF assms(1), of key]
  by (auto simp: pool_lookup_def Let_def partition_ok_get split: if_splits option.splits
      intro: pool_ok_set_frames partition_ok_touch)

section \<open>Eviction\<close>

definition unpinned :: "frames \<Rightarrow> frames" where
  "unpinned frames = filter (\<lambda>(_, f). fr_handles f = 0) frames"

lemma foldl_least:
  "foldl (\<lambda>best x. if h x < h best then x else best) b xs \<in> set (b # xs)
    \<and> (\<forall>x \<in> set (b # xs). h (foldl (\<lambda>best x. if h x < h best then x else best) b xs) \<le> (h x :: 'k :: linorder))"
proof (induction xs arbitrary: b)
  case (Cons y ys)
  show ?case
    using Cons.IH [of y] Cons.IH [of b] by (cases "h y < h b") (auto intro: less_imp_le order_trans)
qed simp

lemma min_by_last_used_least:
  assumes "min_by_last_used frames = Some victim"
  shows "\<exists>f. (victim, f) \<in> set frames \<and> (\<forall>(k, g) \<in> set frames. fr_last_used f \<le> fr_last_used g)"
proof (cases frames rule: min_by_last_used.cases)
  case (2 k f rest)
  let ?x = "foldl (\<lambda>best x. if fr_last_used (snd x) < fr_last_used (snd best) then x else best) (k, f) rest"
  have "?x \<in> set frames" "\<forall>x \<in> set frames. fr_last_used (snd ?x) \<le> fr_last_used (snd x)"
    using foldl_least [of "\<lambda>x. fr_last_used (snd x)" "(k, f)" rest] by (simp_all add: 2)
  moreover have "victim = fst ?x" using assms by (simp add: 2)
  ultimately show ?thesis by (intro exI [of _ "snd ?x"]) auto
qed (use assms in simp)

lemma min_by_last_used_None: "(min_by_last_used frames = None) = (frames = [])"
  by (cases frames rule: min_by_last_used.cases) simp_all

lemma pool_insert_ok:
  assumes ok: "pool_ok P pool" and p: "P key p" and iter: "\<And>xs. set (iter xs) = set xs"
    and ins: "pool_insert iter pool key stamp p = (res, pool')"
  shows "pool_ok P pool' \<and> pool_capacities pool' = pool_capacities pool \<and> (\<forall>q. res = Inr q \<longrightarrow> P key q)"
proof -
  define part where "part = bp_partitions pool ! partition_index pool key"
  have part: "partition_ok P part" unfolding part_def by (rule pool_ok_partition [OF ok])
  let ?new = "\<lambda>frames. part\<lparr>pp_frames := (key, \<lparr>fr_page = p, fr_last_used = stamp, fr_handles = 1\<rparr>) # frames\<rparr>"
  have fresh: "key \<notin> fst ` set (pp_frames part)" if "map_of (pp_frames part) key = None"
    using that by (simp add: map_of_eq_None_iff)
  have room: "partition_ok P (?new (pp_frames part))"
    if "map_of (pp_frames part) key = None" "\<not> pp_capacity part \<le> length (pp_frames part)"
    using part p fresh that by (auto simp: partition_ok_def)
  have evict: "partition_ok P (?new (filter (\<lambda>(k, _). k \<noteq> victim) (pp_frames part)))"
    if "map_of (pp_frames part) key = None" and v: "min_by_last_used (unpinned (iter (pp_frames part))) = Some victim"
    for victim
  proof -
    obtain f where "(victim, f) \<in> set (pp_frames part)"
      using min_by_last_used_least [OF v] iter by (auto simp: unpinned_def)
    then have "length (filter (\<lambda>(k, _). k \<noteq> victim) (pp_frames part)) < length (pp_frames part)"
      by (intro length_filter_less [of "(victim, f)"]) auto
    moreover have "distinct (map fst (filter (\<lambda>(k, _). k \<noteq> victim) (pp_frames part)))"
      using part by (auto simp: partition_ok_def intro: distinct_map_filter)
    ultimately show ?thesis using part p fresh [OF that(1)] by (auto simp: partition_ok_def)
  qed
  show ?thesis
  proof (cases "pp_poisoned part")
    case True
    with ins ok show ?thesis by (auto simp: pool_insert_def Let_def part_def)
  next
    case False
    note ins' = ins [unfolded pool_insert_def Let_def, folded part_def unpinned_def]
    show ?thesis
    proof (cases "map_of (pp_frames part) key")
      case None
      with ins' False ok p room evict show ?thesis
        by (auto split: if_splits option.splits intro: pool_ok_set_frames [OF ok] simp flip: part_def)
    next
      case (Some f)
      with ins' False ok partition_ok_get [OF part Some] partition_ok_touch [OF part, of key stamp] show ?thesis
        by (auto intro: pool_ok_set_frames [OF ok] simp flip: part_def)
    qed
  qed
qed

section \<open>Published pages are immutable\<close>

text \<open>The pages that a shared view of the store can cover: the ones below an open tail.\<close>

definition boundary :: "page_system \<Rightarrow> u64" where
  "boundary y = (case sys_tail y of None \<Rightarrow> page_count (sys_store y) | Some r \<Rightarrow> r)"

definition covers :: "u64 \<Rightarrow> page_store \<Rightarrow> bool" where
  "covers r s = (r \<le> page_count s \<and> unat r * 16384 \<le> length (pf_content (ps_file s)))"

definition keeps :: "u64 \<Rightarrow> page_store \<Rightarrow> page_store \<Rightarrow> bool" where
  "keeps r s s' = (covers r s' \<and> ps_generation s' = ps_generation s
     \<and> take (unat r * 16384) (pf_content (ps_file s')) = take (unat r * 16384) (pf_content (ps_file s)))"

definition tail_bounded :: "page_system \<Rightarrow> bool" where
  "tail_bounded y = (boundary y \<le> page_count (sys_store y))"

lemma keeps_refl: "covers r s \<Longrightarrow> keeps r s s"
  by (simp add: keeps_def)

lemma keeps_trans: "keeps r s t \<Longrightarrow> keeps r t u \<Longrightarrow> keeps r s u"
  by (simp add: keeps_def)

lemma store_inv_covers:
  assumes "store_inv C s M" "r \<le> page_count s" shows "covers r s"
proof -
  have "unat r \<le> unat (ps_next_page_id s) - 1" using assms(2) unat_page_count [OF assms(1)] by (simp add: word_le_nat_alt)
  then have "unat r * 16384 \<le> (unat (ps_next_page_id s) - 1) * 16384" by (rule mult_right_mono) simp
  moreover have "(unat (ps_next_page_id s) - 1) * 16384 \<le> length (pf_content (ps_file s))"
    using assms(1) by (simp add: store_inv_def Let_def)
  ultimately show ?thesis using assms(2) by (simp add: covers_def)
qed

lemma keeps_append:
  assumes "store_inv C s M" "page_append C seek_ok fault s kind c n payload = (res, s')" "r \<le> page_count s"
  shows "keeps r s s' \<and> page_count s \<le> page_count s'"
proof (cases res)
  case (Inl e)
  with page_append_Inl [of C seek_ok fault s kind c n payload e s'] assms store_inv_covers [OF assms(1,3)]
  show ?thesis by (auto simp: keeps_def covers_def write_end_def page_count_def)
next
  case (Inr i)
  with assms(2) have app: "page_append C seek_ok fault s kind c n payload = (Inr i, s')" by simp
  have n': "unat (ps_next_page_id s') = unat (ps_next_page_id s) + 1"
    and s': "s' = s\<lparr>ps_file := write_end (page_encode C (appended s kind c n payload)) (ps_file s),
        ps_next_page_id := ps_next_page_id s'\<rparr>"
    using page_append_Inr [OF app] by (auto simp: checked_add_Some)
  have inv': "store_inv C s' (M(i \<mapsto> appended s kind c n payload))" using store_inv_append [OF assms(1) app] by simp
  have le: "page_count s \<le> page_count s'"
    using n' by (simp add: word_le_nat_alt unat_page_count [OF assms(1)] unat_page_count [OF inv'])
  have "ps_generation s' = ps_generation s" "pf_content (ps_file s') = pf_content (ps_file s) @ page_encode C (appended s kind c n payload)"
    by (subst s', simp add: write_end_def)+
  with le assms(3) store_inv_covers [OF assms(1,3)] show ?thesis by (auto simp: keeps_def covers_def)
qed

lemma keeps_rollback:
  assumes "covers r s" "rollback_unpublished_tail set_len_ok s r = (res, s')"
  shows "keeps r s s'"
  using assms(2)
proof (cases rule: rollback_cases)
  case (3 n)
  have "n - 1 = r" using 3(5) by (simp add: word_unat_eq_iff unat_sub_small)
  with 3 assms(1) show ?thesis by (simp add: keeps_def covers_def set_len_def page_count_def)
qed (use assms(1) in \<open>simp_all add: keeps_def covers_def page_count_def\<close>)

lemma keeps_drop: assumes "covers r s" shows "keeps r s (drop_tail set_len_ok s r finalized)"
  using assms keeps_rollback [OF assms, of set_len_ok "fst (rollback_unpublished_tail set_len_ok s r)"]
  by (simp add: drop_tail_def keeps_refl)

lemma keeps_rollback_tail:
  assumes "covers r s" "rollback_tail set_len_ok set_len_ok' s r = (res, s')"
  shows "keeps r s s'"
proof -
  obtain res1 s1 where roll: "rollback_unpublished_tail set_len_ok s r = (res1, s1)" by force
  have s1: "keeps r s s1" by (rule keeps_rollback [OF assms(1) roll])
  then have "keeps r s (drop_tail set_len_ok' s1 r b)" for b
    by (intro keeps_trans [OF s1] keeps_drop) (simp add: keeps_def)
  with assms(2) roll show ?thesis by (auto simp: rollback_tail_def split: sum.splits)
qed

text \<open>No operation of an open store changes a published page or takes it back.\<close>

lemma page_op_keeps:
  assumes "page_op C y y'" "page_system_inv C y" "tail_bounded y"
  shows "keeps (boundary y) (sys_store y) (sys_store y') \<and> boundary y \<le> boundary y' \<and> tail_bounded y'"
proof -
  have inv: "store_inv C (sys_store y) (sys_pages y)" using assms(2) by (simp add: page_system_inv_def store_ok_def)
  have le: "boundary y \<le> page_count (sys_store y)" using assms(3) by (simp add: tail_bounded_def)
  have cov: "covers (boundary y) (sys_store y)" by (rule store_inv_covers [OF inv le])
  from assms(1) show ?thesis
  proof (cases rule: page_op.cases)
    case (append_page seek_ok fault kind c n payload i s')
    with keeps_append [OF inv append_page(2) le] le show ?thesis
      by (auto simp: boundary_def tail_bounded_def split: option.splits)
  next
    case (append_fails seek_ok fault kind c n payload e s')
    with keeps_append [OF inv append_fails(2) le] le show ?thesis
      by (auto simp: boundary_def tail_bounded_def split: option.splits)
  next
    case (read_page io i res s')
    with page_read_store [of C io "sys_store y" i] le cov show ?thesis
      by (auto simp: keeps_def covers_def boundary_def tail_bounded_def page_count_def split: option.splits)
  next
    case (sync_pages sync_ok res s')
    with le cov show ?thesis
      by (auto simp: keeps_def covers_def boundary_def tail_bounded_def page_count_def page_sync_data_def sync_file_def split: if_splits)
  next
    case (begin_tail r)
    with le cov show ?thesis
      by (auto simp: keeps_def covers_def boundary_def tail_bounded_def begin_unpublished_tail_def split: if_splits)
  next
    case (finalize_tail r set_len_ok)
    with le cov show ?thesis by (simp add: keeps_def covers_def boundary_def tail_bounded_def finalize_tail_def drop_tail_def)
  next
    case (rollback_tail r set_len_ok set_len_ok' res s')
    with keeps_rollback_tail [OF _ rollback_tail(3)] le cov show ?thesis
      by (auto simp: boundary_def tail_bounded_def keeps_def covers_def)
  next
    case (drop_tail r set_len_ok)
    with keeps_drop [of r "sys_store y" set_len_ok False] le cov show ?thesis
      by (auto simp: boundary_def tail_bounded_def keeps_def covers_def)
  qed
qed

section \<open>The pool beside the page file\<close>

text \<open>
  The page file with its pool, the shared views of the store that are around (read handles and
  shared borrows, which exist only while no tail is open when they are taken), and the pages that
  threads have read from the file but not yet inserted. The look-up, the read and the insertion of
  one \<^verbatim>\<open>get_or_load\<close> are separate steps, so that loads of several threads and the operations of the
  writer interleave freely.
\<close>

record pool_system =
  px_pages :: page_system
  px_pool :: buffer_pool
  px_views :: "page_store set"
  px_loads :: "(page_key \<times> u64 \<times> page) set"

text \<open>A view reads the file as it is now, within the boundary it captured.\<close>

definition current :: "pool_system \<Rightarrow> page_store \<Rightarrow> page_store" where
  "current z v = v\<lparr>ps_file := ps_file (sys_store (px_pages z))\<rparr>"

inductive pool_step :: "crypto \<Rightarrow> pool_system \<Rightarrow> pool_system \<Rightarrow> bool" for C where
  writer: "page_op C (px_pages z) y \<Longrightarrow> pool_step C z (z\<lparr>px_pages := y\<rparr>)"
| view: "sys_tail (px_pages z) = None \<Longrightarrow> read_handle True (sys_store (px_pages z)) = Inr v
    \<Longrightarrow> pool_step C z (z\<lparr>px_views := insert v (px_views z)\<rparr>)"
| look_up: "v \<in> px_views z
    \<Longrightarrow> pool_lookup ((px_pool z)\<lparr>bp_clock := bp_clock (px_pool z) + 1\<rparr>) (ps_generation v, i) (bp_clock (px_pool z)) = (res, pool')
    \<Longrightarrow> pool_step C z (z\<lparr>px_pool := pool'\<rparr>)"
| load: "v \<in> px_views z \<Longrightarrow> page_read C io (current z v) i = (Inr p, v')
    \<Longrightarrow> pool_step C z (z\<lparr>px_loads := insert ((ps_generation v, i), stamp, p) (px_loads z)\<rparr>)"
| insert: "(key, stamp, p) \<in> px_loads z \<Longrightarrow> (\<And>xs. set (iter xs) = set xs)
    \<Longrightarrow> pool_insert iter (px_pool z) key stamp p = (res, pool') \<Longrightarrow> pool_step C z (z\<lparr>px_pool := pool'\<rparr>)"
| release: "pool_step C z (z\<lparr>px_pool := release_frame key (px_pool z)\<rparr>)"

inductive pool_reachable :: "crypto \<Rightarrow> nat \<Rightarrow> pool_system \<Rightarrow> bool" for C capacity where
  start: "page_reachable C y \<Longrightarrow> sys_tail y = None \<Longrightarrow> buffer_pool_new capacity partition_count = Inr pool
    \<Longrightarrow> pool_reachable C capacity \<lparr>px_pages = y, px_pool = pool, px_views = {}, px_loads = {}\<rparr>"
| step: "pool_reachable C capacity z \<Longrightarrow> pool_step C z z' \<Longrightarrow> pool_reachable C capacity z'"

text \<open>What may be cached: a published page, as the file holds it.\<close>

definition cacheable :: "crypto \<Rightarrow> page_system \<Rightarrow> page_key \<Rightarrow> page \<Rightarrow> bool" where
  "cacheable C y key p =
     (fst key = ps_generation (sys_store y) \<and> get (snd key) \<le> boundary y
      \<and> page_at C (pf_content (ps_file (sys_store y))) (snd key) p)"

definition view_ok :: "page_system \<Rightarrow> page_store \<Rightarrow> bool" where
  "view_ok y v = (ps_generation v = ps_generation (sys_store y) \<and> ps_next_page_id v \<noteq> 0 \<and> page_count v \<le> boundary y)"

definition pool_inv :: "crypto \<Rightarrow> pool_system \<Rightarrow> bool" where
  "pool_inv C z =
     (page_system_inv C (px_pages z) \<and> tail_bounded (px_pages z) \<and> pool_ok (cacheable C (px_pages z)) (px_pool z)
      \<and> (\<forall>v \<in> px_views z. view_ok (px_pages z) v)
      \<and> (\<forall>key stamp p. (key, stamp, p) \<in> px_loads z \<longrightarrow> cacheable C (px_pages z) key p))"

lemma page_read_sound:
  assumes "page_read C io s i = (Inr p, s')"
  shows "page_at C (pf_content (ps_file s)) i p \<and> get i < ps_next_page_id s"
proof -
  let ?c = "pf_content (ps_file s)"
  obtain off encoded where lt: "get i < ps_next_page_id s"
    and off: "(case checked_sub (get i) 1 of None \<Rightarrow> None | Some k \<Rightarrow> checked_mul k 16384) = Some (off :: u64)"
    and enc: "read_exact_at PageStoreIo io ?c 16384 (unat off) = Inr encoded"
    and dec: "page_decode C i encoded = Inr p"
    using assms
    by (auto simp: page_read_def page_read_exact_at_def PAGE_SIZE_def result_simps not_le split: if_splits option.splits)
  have "unat (get i - 1) = unat (get i) - 1" using get_pos [of i] by (simp add: unat_sub_small Suc_le_eq)
  with off have "unat off = (unat (get i) - 1) * 16384"
    by (auto simp: checked_mul_eq_Some checked_sub_def split: if_splits)
  then have offs: "unat off = (unat (get i) - 1) * 16384" "unat off + 16384 = unat (get i) * 16384"
    using get_pos [of i] by (cases "unat (get i)"; simp)+
  have "slot i ?c = seg (unat off) (unat off + 16384) ?c"
    by (simp only: slot_def offs(2)) (simp only: offs(1))
  moreover have "encoded = seg (unat off) (unat off + 16384) ?c" "unat off + 16384 \<le> length ?c"
    using read_exact_at_sound [OF enc] by simp_all
  ultimately have "encoded = slot i ?c" "unat (get i) * 16384 \<le> length ?c" by (simp_all only: offs(2))
  with page_encode_decoded [OF dec] lt show ?thesis by (simp add: page_at_def)
qed

lemma cacheable_op:
  assumes "keeps (boundary y) (sys_store y) (sys_store y')" "boundary y \<le> boundary y'" "cacheable C y key p"
  shows "cacheable C y' key p"
proof -
  have "unat (get (snd key)) * 16384 \<le> unat (boundary y) * 16384"
    using assms(3) by (simp add: cacheable_def word_le_nat_alt)
  moreover have "page_at C (pf_content (ps_file (sys_store y))) (snd key) p"
    and key: "fst key = ps_generation (sys_store y)" "get (snd key) \<le> boundary y"
    using assms(3) by (simp_all add: cacheable_def)
  moreover have same: "take (unat (boundary y) * 16384) (pf_content (ps_file (sys_store y)))
      = take (unat (boundary y) * 16384) (pf_content (ps_file (sys_store y')))"
    and gen: "ps_generation (sys_store y') = ps_generation (sys_store y)"
    using assms(1) by (simp_all add: keeps_def)
  ultimately have "page_at C (pf_content (ps_file (sys_store y'))) (snd key) p" by (blast intro: page_at_cong)
  with key gen order_trans [OF key(2) assms(2)] show ?thesis by (simp add: cacheable_def)
qed

lemma view_boundary:
  assumes "view_ok y v" "get i < ps_next_page_id v" shows "get i \<le> boundary y"
proof -
  have "ps_next_page_id v \<noteq> 0" using assms(1) by (simp add: view_ok_def)
  then have "unat (page_count v) = unat (ps_next_page_id v) - 1"
    unfolding page_count_def by (subst unat_sub_small) (simp_all add: Suc_le_eq unat_gt_0)
  moreover have "unat (page_count v) \<le> unat (boundary y)" "unat (get i) < unat (ps_next_page_id v)"
    using assms by (simp_all add: view_ok_def word_le_nat_alt word_less_nat_alt)
  ultimately show ?thesis by (simp add: word_le_nat_alt)
qed

lemma sum_shares: "sum_list (map (\<lambda>i. b + (if i < r then 1 else 0)) [0..<m]) = m * b + min m r"
  by (induction m) auto

lemma pool_new_ok:
  assumes "buffer_pool_new capacity n = Inr pool"
  shows "pool_ok P pool \<and> sum_list (pool_capacities pool) = capacity"
proof -
  have n: "0 < n" "n \<le> capacity" using assms by (auto simp: buffer_pool_new_def split: if_splits)
  have total: "sum_list (map (\<lambda>i. capacity div n + (if i < capacity mod n then 1 else 0)) [0..<n]) = capacity"
    unfolding sum_shares min_absorb2 [OF less_imp_le [OF mod_less_divisor [OF n(1)]]] by simp
  have "0 < capacity div n" using n by (simp add: div_greater_zero_iff)
  moreover have "pool_capacities pool = map (\<lambda>i. capacity div n + (if i < capacity mod n then 1 else 0)) [0..<n]"
    using assms n by (auto simp: buffer_pool_new_def pool_capacities_def Let_def)
  ultimately show ?thesis
    using assms n total
    by (auto simp: buffer_pool_new_def pool_ok_def partition_ok_def list_all_iff Let_def)
qed

lemma page_read_cacheable:
  assumes "pool_inv C z" "v \<in> px_views z" "page_read C io (current z v) i = (Inr p, v')"
  shows "cacheable C (px_pages z) (ps_generation v, i) p"
proof -
  have v: "view_ok (px_pages z) v" using assms(1,2) by (simp add: pool_inv_def)
  have "page_at C (pf_content (ps_file (sys_store (px_pages z)))) i p" "get i < ps_next_page_id v"
    using page_read_sound [OF assms(3)] by (simp_all add: current_def)
  with v view_boundary [OF v] show ?thesis by (simp add: cacheable_def view_ok_def)
qed

lemma pool_inv_writer:
  assumes inv: "pool_inv C z" and op: "page_op C (px_pages z) y" shows "pool_inv C (z\<lparr>px_pages := y\<rparr>)"
proof -
  let ?y = "px_pages z"
  have sys: "page_system_inv C ?y" "tail_bounded ?y" using inv by (simp_all add: pool_inv_def)
  note kept = page_op_keeps [OF op sys]
  have mono: "cacheable C ?y key p \<Longrightarrow> cacheable C y key p" for key p using kept by (blast intro: cacheable_op)
  have "view_ok ?y v \<Longrightarrow> view_ok y v" for v using kept by (auto simp: view_ok_def keeps_def)
  moreover have "pool_ok (cacheable C y) (px_pool z)"
    by (rule pool_ok_mono [of "cacheable C ?y"]) (use inv mono in \<open>simp_all add: pool_inv_def\<close>)
  moreover have "page_system_inv C y" by (rule page_op_inv [OF op sys(1)])
  ultimately show ?thesis
    using inv kept mono by (simp add: pool_inv_def)
qed

lemma pool_step_inv:
  assumes "pool_step C z z'" "pool_inv C z"
  shows "pool_inv C z' \<and> pool_capacities (px_pool z') = pool_capacities (px_pool z)"
  using assms
proof (induction rule: pool_step.induct)
  case (writer z y)
  then show ?case by (simp add: pool_inv_writer)
next
  case (view z v)
  have inv: "store_inv C (sys_store (px_pages z)) (sys_pages (px_pages z))"
    using view(3) by (simp add: pool_inv_def page_system_inv_def store_ok_def)
  have "view_ok (px_pages z) v"
    using view(1,2) inv by (auto simp: view_ok_def read_handle_def boundary_def page_count_def store_inv_def Let_def)
  with view(3) show ?case by (simp add: pool_inv_def)
next
  case (look_up v z i res pool')
  then have "pool_ok (cacheable C (px_pages z)) ((px_pool z)\<lparr>bp_clock := bp_clock (px_pool z) + 1\<rparr>)" by (simp add: pool_inv_def)
  from pool_lookup_ok [OF this look_up(2)] look_up(3) show ?case by (simp add: pool_inv_def pool_capacities_def)
next
  case (load v z io i p v' stamp)
  from page_read_cacheable [OF load(3,1,2)] load(3) show ?case unfolding pool_inv_def by auto
next
  case (insert key stamp p z iter res pool')
  then have "pool_ok (cacheable C (px_pages z)) (px_pool z)" "cacheable C (px_pages z) key p"
    unfolding pool_inv_def by blast+
  from pool_insert_ok [OF this insert(2,3)] insert(4) show ?case by (simp add: pool_inv_def)
next
  case (release z key)
  then show ?case by (simp add: pool_inv_def pool_ok_release) (simp add: release_frame_def Let_def)
qed

lemma pool_reachable_inv:
  "pool_reachable C capacity z \<Longrightarrow> pool_inv C z \<and> sum_list (pool_capacities (px_pool z)) = capacity"
proof (induction rule: pool_reachable.induct)
  case (start y partition_count pool)
  then show ?case
    using pool_new_ok [OF start(3)] page_reachable_inv [OF start(1)]
    by (simp add: pool_inv_def tail_bounded_def boundary_def)
next
  case (step z z')
  then show ?case using pool_step_inv [OF step(2)] by simp
qed

lemma cacheable_read:
  assumes inv: "pool_inv C z" and p: "cacheable C (px_pages z) (g, i) p"
    and "length (pf_content (ps_file (sys_store (px_pages z)))) < 2 ^ 64" "\<forall>k. io k \<noteq> None"
  shows "fst (page_read C io (sys_store (px_pages z)) i) = Inr p"
proof -
  let ?s = "sys_store (px_pages z)"
  have sinv: "store_inv C ?s (sys_pages (px_pages z))" using inv by (simp add: pool_inv_def page_system_inv_def store_ok_def)
  have "unat (get i) \<le> unat (page_count ?s)"
    using inv p by (auto simp: pool_inv_def tail_bounded_def cacheable_def word_le_nat_alt)
  moreover have "0 < unat (ps_next_page_id ?s)" using sinv by (simp add: store_inv_def Let_def unat_gt_0)
  ultimately have "get i < ps_next_page_id ?s" using unat_page_count [OF sinv] by (simp add: word_less_nat_alt)
  then show ?thesis using page_read_at [of C ?s i p io] assms by (simp add: cacheable_def)
qed

lemma get_or_load_cacheable:
  assumes inv: "pool_inv C z" and v: "v \<in> px_views z" and iter: "\<And>xs. set (iter xs) = set xs"
    and load: "get_or_load C io iter (px_pool z) (current z v) i = (Inr p, pool', v')"
  shows "cacheable C (px_pages z) (ps_generation v, i) p"
proof -
  let ?key = "(ps_generation v, i)" and ?pool = "(px_pool z)\<lparr>bp_clock := bp_clock (px_pool z) + 1\<rparr>"
  have gen: "ps_generation (current z v) = ps_generation v" by (simp add: current_def)
  have ok: "pool_ok (cacheable C (px_pages z)) ?pool" using inv by (simp add: pool_inv_def)
  obtain res pool1 where look: "pool_lookup ?pool ?key (bp_clock (px_pool z)) = (res, pool1)" by force
  note lk = pool_lookup_ok [OF ok look]
  show ?thesis
  proof (cases "res = Inr None")
    case False
    with load look lk show ?thesis
      by (auto simp: get_or_load_def Let_def gen split: sum.splits option.splits)
  next
    case True
    with load look obtain q v1 where rd: "page_read C io (current z v) i = (Inr q, v1)"
      and ins: "pool_insert iter pool1 ?key (bp_clock (px_pool z)) q = (Inr p, pool')"
      by (auto simp: get_or_load_def Let_def gen split: sum.splits prod.splits)
    from page_read_cacheable [OF inv v rd] have "cacheable C (px_pages z) ?key q" .
    from pool_insert_ok [OF conjunct1 [OF lk] this iter ins] show ?thesis by blast
  qed
qed

section \<open>Properties of the pool\<close>

text \<open>C6. The pool is coherent with the page file: whatever the writer appends, rolls back and
  finalizes meanwhile, and however the loads of other threads interleave, a page that \<^verbatim>\<open>get_or_load\<close>
  returns, from the cache or from the file, is the page that reading the store returns now. A page
  identity that is reused after a rollback never yields stale cached bytes.\<close>

theorem buffer_pool_coherent:
  assumes "pool_reachable C capacity z" "v \<in> px_views z" "\<forall>xs. set (iter xs) = set xs"
    and "get_or_load C io iter (px_pool z) (current z v) i = (Inr p, pool', v')"
    and "length (pf_content (ps_file (sys_store (px_pages z)))) < 2 ^ 64" "\<forall>k. io' k \<noteq> None"
  shows "fst (page_read C io' (sys_store (px_pages z)) i) = Inr p"
proof -
  have inv: "pool_inv C z" using pool_reachable_inv [OF assms(1)] by simp
  from get_or_load_cacheable [OF inv assms(2) _ assms(4)] assms(3)
  have "cacheable C (px_pages z) (ps_generation v, i) p" by simp
  from cacheable_read [OF inv this assms(5,6)] show ?thesis .
qed

text \<open>The pool never holds more frames than the capacity it was built with, in any interleaving
  of loads, releases and writes, and never two frames for one page in a partition.\<close>

theorem buffer_pool_bounded:
  assumes "pool_reachable C capacity z"
  shows "sum_list (map (\<lambda>part. length (pp_frames part)) (bp_partitions (px_pool z))) \<le> capacity
    \<and> list_all (\<lambda>part. distinct (map fst (pp_frames part))) (bp_partitions (px_pool z))"
proof -
  have ok: "pool_ok (cacheable C (px_pages z)) (px_pool z)" and cap: "sum_list (pool_capacities (px_pool z)) = capacity"
    using pool_reachable_inv [OF assms] by (simp_all add: pool_inv_def)
  have "sum_list (map (\<lambda>part. length (pp_frames part)) (bp_partitions (px_pool z))) \<le> sum_list (pool_capacities (px_pool z))"
    unfolding pool_capacities_def by (rule sum_list_mono) (use ok in \<open>auto simp: pool_ok_def partition_ok_def list_all_iff\<close>)
  with ok cap show ?thesis by (auto simp: pool_ok_def partition_ok_def list_all_iff)
qed

lemma pool_insert_frames:
  assumes ins: "pool_insert iter pool key stamp p = (Inr q, pool')" and ne: "bp_partitions pool \<noteq> []"
    and part: "part = bp_partitions pool ! partition_index pool key"
  obtains (kept) "fst ` set (pp_frames part) \<subseteq> fst ` set (pp_frames (bp_partitions pool' ! partition_index pool key))"
  | (evicted) victim where "pp_capacity part \<le> length (pp_frames part)"
    "min_by_last_used (unpinned (iter (pp_frames part))) = Some victim"
    "fst ` set (pp_frames part) - {victim} \<subseteq> fst ` set (pp_frames (bp_partitions pool' ! partition_index pool key))"
proof -
  have idx: "partition_index pool key < length (bp_partitions pool)" by (rule partition_index_less [OF ne])
  have touch: "fst ` set (touch_frame key stamp fs) = fst ` set fs" for fs unfolding touch_frame_def by force
  note ins' = ins [unfolded pool_insert_def Let_def, folded part unpinned_def]
  have np: "\<not> pp_poisoned part" using ins' by auto
  show thesis
  proof (cases "map_of (pp_frames part) key")
    case (Some f)
    with ins' np have "pool' = set_frames (partition_index pool key) (touch_frame key stamp (pp_frames part)) pool" by simp
    with idx show thesis by (intro kept) (simp add: set_frames_def touch)
  next
    case None
    show thesis
    proof (cases "pp_capacity part \<le> length (pp_frames part)")
      case True
      with ins' np None obtain victim where v: "min_by_last_used (unpinned (iter (pp_frames part))) = Some victim"
        by (auto split: option.splits)
      with ins' np None True idx show thesis by (intro evicted [OF True v]) (force simp: set_frames_def)
    next
      case False
      with ins' np None idx show thesis by (intro kept) (auto simp: set_frames_def)
    qed
  qed
qed

lemma evicted_frame:
  assumes "pool_ok P pool" "\<forall>xs. set (iter xs) = set xs"
    and ins: "pool_insert iter pool key stamp p = (Inr q, pool')"
    and part: "part = bp_partitions pool ! partition_index pool key"
    and f: "(k, f) \<in> set (pp_frames part)"
    and gone: "k \<notin> fst ` set (pp_frames (bp_partitions pool' ! partition_index pool key))"
  shows "pp_capacity part \<le> length (pp_frames part) \<and> fr_handles f = 0
    \<and> (\<forall>k' g. (k', g) \<in> set (pp_frames part) \<longrightarrow> fr_handles g = 0 \<longrightarrow> fr_last_used f \<le> fr_last_used g)"
proof -
  have ne: "bp_partitions pool \<noteq> []" using assms(1) by (simp add: pool_ok_def)
  have dist: "distinct (map fst (pp_frames part))"
    using pool_ok_partition [OF assms(1), of key] by (simp add: partition_ok_def part)
  have stays: "k \<in> fst ` set (pp_frames part)" using f by force
  from ins ne part have "pp_capacity part \<le> length (pp_frames part)
    \<and> min_by_last_used (unpinned (iter (pp_frames part))) = Some k"
    by (cases rule: pool_insert_frames) (use gone stays in blast)+
  then have full: "pp_capacity part \<le> length (pp_frames part)"
    and v: "min_by_last_used (unpinned (iter (pp_frames part))) = Some k" by simp_all
  then obtain h where h: "(k, h) \<in> set (unpinned (iter (pp_frames part)))"
    "\<forall>(k', g) \<in> set (unpinned (iter (pp_frames part))). fr_last_used h \<le> fr_last_used g"
    using min_by_last_used_least [OF v] by blast
  then have "(k, h) \<in> set (pp_frames part)" "fr_handles h = 0" using assms(2) by (auto simp: unpinned_def)
  with dist f have "h = f" "fr_handles f = 0" by (metis eq_key_imp_eq_value)+
  with h(2) full assms(2) show ?thesis by (auto simp: unpinned_def)
qed

text \<open>C34. Eviction: a load drops a frame only when its partition is full, only a frame that no client
  holds, and among those one that was used least recently.\<close>

theorem buffer_pool_evicts_lru:
  assumes "pool_reachable C capacity z" "\<forall>xs. set (iter xs) = set xs"
    and "pool_insert iter (px_pool z) key stamp p = (Inr q, pool')"
    and "part = bp_partitions (px_pool z) ! partition_index (px_pool z) key"
    and "(k, f) \<in> set (pp_frames part)"
    and "k \<notin> fst ` set (pp_frames (bp_partitions pool' ! partition_index (px_pool z) key))"
  shows "pp_capacity part \<le> length (pp_frames part) \<and> fr_handles f = 0
    \<and> (\<forall>k' g. (k', g) \<in> set (pp_frames part) \<longrightarrow> fr_handles g = 0 \<longrightarrow> fr_last_used f \<le> fr_last_used g)"
proof -
  have "pool_ok (cacheable C (px_pages z)) (px_pool z)"
    using pool_reachable_inv [OF assms(1)] by (simp add: pool_inv_def)
  from evicted_frame [OF this assms(2-6)] show ?thesis .
qed

section \<open>A pool with one frame\<close>

text \<open>A view of the empty store, a page, a view that covers it, and the page loaded through that view.\<close>

definition one_frame_pool :: "nat \<Rightarrow> buffer_pool" where
  "one_frame_pool handles = \<lparr>bp_partitions = [\<lparr>pp_capacity = 1,
     pp_frames = [((FIRST, FIRST), \<lparr>fr_page = one_page, fr_last_used = 1, fr_handles = handles\<rparr>)], pp_poisoned = False\<rparr>],
     bp_clock = 1\<rparr>"

definition one_frame :: "nat \<Rightarrow> pool_system" where
  "one_frame handles = \<lparr>px_pages = written_system, px_pool = one_frame_pool handles,
     px_views = {written_store, empty_store}, px_loads = {((FIRST, FIRST), 1, one_page)}\<rparr>"

lemma written_store_read:
  "page_read sum_crypto (\<lambda>_. Some 5) written_store FIRST = (Inr one_page, written_store\<lparr>ps_physical_reads := 1\<rparr>)"
proof -
  have "page_system_inv sum_crypto written_system"
    using page_reachable_inv [OF page_reachable.step [OF empty_reachable op [OF write_one_page]]] .
  then have "store_inv sum_crypto written_store [FIRST \<mapsto> one_page]" by (simp add: page_system_inv_def store_ok_def)
  from store_inv_read [OF this, of FIRST one_page "\<lambda>_. Some 5"] show ?thesis by (simp add: written_store_def)
qed

lemma one_frame_reachable: "pool_reachable sum_crypto 1 (one_frame 1)" "pool_reachable sum_crypto 1 (one_frame 0)"
proof -
  let ?pool = "\<lparr>bp_partitions = [\<lparr>pp_capacity = 1, pp_frames = [], pp_poisoned = False\<rparr>], bp_clock = 1\<rparr>"
  let ?z = "\<lambda>y views loads. \<lparr>px_pages = y, px_pool = ?pool, px_views = views, px_loads = loads\<rparr>"
  have "buffer_pool_new 1 1 = Inr ?pool" by (simp add: buffer_pool_new_def)
  then have z0: "pool_reachable sum_crypto 1 (?z empty_system {} {})" by (intro start empty_reachable) simp_all
  have "pool_step sum_crypto (?z empty_system {} {}) (?z empty_system {empty_store} {})"
    using view [of "?z empty_system {} {}" empty_store] by (simp add: read_handle_def empty_store_def)
  note z1 = pool_reachable.step [OF z0 this]
  have "pool_step sum_crypto (?z empty_system {empty_store} {}) (?z written_system {empty_store} {})"
    using writer [of sum_crypto "?z empty_system {empty_store} {}"] write_one_page by simp
  note z2 = pool_reachable.step [OF z1 this]
  have "pool_step sum_crypto (?z written_system {empty_store} {}) (?z written_system {written_store, empty_store} {})"
    using view [of "?z written_system {empty_store} {}" written_store] by (simp add: read_handle_def written_store_def)
  note z3 = pool_reachable.step [OF z2 this]
  have "pool_step sum_crypto (?z written_system {written_store, empty_store} {})
      (?z written_system {written_store, empty_store} {((FIRST, FIRST), 1, one_page)})"
    using load [of written_store "?z written_system {written_store, empty_store} {}" sum_crypto "\<lambda>_. Some 5" FIRST one_page _ 1]
      written_store_read by (simp add: current_def written_store_def)
  note z4 = pool_reachable.step [OF z3 this]
  have "pool_insert (\<lambda>xs. xs) ?pool (FIRST, FIRST) 1 one_page = (Inr one_page, one_frame_pool 1)"
    by (simp add: pool_insert_def partition_index_def set_frames_def one_frame_pool_def)
  then have "pool_step sum_crypto (?z written_system {written_store, empty_store} {((FIRST, FIRST), 1, one_page)}) (one_frame 1)"
    using insert [of "(FIRST, FIRST)" 1 one_page "?z written_system {written_store, empty_store} {((FIRST, FIRST), 1, one_page)}" "\<lambda>xs. xs"]
    by (simp add: one_frame_def)
  note z5 = pool_reachable.step [OF z4 this]
  then show "pool_reachable sum_crypto 1 (one_frame 1)" .
  have "release_frame (FIRST, FIRST) (one_frame_pool 1) = one_frame_pool 0"
    by (simp add: release_frame_def partition_index_def set_frames_def one_frame_pool_def)
  then have "pool_step sum_crypto (one_frame 1) (one_frame 0)"
    using release [of sum_crypto "one_frame 1" "(FIRST, FIRST)"] by (simp add: one_frame_def)
  from pool_reachable.step [OF z5 this] show "pool_reachable sum_crypto 1 (one_frame 0)" .
qed

lemma one_frame_hit:
  "v \<in> {written_store, empty_store} \<Longrightarrow>
    \<exists>pool' v'. get_or_load sum_crypto (\<lambda>_. Some 5) (\<lambda>xs. xs) (one_frame_pool 1) (current (one_frame 1) v) FIRST = (Inr one_page, pool', v')"
  by (auto simp: get_or_load_def pool_lookup_def partition_index_def one_frame_pool_def current_def
      written_store_def empty_store_def)

theorem buffer_pool_coherent_witness:
  "fst (page_read sum_crypto (\<lambda>_. Some 5) (sys_store (px_pages (one_frame 1))) FIRST) = Inr one_page"
proof -
  obtain pool' v' where "get_or_load sum_crypto (\<lambda>_. Some 5) (\<lambda>xs. xs) (px_pool (one_frame 1))
      (current (one_frame 1) written_store) FIRST = (Inr one_page, pool', v')"
    using one_frame_hit [of written_store] by (auto simp: one_frame_def)
  from buffer_pool_coherent [OF one_frame_reachable(1) _ _ this, of "\<lambda>_. Some 5"] show ?thesis
    by (simp add: one_frame_def written_store_def)
qed

theorem buffer_pool_bounded_witness:
  "sum_list (map (\<lambda>part. length (pp_frames part)) (bp_partitions (px_pool (one_frame 1)))) \<le> 1"
  using buffer_pool_bounded [OF one_frame_reachable(1)] by simp

theorem buffer_pool_evicts_lru_witness:
  "\<exists>pool'. pool_insert (\<lambda>xs. xs) (one_frame_pool 0) (FIRST, nz 2) 7 one_page = (Inr one_page, pool')
    \<and> (FIRST, FIRST) \<notin> fst ` set (pp_frames (bp_partitions pool' ! 0))
    \<and> pp_capacity (bp_partitions (one_frame_pool 0) ! 0) \<le> length (pp_frames (bp_partitions (one_frame_pool 0) ! 0))"
proof -
  let ?new = "((FIRST, nz 2), \<lparr>fr_page = one_page, fr_last_used = 7, fr_handles = 1\<rparr>)"
  have two: "nz 2 \<noteq> (FIRST :: page_id)"
  proof
    assume eq: "nz 2 = (FIRST :: page_id)"
    have "get (nz 2 :: page_id) = 2" by simp
    then show False by (simp add: eq)
  qed
  obtain pool' where ins: "pool_insert (\<lambda>xs. xs) (one_frame_pool 0) (FIRST, nz 2) 7 one_page = (Inr one_page, pool')"
    and frames: "pp_frames (bp_partitions pool' ! 0) = [?new]"
    using two by (auto simp: pool_insert_def partition_index_def set_frames_def one_frame_pool_def)
  have idx: "partition_index (px_pool (one_frame 0)) (FIRST, nz 2) = 0"
    by (simp add: partition_index_def one_frame_def one_frame_pool_def)
  show ?thesis
    using buffer_pool_evicts_lru [OF one_frame_reachable(2), of "\<lambda>xs. xs" "(FIRST, nz 2)" 7 one_page one_page pool' _ "(FIRST, FIRST)"
        "\<lparr>fr_page = one_page, fr_last_used = 1, fr_handles = 0\<rparr>", OF _ _ refl] ins frames two idx
    by (simp add: one_frame_def one_frame_pool_def)
qed

text \<open>A cached page is served beyond the boundary that a reader captured: the store refuses the
  page to that reader, and the pool, which compares only the generation and the page identity, hands it out.\<close>

theorem cached_page_ignores_boundary:
  "\<exists>z v p. pool_reachable sum_crypto 1 z \<and> v \<in> px_views z
    \<and> fst (page_read sum_crypto (\<lambda>_. Some 5) (current z v) FIRST) = Inl (PageOutsideBoundary FIRST)
    \<and> fst (get_or_load sum_crypto (\<lambda>_. Some 5) (\<lambda>xs. xs) (px_pool z) (current z v) FIRST) = Inr p"
proof -
  have "fst (page_read sum_crypto (\<lambda>_. Some 5) (current (one_frame 1) empty_store) FIRST) = Inl (PageOutsideBoundary FIRST)"
    by (simp add: page_read_def current_def empty_store_def)
  moreover have "fst (get_or_load sum_crypto (\<lambda>_. Some 5) (\<lambda>xs. xs) (px_pool (one_frame 1)) (current (one_frame 1) empty_store) FIRST) = Inr one_page"
    using one_frame_hit [of empty_store] by (auto simp: one_frame_def)
  moreover have "empty_store \<in> px_views (one_frame 1)" by (simp add: one_frame_def)
  ultimately show ?thesis using one_frame_reachable(1) by blast
qed

end
