(* ===== verification/Records.thy ===== *)
theory Records
  imports Identities Codec
begin

text \<open>
  Rows (\<^verbatim>\<open>crates/hyphae-native-records/src/lib.rs\<close> and \<^verbatim>\<open>tuple.rs\<close>): committed row versions, typed row
  tuples, row-version pointers and blob references. Row records and tuples share one layout of
  columns, a null bitmap, an offset table and the values, behind headers of different sizes; the two
  copies of that code are one group of definitions here with the header size as an argument.
\<close>

section \<open>Data\<close>

definition ROW_HEADER_SIZE :: nat where "ROW_HEADER_SIZE = 40"
definition BLOB_REFERENCE_SIZE :: nat where "BLOB_REFERENCE_SIZE = 56"
definition ROW_VERSION_POINTER_SIZE :: nat where "ROW_VERSION_POINTER_SIZE = 16"
definition ROW_TUPLE_HEADER_SIZE :: nat where "ROW_TUPLE_HEADER_SIZE = 16"
definition ROW_VERSION_POINTER_MAGIC :: bytes where "ROW_VERSION_POINTER_MAGIC = ascii ''HYROWP01''"
definition ROW_TUPLE_MAGIC :: bytes where "ROW_TUPLE_MAGIC = ascii ''HYTUPL01''"
definition OPEN_END_CSN :: u64 where "OPEN_END_CSN = - 1"

lemmas row_sizes = ROW_HEADER_SIZE_def BLOB_REFERENCE_SIZE_def ROW_VERSION_POINTER_SIZE_def ROW_TUPLE_HEADER_SIZE_def

datatype record_error =
    RecordTruncated | RecordLengthMismatch | RecordUnknownFlags | EmptyRegularRow | ColumnCountOverflow
  | RecordLengthOverflow | RecordZeroIdentity | InvalidVersionWindow | InvalidTombstone
  | NoncanonicalNullBitmap | InvalidOffsets | NullHasBytes | InvalidBlobReferenceLength
  | InvalidRowVersionPointer | InvalidTupleHeader

datatype column_value = NullColumn | BytesColumn bytes

type_synonym columns = "bytes option list"

record row_record =
  row_id :: row_id
  row_begin_csn :: csn
  row_end_csn :: "csn option"
  row_tombstone :: bool
  row_values :: columns

section \<open>Columns\<close>

definition null_bitmap_length :: "nat \<Rightarrow> nat" where
  "null_bitmap_length column_count = (column_count + 7) div 8"

definition offsets_start_of :: "nat \<Rightarrow> nat \<Rightarrow> nat" where
  "offsets_start_of header column_count = header + null_bitmap_length column_count"

definition value_start_of :: "nat \<Rightarrow> nat \<Rightarrow> nat" where
  "value_start_of header column_count = offsets_start_of header column_count + (column_count + 1) * 4"

definition is_null :: "nat \<Rightarrow> bytes \<Rightarrow> nat \<Rightarrow> bool" where
  "is_null header encoded column = ((encoded ! (header + column div 8)) AND push_bit (column mod 8) 1 \<noteq> 0)"

definition offset_at :: "nat \<Rightarrow> bytes \<Rightarrow> nat \<Rightarrow> nat" where
  "offset_at offsets_start encoded position =
     unat (from_le_bytes (seg (offsets_start + position * 4) (offsets_start + position * 4 + 4) encoded) :: u32)"

text \<open>The loop over the offset table; \<open>previous\<close> is the offset before.\<close>

fun check_offsets :: "nat \<Rightarrow> nat \<Rightarrow> nat \<Rightarrow> bytes \<Rightarrow> nat option \<Rightarrow> nat list \<Rightarrow> record_error + nat option" where
  "check_offsets header offsets_start value_start encoded previous [] = Inr previous"
| "check_offsets header offsets_start value_start encoded previous (offset_index # rest) =
     (if offsets_start + offset_index * 4 + 4 > length encoded then Inl RecordTruncated
      else
        let offset = offset_at offsets_start encoded offset_index in
        if offset < value_start \<or> offset > length encoded then Inl InvalidOffsets
        else if offset_index = 0 \<and> offset \<noteq> value_start then Inl InvalidOffsets
        else
          attempt (case previous of
              None \<Rightarrow> Inr ()
            | Some p \<Rightarrow>
                if p > offset then Inl InvalidOffsets
                else if is_null header encoded (offset_index - 1) \<and> p \<noteq> offset then Inl NullHasBytes
                else Inr ())
            (\<lambda>_. check_offsets header offsets_start value_start encoded (Some offset) rest))"

definition validate_layout :: "nat \<Rightarrow> bytes \<Rightarrow> nat \<Rightarrow> record_error + nat" where
  "validate_layout header encoded column_count =
     (let null_bytes = null_bitmap_length column_count;
          offsets_start = offsets_start_of header column_count;
          value_start = value_start_of header column_count
      in
      if value_start > length encoded then Inl RecordTruncated
      else if column_count mod 8 \<noteq> 0
        \<and> encoded ! (header + null_bytes - 1) AND NOT (push_bit (column_count mod 8) 1 - 1) \<noteq> 0
      then Inl NoncanonicalNullBitmap
      else
        attempt (check_offsets header offsets_start value_start encoded None [0..<column_count + 1]) (\<lambda>previous_offset.
        if previous_offset \<noteq> Some (length encoded) then Inl InvalidOffsets else Inr offsets_start))"

text \<open>\<^verbatim>\<open>slice::get\<close> of a range.\<close>

definition get_range :: "nat \<Rightarrow> nat \<Rightarrow> 'a list \<Rightarrow> 'a list option" where
  "get_range a b xs = (if a \<le> b \<and> b \<le> length xs then Some (seg a b xs) else None)"

definition column_at :: "nat \<Rightarrow> nat \<Rightarrow> bytes \<Rightarrow> nat \<Rightarrow> nat \<Rightarrow> column_value option" where
  "column_at header offsets_start encoded column_count index =
     (if index \<ge> column_count then None
      else if is_null header encoded index then Some NullColumn
      else (case get_range (offsets_start + index * 4) (offsets_start + index * 4 + 4) encoded of
          None \<Rightarrow> None
        | Some _ \<Rightarrow> (case get_range (offsets_start + (index + 1) * 4) (offsets_start + (index + 1) * 4 + 4) encoded of
            None \<Rightarrow> None
          | Some _ \<Rightarrow> map_option BytesColumn
              (get_range (offset_at offsets_start encoded index) (offset_at offsets_start encoded (index + 1)) encoded))))"

text \<open>The loop of \<^verbatim>\<open>decode\<close> that collects the owned values.\<close>

fun collect_columns :: "(nat \<Rightarrow> column_value option) \<Rightarrow> nat list \<Rightarrow> record_error + columns" where
  "collect_columns column [] = Inr []"
| "collect_columns column (index # rest) =
     attempt (ok_or InvalidOffsets (column index)) (\<lambda>v.
     attempt (collect_columns column rest) (\<lambda>vs.
     Inr ((case v of NullColumn \<Rightarrow> None | BytesColumn value \<Rightarrow> Some value) # vs)))"

definition write_u32 :: "nat \<Rightarrow> nat \<Rightarrow> bytes \<Rightarrow> record_error + bytes" where
  "write_u32 position value target =
     (if value < 2 ^ 32 then Inr (put position (to_le_bytes (word_of_nat value :: u32)) target)
      else Inl RecordLengthOverflow)"

fun write_columns :: "nat \<Rightarrow> nat \<Rightarrow> nat \<Rightarrow> columns \<Rightarrow> nat \<Rightarrow> bytes \<Rightarrow> record_error + bytes" where
  "write_columns null_start offsets_start index [] value_offset encoded = Inr encoded"
| "write_columns null_start offsets_start index (Some value # values) value_offset encoded =
     attempt (write_u32 (offsets_start + (index + 1) * 4) (value_offset + length value) (put value_offset value encoded))
       (write_columns null_start offsets_start (index + 1) values (value_offset + length value))"
| "write_columns null_start offsets_start index (None # values) value_offset encoded =
     (let slot = null_start + index div 8 in
      attempt (write_u32 (offsets_start + (index + 1) * 4) value_offset
          (encoded[slot := (encoded ! slot) OR push_bit (index mod 8) 1]))
       (write_columns null_start offsets_start (index + 1) values value_offset))"

definition value_length :: "bytes option \<Rightarrow> nat" where
  "value_length value = (case value of None \<Rightarrow> 0 | Some v \<Rightarrow> length v)"

definition columns_length :: "nat \<Rightarrow> columns \<Rightarrow> nat" where
  "columns_length header values = value_start_of header (length values) + sum_list (map value_length values)"

text \<open>The part of both encoders after the header: the table and the values into a zeroed buffer.\<close>

definition encode_columns :: "nat \<Rightarrow> columns \<Rightarrow> bytes \<Rightarrow> record_error + bytes" where
  "encode_columns header values encoded =
     (let offsets_start = offsets_start_of header (length values);
          value_start = value_start_of header (length values)
      in attempt (write_u32 offsets_start value_start encoded) (\<lambda>encoded.
         write_columns header offsets_start 0 values value_start encoded))"

section \<open>Row tuples\<close>

definition tuple_new :: "columns \<Rightarrow> record_error + columns" where
  "tuple_new values =
     (if values = [] then Inl EmptyRegularRow
      else if length values \<ge> 2 ^ 16 then Inl ColumnCountOverflow
      else Inr values)"

definition tuple_encode :: "columns \<Rightarrow> record_error + bytes" where
  "tuple_encode values =
     (if length values \<ge> 2 ^ 16 then Inl ColumnCountOverflow
      else
        let total_length = columns_length ROW_TUPLE_HEADER_SIZE values in
        if total_length \<ge> 2 ^ 32 then Inl RecordLengthOverflow
        else
          let encoded = replicate total_length 0;
              encoded = put 0 ROW_TUPLE_MAGIC encoded;
              encoded = put 8 (to_le_bytes (word_of_nat total_length :: u32)) encoded;
              encoded = put 12 (to_le_bytes (word_of_nat (length values) :: u16)) encoded
          in encode_columns ROW_TUPLE_HEADER_SIZE values encoded)"

definition tuple_value :: "columns \<Rightarrow> nat \<Rightarrow> column_value option" where
  "tuple_value values index =
     (if index < length values
      then Some (case values ! index of None \<Rightarrow> NullColumn | Some v \<Rightarrow> BytesColumn v) else None)"

definition tuple_validate_layout :: "bytes \<Rightarrow> nat \<Rightarrow> record_error + nat" where
  "tuple_validate_layout = validate_layout ROW_TUPLE_HEADER_SIZE"

text \<open>A validated view: the column count and the start of the offsets.\<close>

definition tuple_view_decode :: "bytes \<Rightarrow> record_error + (nat \<times> nat)" where
  "tuple_view_decode encoded =
     (if length encoded < ROW_TUPLE_HEADER_SIZE then Inl RecordTruncated
      else if seg 0 8 encoded \<noteq> ROW_TUPLE_MAGIC \<or> seg 14 16 encoded \<noteq> [0, 0] then Inl InvalidTupleHeader
      else if unat (from_le_bytes (seg 8 12 encoded) :: u32) \<noteq> length encoded then Inl RecordLengthMismatch
      else
        let column_count = unat (from_le_bytes (seg 12 14 encoded) :: u16) in
        if column_count = 0 then Inl EmptyRegularRow
        else
          attempt (tuple_validate_layout encoded column_count) (\<lambda>offsets_start.
          Inr (column_count, offsets_start)))"

definition tuple_view_value :: "bytes \<Rightarrow> nat \<times> nat \<Rightarrow> nat \<Rightarrow> column_value option" where
  "tuple_view_value encoded v index = column_at ROW_TUPLE_HEADER_SIZE (snd v) encoded (fst v) index"

definition tuple_decode :: "bytes \<Rightarrow> record_error + columns" where
  "tuple_decode encoded =
     attempt (tuple_view_decode encoded) (\<lambda>v.
     collect_columns (tuple_view_value encoded v) [0..<fst v])"

section \<open>Row records\<close>

definition validate_window :: "csn \<Rightarrow> csn option \<Rightarrow> record_error + unit" where
  "validate_window begin_csn end_csn =
     (case end_csn of
        None \<Rightarrow> Inr ()
      | Some e \<Rightarrow> if get e = OPEN_END_CSN \<or> get e \<le> get begin_csn then Inl InvalidVersionWindow else Inr ())"

definition row_new :: "row_id \<Rightarrow> csn \<Rightarrow> csn option \<Rightarrow> columns \<Rightarrow> record_error + row_record" where
  "row_new i begin_csn end_csn values =
     (if values = [] then Inl EmptyRegularRow
      else if length values \<ge> 2 ^ 16 then Inl ColumnCountOverflow
      else
        attempt (validate_window begin_csn end_csn) (\<lambda>_.
        Inr \<lparr>row_id = i, row_begin_csn = begin_csn, row_end_csn = end_csn, row_tombstone = False, row_values = values\<rparr>))"

definition row_new_tombstone :: "row_id \<Rightarrow> csn \<Rightarrow> csn option \<Rightarrow> record_error + row_record" where
  "row_new_tombstone i begin_csn end_csn =
     attempt (validate_window begin_csn end_csn) (\<lambda>_.
     Inr \<lparr>row_id = i, row_begin_csn = begin_csn, row_end_csn = end_csn, row_tombstone = True, row_values = []\<rparr>)"

definition row_value :: "row_record \<Rightarrow> nat \<Rightarrow> column_value option" where
  "row_value row index =
     (if index < length (row_values row)
      then Some (case row_values row ! index of None \<Rightarrow> NullColumn | Some v \<Rightarrow> BytesColumn v) else None)"

definition row_visible_at :: "row_record \<Rightarrow> csn option \<Rightarrow> bool" where
  "row_visible_at row visible_csn =
     (case visible_csn of
        None \<Rightarrow> False
      | Some visible \<Rightarrow> get (row_begin_csn row) \<le> get visible
          \<and> (case row_end_csn row of None \<Rightarrow> True | Some e \<Rightarrow> get visible < get e))"

definition row_close_at :: "row_record \<Rightarrow> csn \<Rightarrow> record_error + row_record" where
  "row_close_at row end_csn =
     (if row_end_csn row \<noteq> None then Inl InvalidVersionWindow
      else
        attempt (validate_window (row_begin_csn row) (Some end_csn)) (\<lambda>_.
        Inr (row\<lparr>row_end_csn := Some end_csn\<rparr>)))"

definition encode_identity_and_window :: "row_record \<Rightarrow> bytes \<Rightarrow> record_error + bytes" where
  "encode_identity_and_window row encoded =
     attempt (validate_window (row_begin_csn row) (row_end_csn row)) (\<lambda>_.
     let encoded = put 8 (to_le_bytes (get (row_id row))) encoded;
         encoded = put 24 (to_le_bytes (get (row_begin_csn row))) encoded
     in Inr (put 32 (to_le_bytes (case row_end_csn row of None \<Rightarrow> OPEN_END_CSN | Some e \<Rightarrow> get e)) encoded))"

definition row_encode :: "row_record \<Rightarrow> record_error + bytes" where
  "row_encode row =
     (if row_tombstone row
      then
        let encoded = replicate ROW_HEADER_SIZE 0;
            encoded = put 0 (to_le_bytes (40 :: u32)) encoded;
            encoded = put 4 (to_le_bytes (1 :: u16)) encoded
        in encode_identity_and_window row encoded
      else if length (row_values row) \<ge> 2 ^ 16 then Inl ColumnCountOverflow
      else
        let total_length = columns_length ROW_HEADER_SIZE (row_values row) in
        if total_length \<ge> 2 ^ 32 then Inl RecordLengthOverflow
        else
          let encoded = replicate total_length 0;
              encoded = put 0 (to_le_bytes (word_of_nat total_length :: u32)) encoded;
              encoded = put 6 (to_le_bytes (word_of_nat (length (row_values row)) :: u16)) encoded
          in attempt (encode_identity_and_window row encoded) (\<lambda>encoded.
             encode_columns ROW_HEADER_SIZE (row_values row) encoded))"

record row_view =
  rv_bytes :: bytes
  rv_row_id :: row_id
  rv_begin_csn :: csn
  rv_end_csn :: "csn option"
  rv_tombstone :: bool
  rv_column_count :: nat
  rv_offsets_start :: nat

definition row_view_decode :: "bytes \<Rightarrow> record_error + row_view" where
  "row_view_decode encoded =
     (if length encoded < ROW_HEADER_SIZE then Inl RecordTruncated
      else if unat (from_le_bytes (seg 0 4 encoded) :: u32) \<noteq> length encoded then Inl RecordLengthMismatch
      else
        let flags = (from_le_bytes (seg 4 6 encoded) :: u16) in
        if flags AND NOT 1 \<noteq> 0 then Inl RecordUnknownFlags
        else
          let column_count = unat (from_le_bytes (seg 6 8 encoded) :: u16) in
          attempt (map_err (\<lambda>_. RecordZeroIdentity) (identity_new ''RowId'' (from_le_bytes (seg 8 24 encoded)))) (\<lambda>i.
          attempt (map_err (\<lambda>_. RecordZeroIdentity) (identity_new ''Csn'' (from_le_bytes (seg 24 32 encoded)))) (\<lambda>begin_csn.
          let raw_end = from_le_bytes (seg 32 40 encoded) in
          attempt (if raw_end = OPEN_END_CSN then Inr None
              else map_err (\<lambda>_. RecordZeroIdentity) (attempt (identity_new ''Csn'' raw_end) (\<lambda>e. Inr (Some e)))) (\<lambda>end_csn.
          attempt (validate_window begin_csn end_csn) (\<lambda>_.
          if flags AND 1 \<noteq> 0
          then
            if column_count \<noteq> 0 \<or> length encoded \<noteq> ROW_HEADER_SIZE then Inl InvalidTombstone
            else Inr \<lparr>rv_bytes = encoded, rv_row_id = i, rv_begin_csn = begin_csn, rv_end_csn = end_csn,
              rv_tombstone = True, rv_column_count = column_count, rv_offsets_start = 0\<rparr>
          else if column_count = 0 then Inl EmptyRegularRow
          else
            attempt (validate_layout ROW_HEADER_SIZE encoded column_count) (\<lambda>offsets_start.
            Inr \<lparr>rv_bytes = encoded, rv_row_id = i, rv_begin_csn = begin_csn, rv_end_csn = end_csn,
              rv_tombstone = False, rv_column_count = column_count, rv_offsets_start = offsets_start\<rparr>))))))"

definition row_view_value :: "row_view \<Rightarrow> nat \<Rightarrow> column_value option" where
  "row_view_value v index =
     (if rv_tombstone v then None
      else column_at ROW_HEADER_SIZE (rv_offsets_start v) (rv_bytes v) (rv_column_count v) index)"

definition row_view_visible_at :: "row_view \<Rightarrow> csn option \<Rightarrow> bool" where
  "row_view_visible_at v visible_csn =
     (case visible_csn of
        None \<Rightarrow> False
      | Some visible \<Rightarrow> get (rv_begin_csn v) \<le> get visible
          \<and> (case rv_end_csn v of None \<Rightarrow> True | Some e \<Rightarrow> get visible < get e))"

definition row_decode :: "bytes \<Rightarrow> record_error + row_record" where
  "row_decode encoded =
     attempt (row_view_decode encoded) (\<lambda>v.
     if rv_tombstone v
     then Inr \<lparr>row_id = rv_row_id v, row_begin_csn = rv_begin_csn v, row_end_csn = rv_end_csn v,
       row_tombstone = True, row_values = []\<rparr>
     else
       attempt (collect_columns (row_view_value v) [0..<rv_column_count v]) (\<lambda>values.
       Inr \<lparr>row_id = rv_row_id v, row_begin_csn = rv_begin_csn v, row_end_csn = rv_end_csn v,
         row_tombstone = False, row_values = values\<rparr>))"

section \<open>Pointers and blob references\<close>

definition row_pointer_encode :: "page_id \<Rightarrow> bytes" where
  "row_pointer_encode page =
     put 8 (to_le_bytes (get page)) (put 0 ROW_VERSION_POINTER_MAGIC (replicate ROW_VERSION_POINTER_SIZE 0))"

definition row_pointer_decode :: "bytes \<Rightarrow> record_error + page_id" where
  "row_pointer_decode encoded =
     (if length encoded \<noteq> ROW_VERSION_POINTER_SIZE \<or> seg 0 8 encoded \<noteq> ROW_VERSION_POINTER_MAGIC
      then Inl InvalidRowVersionPointer
      else map_err (\<lambda>_. InvalidRowVersionPointer) (identity_new ''PageId'' (from_le_bytes (seg 8 16 encoded))))"

record blob_reference =
  blob_id :: blob_id
  blob_logical_length :: u64
  blob_digest :: digest

definition blob_reference_encode :: "blob_reference \<Rightarrow> bytes" where
  "blob_reference_encode b =
     put 24 (to_be_bytes (blob_digest b)) (put 16 (to_le_bytes (blob_logical_length b))
       (put 0 (to_le_bytes (get (blob_id b))) (replicate BLOB_REFERENCE_SIZE 0)))"

definition blob_reference_decode :: "bytes \<Rightarrow> record_error + blob_reference" where
  "blob_reference_decode encoded =
     (if length encoded \<noteq> BLOB_REFERENCE_SIZE then Inl InvalidBlobReferenceLength
      else
        attempt (map_err (\<lambda>_. RecordZeroIdentity) (identity_new ''BlobId'' (from_le_bytes (seg 0 16 encoded)))) (\<lambda>i.
        Inr \<lparr>blob_id = i, blob_logical_length = from_le_bytes (seg 16 24 encoded),
          blob_digest = from_be_bytes (seg 24 56 encoded)\<rparr>))"

end
