(* ===== verification/RowColumns.thy ===== *)
theory RowColumns
  imports Records
begin

text \<open>
  The column layout that row records and tuples share: the image of a list of columns, that the
  encoder writes it, and that the validating decoder accepts exactly it.
\<close>

section \<open>The null bitmap\<close>

definition null_byte :: "(nat \<Rightarrow> bool) \<Rightarrow> nat \<Rightarrow> u8" where
  "null_byte nulls k = horner_sum of_bool 2 (map (\<lambda>j. nulls (8 * k + j)) [0..<8])"

definition column_null :: "columns \<Rightarrow> nat \<Rightarrow> bool" where
  "column_null cols i = (i < length cols \<and> cols ! i = None)"

definition null_bitmap :: "columns \<Rightarrow> bytes" where
  "null_bitmap cols = map (null_byte (column_null cols)) [0..<null_bitmap_length (length cols)]"

lemma bit_null_byte: "bit (null_byte nulls k) j = (j < 8 \<and> nulls (8 * k + j))"
  by (auto simp: null_byte_def bit_horner_sum_bit_word_iff)

lemma length_null_bitmap [simp]: "length (null_bitmap cols) = null_bitmap_length (length cols)"
  by (simp add: null_bitmap_def)

lemma byte_eqI: "(\<And>j. j < 8 \<Longrightarrow> bit (a :: u8) j = bit b j) \<Longrightarrow> a = b"
  by (rule bit_word_eqI) simp

lemma is_null_bit: "is_null header encoded column = bit (encoded ! (header + column div 8)) (column mod 8)"
  by (simp add: is_null_def bit_iff_and_push_bit_not_eq_0)

lemma null_bitmap_length_alt: "null_bitmap_length n = n div 8 + (if n mod 8 = 0 then 0 else 1)"
proof -
  have "(8 * q + r + 7) div 8 = q + (if r = 0 then 0 else 1)" if "r < 8" for q r :: nat using that by (cases r) auto
  from this [of "n mod 8" "n div 8"] show ?thesis by (simp add: null_bitmap_length_def)
qed

lemma null_bitmap_index: "i < n \<Longrightarrow> i div 8 < null_bitmap_length n"
  by (simp add: null_bitmap_length_def)

text \<open>What the encoding loop does to a bitmap.\<close>

fun set_nulls :: "nat \<Rightarrow> columns \<Rightarrow> bytes \<Rightarrow> bytes" where
  "set_nulls i [] bitmap = bitmap"
| "set_nulls i (Some v # cols) bitmap = set_nulls (i + 1) cols bitmap"
| "set_nulls i (None # cols) bitmap =
     set_nulls (i + 1) cols (bitmap[i div 8 := (bitmap ! (i div 8)) OR push_bit (i mod 8) 1])"

lemma length_set_nulls [simp]: "length (set_nulls i cols bitmap) = length bitmap"
  by (induction i cols bitmap rule: set_nulls.induct) simp_all

lemma column_null_Cons: "column_null (c # cols) m = (if m = 0 then c = None else column_null cols (m - 1))"
  by (cases m) (auto simp: column_null_def)

lemma bit_set_nulls:
  assumes "k < length bitmap" "j < 8"
  shows "bit (set_nulls i cols bitmap ! k) j
    = (bit (bitmap ! k) j \<or> (i \<le> 8 * k + j \<and> column_null cols (8 * k + j - i)))"
  using assms
proof (induction i cols bitmap rule: set_nulls.induct)
  case (1 i bitmap)
  then show ?case by (simp add: column_null_def)
next
  case (2 i v cols bitmap)
  have "column_null (Some v # cols) (8 * k + j - i) = (8 * k + j \<noteq> i \<and> column_null cols (8 * k + j - (i + 1)))"
    if "i \<le> 8 * k + j" using that by (auto simp: column_null_Cons)
  with 2 show ?case by (cases "i \<le> 8 * k + j") auto
next
  case (3 i cols bitmap)
  have pos: "(i div 8 = k \<and> i mod 8 = j) = (8 * k + j = i)" using 3(3) by auto
  have "bit (bitmap[i div 8 := (bitmap ! (i div 8)) OR push_bit (i mod 8) 1] ! k) j = (bit (bitmap ! k) j \<or> 8 * k + j = i)"
  proof (cases "i div 8 = k")
    case True
    with 3(2,3) pos show ?thesis by (auto simp: bit_or_iff bit_exp_iff)
  next
    case False
    with pos show ?thesis by simp
  qed
  moreover have "column_null (None # cols) (8 * k + j - i) = (8 * k + j = i \<or> column_null cols (8 * k + j - (i + 1)))"
    if "i \<le> 8 * k + j" using that by (auto simp: column_null_Cons)
  ultimately show ?case using 3 by (cases "i \<le> 8 * k + j") auto
qed

lemma set_nulls_bitmap:
  "set_nulls 0 cols (replicate (null_bitmap_length (length cols)) 0) = null_bitmap cols"
proof (rule nth_equalityI)
  fix k
  assume "k < length (set_nulls 0 cols (replicate (null_bitmap_length (length cols)) 0))"
  then have k: "k < null_bitmap_length (length cols)" by simp
  show "set_nulls 0 cols (replicate (null_bitmap_length (length cols)) 0) ! k = null_bitmap cols ! k"
    by (rule byte_eqI) (use k in \<open>simp add: bit_set_nulls null_bitmap_def bit_null_byte\<close>)
qed simp

text \<open>The check of the unused bits: no bit at or above the column count is set.\<close>

lemma unused_bits_zero:
  assumes "u < 8"
  shows "(b AND NOT (2 ^ u - 1) = (0 :: u8)) = (\<forall>j < 8. u \<le> j \<longrightarrow> \<not> bit b j)"
proof -
  have "2 ^ u - 1 = (mask u :: u8)" by (simp add: mask_eq_exp_minus_1)
  then have "bit (b AND NOT (2 ^ u - 1)) j = (bit b j \<and> j < 8 \<and> u \<le> j)" for j
    by (auto simp: bit_and_iff bit_not_iff bit_mask_iff dest: bit_imp_le_length)
  then show ?thesis by (auto simp: bit_eq_iff)
qed

lemma null_bitmap_iff:
  assumes "length bitmap = null_bitmap_length n" "length cols = n"
  shows "(bitmap = null_bitmap cols)
    = ((\<forall>i < n. bit (bitmap ! (i div 8)) (i mod 8) = (cols ! i = None))
       \<and> (n mod 8 \<noteq> 0 \<longrightarrow> bitmap ! (null_bitmap_length n - 1) AND NOT (push_bit (n mod 8) 1 - 1) = 0))"
  (is "?L = ?R")
proof
  assume L: ?L
  have used: "bit (bitmap ! (i div 8)) (i mod 8) = (cols ! i = None)" if "i < n" for i
    using that null_bitmap_index [OF that] assms by (simp add: L null_bitmap_def bit_null_byte column_null_def)
  have "bitmap ! (null_bitmap_length n - 1) AND NOT (push_bit (n mod 8) 1 - 1) = 0" if "n mod 8 \<noteq> 0"
  proof -
    have len: "null_bitmap_length n = n div 8 + 1" using that by (simp add: null_bitmap_length_alt)
    have "bitmap ! (n div 8) = null_byte (column_null cols) (n div 8)" using assms len by (simp add: L null_bitmap_def nth_append)
    moreover have "\<not> 8 * (n div 8) + j < n" if "n mod 8 \<le> j" for j using that by presburger
    ultimately show ?thesis using assms(2) len by (auto simp: unused_bits_zero bit_null_byte column_null_def)
  qed
  with used show ?R by blast
next
  assume R: ?R
  show ?L
  proof (rule nth_equalityI)
    fix k
    assume "k < length bitmap"
    then have k: "k < null_bitmap_length n" using assms(1) by simp
    show "bitmap ! k = null_bitmap cols ! k"
    proof (rule byte_eqI)
      fix j :: nat
      assume j: "j < 8"
      have "bit (bitmap ! k) j = column_null cols (8 * k + j)"
      proof (cases "8 * k + j < n")
        case True
        with R j assms(2) have "bit (bitmap ! ((8 * k + j) div 8)) ((8 * k + j) mod 8) = (cols ! (8 * k + j) = None)" by blast
        with j True assms(2) show ?thesis by (simp add: column_null_def)
      next
        case False
        have n: "n = 8 * (n div 8) + n mod 8" by simp
        have "n mod 8 \<noteq> 0 \<and> k = n div 8"
        proof (rule ccontr)
          assume "\<not> ?thesis"
          with k have "k < n div 8" by (auto simp: null_bitmap_length_alt split: if_splits)
          with n j False show False by linarith
        qed
        moreover from this n False have "n mod 8 \<le> j" by linarith
        ultimately have "n mod 8 \<noteq> 0 \<and> k = null_bitmap_length n - 1 \<and> n mod 8 \<le> j" by (simp add: null_bitmap_length_alt)
        with R False j assms(2) show ?thesis by (auto simp: unused_bits_zero column_null_def)
      qed
      then show "bit (bitmap ! k) j = bit (null_bitmap cols ! k) j"
        using j k assms(2) by (simp add: null_bitmap_def bit_null_byte)
    qed
  qed (use assms in simp)
qed

section \<open>The image of columns\<close>

fun offsets_from :: "nat \<Rightarrow> columns \<Rightarrow> nat list" where
  "offsets_from o1 [] = [o1]"
| "offsets_from o1 (c # cols) = o1 # offsets_from (o1 + value_length c) cols"

definition offset_table :: "nat list \<Rightarrow> bytes" where
  "offset_table offsets = concat (map (\<lambda>o1. to_le_bytes (word_of_nat o1 :: u32)) offsets)"

definition value_bytes :: "columns \<Rightarrow> bytes" where
  "value_bytes cols = concat (map (\<lambda>c. case c of None \<Rightarrow> [] | Some v \<Rightarrow> v) cols)"

definition columns_image :: "nat \<Rightarrow> columns \<Rightarrow> bytes" where
  "columns_image header cols = null_bitmap cols @ offset_table (offsets_from (value_start_of header (length cols)) cols) @ value_bytes cols"

lemma length_offsets_from [simp]: "length (offsets_from o1 cols) = length cols + 1"
  by (induction o1 cols rule: offsets_from.induct) simp_all

lemma length_offset_table [simp]: "length (offset_table offsets) = 4 * length offsets"
  by (induction offsets) (simp_all add: offset_table_def)

lemma value_length_simps [simp]: "value_length None = 0" "value_length (Some v) = length v"
  by (simp_all add: value_length_def)

lemma value_bytes_simps [simp]:
  "value_bytes [] = []" "value_bytes (None # cols) = value_bytes cols" "value_bytes (Some v # cols) = v @ value_bytes cols"
  by (simp_all add: value_bytes_def)

lemma length_value_bytes [simp]: "length (value_bytes cols) = sum_list (map value_length cols)"
proof (induction cols)
  case (Cons c cols)
  then show ?case by (cases c) simp_all
qed simp

lemma length_columns_image: "header + length (columns_image header cols) = columns_length header cols"
  by (simp add: columns_image_def columns_length_def value_start_of_def offsets_start_of_def)

section \<open>The encoder writes the image\<close>

lemma write_columns_image:
  assumes "length bitmap = m" "i + length cols \<le> 8 * m" "length table = 4 * (i + 1)"
    and "value_offset = length head + m + 4 * (i + 1) + 4 * length cols + length written"
    and "value_offset + sum_list (map value_length cols) < 2 ^ 32"
  shows "write_columns (length head) (length head + m) i cols value_offset
      (head @ bitmap @ table @ replicate (4 * length cols) 0 @ written @ replicate (sum_list (map value_length cols)) 0)
    = Inr (head @ set_nulls i cols bitmap @ table @ offset_table (tl (offsets_from value_offset cols)) @ written @ value_bytes cols)"
  using assms
proof (induction cols arbitrary: i bitmap table value_offset written)
  case Nil
  then show ?case by (simp add: offset_table_def)
next
  case (Cons c cols)
  let ?z = "\<lambda>n. replicate n (0 :: u8)" and ?o = "\<lambda>k. to_le_bytes (word_of_nat k :: u32)"
  let ?rest = "sum_list (map value_length cols)"
  have z: "?z (4 * length (c # cols)) = ?z 4 @ ?z (4 * length cols)" by (simp flip: replicate_add)
  have table: "offset_table (tl (offsets_from value_offset (c # cols)))
      = ?o (value_offset + value_length c) @ offset_table (tl (offsets_from (value_offset + value_length c) cols))"
    by (cases cols) (simp_all add: offset_table_def)
  have slot: "write_u32 (length head + m + (i + 1) * 4) k (head @ b @ table @ ?z (4 * length (c # cols)) @ w)
      = Inr (head @ b @ (table @ ?o k) @ ?z (4 * length cols) @ w)" if "length b = m" "k < 2 ^ 32" for b w k
    using put_middle [of "length head + m + (i + 1) * 4" "head @ b @ table" "?z 4" "?o k" "?z (4 * length cols) @ w"]
      that Cons.prems(3) unfolding z write_u32_def by (simp add: algebra_simps)
  have room: "value_offset + value_length c < 2 ^ 32" using Cons.prems(5) by simp
  show ?case
  proof (cases c)
    case None
    let ?b = "bitmap[i div 8 := (bitmap ! (i div 8)) OR push_bit (i mod 8) 1]"
    have idx: "i div 8 < m" using Cons.prems(2) by simp
    have upd: "(head @ bitmap @ xs)[length head + i div 8 := ((head @ bitmap @ xs) ! (length head + i div 8)) OR push_bit (i mod 8) 1]
        = head @ ?b @ xs" for xs
      using idx Cons.prems(1) by (simp add: list_update_append nth_append)
    have IH: "write_columns (length head) (length head + m) (i + 1) cols value_offset
        (head @ ?b @ (table @ ?o value_offset) @ ?z (4 * length cols) @ written @ ?z ?rest)
      = Inr (head @ set_nulls (i + 1) cols ?b @ (table @ ?o value_offset)
          @ offset_table (tl (offsets_from value_offset cols)) @ written @ value_bytes cols)"
      by (rule Cons.IH) (use Cons.prems None in simp_all)
    have sum: "sum_list (map value_length (None # cols)) = ?rest" by simp
    note slot' = slot [of ?b value_offset "written @ ?z ?rest", unfolded None length_list_update, OF Cons.prems(1)]
    show ?thesis
      unfolding None write_columns.simps Let_def sum upd
      using slot' room table IH unfolding None
      by (simp only: attempt_Inr value_length_simps add_0_right set_nulls.simps value_bytes_simps append_assoc)
  next
    case (Some v)
    have written: "put value_offset v (head @ bitmap @ table @ ?z (4 * length (c # cols)) @ written @ ?z (length v + ?rest))
        = head @ bitmap @ table @ ?z (4 * length (c # cols)) @ (written @ v) @ ?z ?rest"
      using put_middle [of value_offset "head @ bitmap @ table @ ?z (4 * length (c # cols)) @ written" "?z (length v)" v "?z ?rest"]
        Cons.prems(1,3,4) by (simp add: replicate_add algebra_simps del: replicate_Suc)
    have IH: "write_columns (length head) (length head + m) (i + 1) cols (value_offset + length v)
        (head @ bitmap @ (table @ ?o (value_offset + length v)) @ ?z (4 * length cols) @ (written @ v) @ ?z ?rest)
      = Inr (head @ set_nulls (i + 1) cols bitmap @ (table @ ?o (value_offset + length v))
          @ offset_table (tl (offsets_from (value_offset + length v) cols)) @ (written @ v) @ value_bytes cols)"
      by (rule Cons.IH) (use Cons.prems Some in simp_all)
    have sum: "sum_list (map value_length (Some v # cols)) = length v + ?rest" by simp
    note slot' = slot [of bitmap "value_offset + length v" "(written @ v) @ ?z ?rest", unfolded Some, OF Cons.prems(1)]
    show ?thesis
      unfolding Some write_columns.simps sum written [unfolded Some]
      using slot' room table IH unfolding Some
      by (simp only: attempt_Inr value_length_simps set_nulls.simps value_bytes_simps append_assoc)
  qed
qed

lemma encode_columns_image:
  assumes "length head = header" "columns_length header cols < 2 ^ 32"
  shows "encode_columns header cols (head @ replicate (columns_length header cols - header) 0) = Inr (head @ columns_image header cols)"
proof -
  let ?n = "length cols" and ?z = "\<lambda>n. replicate n (0 :: u8)"
  let ?m = "null_bitmap_length ?n" and ?vs = "value_start_of header (length cols)"
  let ?t = "to_le_bytes (word_of_nat ?vs :: u32)" and ?sum = "sum_list (map value_length cols)"
  have vs: "?vs = header + ?m + 4 + 4 * ?n" by (simp add: value_start_of_def offsets_start_of_def)
  have "columns_length header cols - header = ?m + 4 + 4 * ?n + ?sum" by (simp add: columns_length_def vs)
  then have z: "?z (columns_length header cols - header) = ?z ?m @ ?z 4 @ ?z (4 * ?n) @ ?z ?sum"
    by (simp add: replicate_add)
  have first: "write_u32 (header + ?m) ?vs (head @ ?z ?m @ ?z 4 @ ?z (4 * ?n) @ ?z ?sum)
      = Inr (head @ ?z ?m @ ?t @ ?z (4 * ?n) @ ?z ?sum)"
    using put_middle [of "header + ?m" "head @ ?z ?m" "?z 4" ?t "?z (4 * ?n) @ ?z ?sum"] assms
    by (simp add: write_u32_def columns_length_def)
  have "write_columns (length head) (length head + ?m) 0 cols ?vs (head @ ?z ?m @ ?t @ ?z (4 * ?n) @ [] @ ?z ?sum)
      = Inr (head @ set_nulls 0 cols (?z ?m) @ ?t @ offset_table (tl (offsets_from ?vs cols)) @ [] @ value_bytes cols)"
    by (rule write_columns_image) (use assms vs in \<open>simp_all add: columns_length_def null_bitmap_length_def\<close>)
  moreover have "?t @ offset_table (tl (offsets_from ?vs cols)) = offset_table (offsets_from ?vs cols)"
    by (cases cols) (simp_all add: offset_table_def)
  ultimately show ?thesis
    unfolding encode_columns_def Let_def offsets_start_of_def z first
    by (simp add: assms(1) set_nulls_bitmap columns_image_def)
qed

section \<open>The decoder accepts the images only\<close>

definition offset_ok :: "nat \<Rightarrow> nat \<Rightarrow> nat \<Rightarrow> bytes \<Rightarrow> nat option \<Rightarrow> nat \<Rightarrow> bool" where
  "offset_ok h os vs e previous i =
     (os + i * 4 + 4 \<le> length e \<and> vs \<le> offset_at os e i \<and> offset_at os e i \<le> length e
      \<and> (i = 0 \<longrightarrow> offset_at os e 0 = vs)
      \<and> (case previous of None \<Rightarrow> True
         | Some p \<Rightarrow> p \<le> offset_at os e i \<and> (is_null h e (i - 1) \<longrightarrow> p = offset_at os e i)))"

lemma check_offsets_Cons:
  "(check_offsets h os vs e previous (i # rest) = Inr r)
    = (offset_ok h os vs e previous i \<and> check_offsets h os vs e (Some (offset_at os e i)) rest = Inr r)"
  by (cases "i = 0") (auto simp: offset_ok_def Let_def result_simps split: option.splits if_splits)

lemma check_offsets_iff:
  "i \<le> n \<Longrightarrow> (check_offsets h os vs e previous [i..<Suc n] = Inr r)
    = (r = Some (offset_at os e n) \<and> offset_ok h os vs e previous i
       \<and> (\<forall>k. i \<le> k \<and> k < n \<longrightarrow> offset_ok h os vs e (Some (offset_at os e k)) (Suc k)))"
proof (induction "n - i" arbitrary: i previous)
  case 0
  then show ?case by (auto simp: check_offsets_Cons simp del: check_offsets.simps(2))
next
  case (Suc x)
  then have i: "i < n" "x = n - Suc i" "Suc i \<le> n" by auto
  have split: "(\<forall>k. i \<le> k \<and> k < n \<longrightarrow> P k) = (P i \<and> (\<forall>k. Suc i \<le> k \<and> k < n \<longrightarrow> P k))" for P :: "nat \<Rightarrow> bool"
    using i(1) by (metis Suc_le_eq le_eq_less_or_eq)
  have "[i..<Suc n] = i # [Suc i..<Suc n]" using i(1) by (simp add: upt_conv_Cons del: upt_Suc)
  then show ?case
    using Suc.hyps(1) [OF i(2,3), of "Some (offset_at os e i)"]
    by (simp only: check_offsets_Cons split) blast
qed

text \<open>Columns in a buffer: the bitmap, the offsets and the values are where the layout puts them.\<close>

definition columns_at :: "nat \<Rightarrow> bytes \<Rightarrow> columns \<Rightarrow> bool" where
  "columns_at h e cols =
     (let n = length cols; os = offsets_start_of h n; off = offset_at os e in
      value_start_of h n \<le> length e \<and> seg h os e = null_bitmap cols \<and> off 0 = value_start_of h n
      \<and> (\<forall>k < n. off (k + 1) = off k + value_length (cols ! k)) \<and> off n = length e
      \<and> (\<forall>k < n. \<forall>v. cols ! k = Some v \<longrightarrow> seg (off k) (off (k + 1)) e = v))"

definition column_of :: "nat \<Rightarrow> bytes \<Rightarrow> nat \<Rightarrow> nat \<Rightarrow> bytes option" where
  "column_of h e os k = (if is_null h e k then None else Some (seg (offset_at os e k) (offset_at os e (k + 1)) e))"

lemma collect_columns_iff:
  "(collect_columns f ks = Inr cols)
    = (list_all (\<lambda>k. f k \<noteq> None) ks
       \<and> cols = map (\<lambda>k. case f k of Some (BytesColumn v) \<Rightarrow> Some v | _ \<Rightarrow> None) ks)"
proof (induction ks arbitrary: cols)
  case (Cons k ks)
  then show ?case
    by (cases "f k"; cases cols) (auto simp: result_simps split: column_value.splits)
qed auto

lemma stepwise_mono:
  fixes f :: "nat \<Rightarrow> nat"
  assumes "\<forall>k < n. f k \<le> f (k + 1)" shows "i \<le> j \<Longrightarrow> j \<le> n \<Longrightarrow> f i \<le> f j"
  by (induction j) (use assms in \<open>auto simp: le_Suc_eq intro: le_trans\<close>)

lemma validate_layout_iff:
  "(validate_layout h e n = Inr os)
    = (os = offsets_start_of h n \<and> value_start_of h n \<le> length e
       \<and> (n mod 8 \<noteq> 0 \<longrightarrow> e ! (h + null_bitmap_length n - 1) AND NOT (push_bit (n mod 8) 1 - 1) = 0)
       \<and> offset_at os e 0 = value_start_of h n \<and> offset_at os e n = length e
       \<and> (\<forall>k < n. offset_at os e k \<le> offset_at os e (k + 1)
            \<and> (is_null h e k \<longrightarrow> offset_at os e k = offset_at os e (k + 1))))"
  (is "?L = ?R")
proof -
  let ?os = "offsets_start_of h n" and ?vs = "value_start_of h n"
  let ?off = "offset_at ?os e"
  let ?ok = "offset_ok h ?os ?vs e None 0 \<and> (\<forall>k. 0 \<le> k \<and> k < n \<longrightarrow> offset_ok h ?os ?vs e (Some (?off k)) (Suc k))"
  have "?L = (os = ?os \<and> ?vs \<le> length e
      \<and> (n mod 8 \<noteq> 0 \<longrightarrow> e ! (h + null_bitmap_length n - 1) AND NOT (push_bit (n mod 8) 1 - 1) = 0)
      \<and> ?off n = length e \<and> ?ok)"
    using check_offsets_iff [of 0 n h ?os ?vs e None]
    by (auto simp: validate_layout_def Let_def result_simps not_le simp del: upt_Suc check_offsets.simps)
  moreover have "?ok = (?off 0 = ?vs \<and> (\<forall>k < n. ?off k \<le> ?off (k + 1) \<and> (is_null h e k \<longrightarrow> ?off k = ?off (k + 1))))"
    if len: "?vs \<le> length e" and last: "?off n = length e"
  proof
    assume R: "?off 0 = ?vs \<and> (\<forall>k < n. ?off k \<le> ?off (k + 1) \<and> (is_null h e k \<longrightarrow> ?off k = ?off (k + 1)))"
    then have mono: "i \<le> j \<Longrightarrow> j \<le> n \<Longrightarrow> ?off i \<le> ?off j" for i j
      by (intro stepwise_mono [of n ?off]) blast+
    have bound: "?vs \<le> ?off k \<and> ?off k \<le> length e \<and> ?os + k * 4 + 4 \<le> length e" if "k \<le> n" for k
      using mono [of 0 k] mono [of k n] that R last len by (simp add: value_start_of_def)
    have "offset_ok h ?os ?vs e None 0" using R bound [of 0] by (simp add: offset_ok_def)
    moreover have "offset_ok h ?os ?vs e (Some (?off k)) (Suc k)" if "k < n" for k
      using R bound [of "Suc k"] that by (simp add: offset_ok_def)
    ultimately show ?ok by blast
  qed (auto simp: offset_ok_def)
  ultimately show ?thesis by auto
qed

lemma column_at_valid:
  assumes "validate_layout h e n = Inr os" "k < n"
  shows "column_at h os e n k = Some (case column_of h e os k of None \<Rightarrow> NullColumn | Some v \<Rightarrow> BytesColumn v)"
proof -
  have step: "\<forall>i < n. offset_at os e i \<le> offset_at os e (i + 1)" and last: "offset_at os e n = length e"
    and os: "os = offsets_start_of h n" "value_start_of h n \<le> length e"
    using assms(1) unfolding validate_layout_iff by blast+
  have "offset_at os e (k + 1) \<le> length e"
    using stepwise_mono [OF step, of "k + 1" n] assms(2) by (simp add: last)
  moreover have "os + (k + 1) * 4 + 4 \<le> length e" using os assms(2) by (simp add: value_start_of_def)
  ultimately show ?thesis using step assms(2) by (simp add: column_at_def column_of_def get_range_def)
qed

lemma decode_columns_map:
  "(attempt (validate_layout h e n) (\<lambda>os. collect_columns (column_at h os e n) [0..<n]) = Inr cols)
    = (\<exists>os. validate_layout h e n = Inr os \<and> cols = map (column_of h e os) [0..<n])"
proof -
  have "collect_columns (column_at h os e n) [0..<n] = Inr cols \<longleftrightarrow> cols = map (column_of h e os) [0..<n]"
    if "validate_layout h e n = Inr os" for os
    using column_at_valid [OF that]
    by (auto simp: collect_columns_iff list_all_iff column_of_def intro!: map_cong)
  then show ?thesis by (auto simp: attempt_eq_Inr)
qed

lemma bitmap_in_buffer:
  assumes "value_start_of h n \<le> length e" "length cols = n"
  shows "(seg h (offsets_start_of h n) e = null_bitmap cols)
    = ((\<forall>i < n. is_null h e i = (cols ! i = None))
       \<and> (n mod 8 \<noteq> 0 \<longrightarrow> e ! (h + null_bitmap_length n - 1) AND NOT (push_bit (n mod 8) 1 - 1) = 0))"
proof -
  let ?m = "null_bitmap_length n" and ?b = "seg h (offsets_start_of h n) e"
  have le: "h + ?m \<le> length e" using assms(1) by (simp add: value_start_of_def offsets_start_of_def)
  then have len: "length ?b = ?m" by (simp add: offsets_start_of_def)
  have nth: "?b ! k = e ! (h + k)" if "k < ?m" for k using that le by (simp add: seg_nth offsets_start_of_def)
  have "bit (?b ! (i div 8)) (i mod 8) = is_null h e i" if "i < n" for i
    using nth [OF null_bitmap_index [OF that]] by (simp add: is_null_bit)
  moreover have "?b ! (?m - 1) = e ! (h + ?m - 1)" if "n mod 8 \<noteq> 0"
    using nth [of "?m - 1"] that by (simp add: null_bitmap_length_alt)
  ultimately show ?thesis unfolding null_bitmap_iff [OF len assms(2)] by auto
qed

lemma columns_at_iff:
  "(\<exists>os. validate_layout h e n = Inr os \<and> cols = map (column_of h e os) [0..<n]) = (length cols = n \<and> columns_at h e cols)"
  (is "?L = ?R")
proof
  assume ?L
  then obtain os where v: "validate_layout h e n = Inr os" and cols: "cols = map (column_of h e os) [0..<n]" by blast
  have n: "length cols = n" by (simp add: cols)
  note v = v [unfolded validate_layout_iff]
  have os: "os = offsets_start_of h n" using v by blast
  have "is_null h e k = (cols ! k = None)" if "k < n" for k using that by (simp add: cols column_of_def)
  with v have "seg h os e = null_bitmap cols" unfolding os by (subst bitmap_in_buffer) (use v n in blast)+
  moreover have "offset_at os e (k + 1) = offset_at os e k + value_length (cols ! k)" if "k < n" for k
  proof -
    have step: "\<forall>i < n. offset_at os e i \<le> offset_at os e (i + 1)" and last: "offset_at os e n = length e"
      and null: "is_null h e k \<Longrightarrow> offset_at os e k = offset_at os e (k + 1)" using v that by blast+
    have "offset_at os e (k + 1) \<le> length e" using stepwise_mono [OF step, of "k + 1" n] that by (simp add: last)
    with step null that show ?thesis by (auto simp: cols column_of_def)
  qed
  moreover have "seg (offset_at os e k) (offset_at os e (k + 1)) e = v" if "k < n" "cols ! k = Some v" for k v
    using that by (simp add: cols column_of_def split: if_splits)
  moreover have "value_start_of h n \<le> length e" "offset_at os e 0 = value_start_of h n" "offset_at os e n = length e"
    using v by blast+
  ultimately show ?R unfolding columns_at_def Let_def n os [symmetric] by blast
next
  assume R: ?R
  then have n: "length cols = n" by simp
  define os where "os = offsets_start_of h n"
  have c: "value_start_of h n \<le> length e" "seg h os e = null_bitmap cols" "offset_at os e 0 = value_start_of h n"
      "offset_at os e n = length e"
    and step: "\<forall>k < n. offset_at os e (k + 1) = offset_at os e k + value_length (cols ! k)"
    and val: "\<forall>k < n. \<forall>v. cols ! k = Some v \<longrightarrow> seg (offset_at os e k) (offset_at os e (k + 1)) e = v"
    using R n by (auto simp: columns_at_def Let_def os_def)
  have nulls: "\<forall>i < n. is_null h e i = (cols ! i = None)"
    and mask: "n mod 8 \<noteq> 0 \<longrightarrow> e ! (h + null_bitmap_length n - 1) AND NOT (push_bit (n mod 8) 1 - 1) = 0"
    using c(2) unfolding os_def bitmap_in_buffer [OF c(1) n] by blast+
  have "validate_layout h e n = Inr os"
    unfolding validate_layout_iff using c mask step nulls by (auto simp: os_def)
  moreover have "cols = map (column_of h e os) [0..<n]"
  proof (rule nth_equalityI)
    fix k
    assume "k < length cols"
    with n nulls val show "cols ! k = map (column_of h e os) [0..<n] ! k" by (cases "cols ! k") (auto simp: column_of_def)
  qed (simp add: n)
  ultimately show ?L by blast
qed

section \<open>Columns in a buffer are their image\<close>

lemma offset_table_simps:
  "offset_table [] = []" "offset_table (x # xs) = to_le_bytes (word_of_nat x :: u32) @ offset_table xs"
  "offset_table (xs @ ys) = offset_table xs @ offset_table ys"
  by (simp_all add: offset_table_def)

lemma seg_offset_table: "a + 4 * c \<le> length e \<Longrightarrow> seg a (a + 4 * c) e = offset_table (map (offset_at a e) [0..<c])"
proof (induction c)
  case (Suc c)
  have "seg a (a + 4 * Suc c) e = seg a (a + 4 * c) e @ seg (a + 4 * c) (a + 4 * c + 4) e"
    using seg_split [of a "a + 4 * c" "a + 4 * c + 4" e] by (simp add: add.commute add.left_commute)
  moreover have "to_le_bytes (word_of_nat (offset_at a e c) :: u32) = seg (a + 4 * c) (a + 4 * c + 4) e"
    using Suc.prems by (simp add: offset_at_def word_of_nat_unat mult.commute)
  ultimately show ?case using Suc by (simp add: offset_table_def)
qed (simp add: seg_def offset_table_def)

lemma offset_table_at:
  assumes "k < length xs" "xs ! k < 2 ^ 32"
  shows "offset_at (length pre) (pre @ offset_table xs @ post) k = xs ! k"
proof -
  have "offset_table xs = offset_table (take k xs) @ to_le_bytes (word_of_nat (xs ! k) :: u32) @ offset_table (drop (Suc k) xs)"
    by (subst id_take_nth_drop [OF assms(1)]) (simp only: offset_table_simps)
  then have "seg (length pre + k * 4) (length pre + k * 4 + 4) (pre @ offset_table xs @ post) = to_le_bytes (word_of_nat (xs ! k) :: u32)"
    using assms(1) by (simp add: seg_def)
  with assms(2) show ?thesis by (simp add: offset_at_def unat_word_of_nat)
qed

lemma offsets_from_nth: "k \<le> length cols \<Longrightarrow> offsets_from o1 cols ! k = o1 + sum_list (map value_length (take k cols))"
proof (induction o1 cols arbitrary: k rule: offsets_from.induct)
  case (2 o1 c cols)
  then show ?case by (cases k) simp_all
qed simp

lemma offsets_recurrence:
  assumes "f 0 = o1" "\<forall>k < length cols. f (k + 1) = f k + value_length (cols ! k)"
  shows "map f [0..<length cols + 1] = offsets_from o1 cols"
proof (rule nth_equalityI)
  fix i
  assume "i < length (map f [0..<length cols + 1])"
  then have "i \<le> length cols" by simp
  then have "f i = o1 + sum_list (map value_length (take i cols))"
    by (induction i) (use assms in \<open>auto simp: take_Suc_conv_app_nth\<close>)
  with \<open>i \<le> length cols\<close> show "map f [0..<length cols + 1] ! i = offsets_from o1 cols ! i"
    by (simp add: offsets_from_nth del: upt_Suc)
qed simp

lemma seg_chain:
  fixes f :: "nat \<Rightarrow> nat"
  shows "\<forall>k < n. f k \<le> f (k + 1) \<Longrightarrow> seg (f 0) (f n) e = concat (map (\<lambda>k. seg (f k) (f (k + 1)) e) [0..<n])"
proof (induction n)
  case (Suc n)
  then have "seg (f 0) (f (Suc n)) e = seg (f 0) (f n) e @ seg (f n) (f (n + 1)) e"
    using stepwise_mono [of n f 0 n] by (subst seg_split) auto
  with Suc show ?case by simp
qed (simp add: seg_def)

lemma value_bytes_segs:
  assumes "\<forall>k < length cols. f (k + 1) = f k + value_length (cols ! k)"
    and "\<forall>k < length cols. \<forall>v. cols ! k = Some v \<longrightarrow> seg (f k) (f (k + 1)) e = v"
  shows "seg (f 0) (f (length cols)) e = value_bytes cols"
proof -
  let ?bytes = "\<lambda>c. case c of None \<Rightarrow> [] | Some v \<Rightarrow> v"
  have "seg (f k) (f (k + 1)) e = ?bytes (cols ! k)" if "k < length cols" for k
    using assms that by (cases "cols ! k") (auto simp: seg_def)
  then have "map (\<lambda>k. seg (f k) (f (k + 1)) e) [0..<length cols] = map ?bytes cols"
    by (intro nth_equalityI) simp_all
  moreover have "seg (f 0) (f (length cols)) e = concat (map (\<lambda>k. seg (f k) (f (k + 1)) e) [0..<length cols])"
    by (rule seg_chain) (use assms(1) in simp)
  ultimately show ?thesis by (simp only: value_bytes_def)
qed

lemma columns_at_image:
  assumes "columns_at h e cols" shows "h \<le> length e \<and> drop h e = columns_image h cols"
proof -
  let ?n = "length cols"
  define os vs off where "os = offsets_start_of h ?n" and "vs = value_start_of h ?n" and "off = offset_at os e"
  have c: "vs \<le> length e" "seg h os e = null_bitmap cols" "off 0 = vs" "off ?n = length e"
    and step: "\<forall>k < ?n. off (k + 1) = off k + value_length (cols ! k)"
    and val: "\<forall>k < ?n. \<forall>v. cols ! k = Some v \<longrightarrow> seg (off k) (off (k + 1)) e = v"
    using assms by (auto simp: columns_at_def Let_def os_def vs_def off_def)
  have vs: "vs = os + 4 * (?n + 1)" "h \<le> os" by (simp_all add: vs_def os_def value_start_of_def offsets_start_of_def)
  have "seg os vs e = offset_table (map off [0..<?n + 1])"
    using seg_offset_table [of os "?n + 1" e] c(1) by (simp only: vs off_def)
  then have table: "seg os vs e = offset_table (offsets_from vs cols)" using offsets_recurrence [OF c(3) step] by simp
  have values': "seg vs (length e) e = value_bytes cols" using value_bytes_segs [OF step val] c(3,4) by simp
  have "drop h e = seg h (length e) e" using c(1) vs by (simp add: seg_tail)
  also have "\<dots> = seg h os e @ seg os vs e @ seg vs (length e) e"
    using c(1) vs seg_split [of h os "length e" e] seg_split [of os vs "length e" e] by simp
  finally show ?thesis using c(1,2) table values' vs by (simp add: columns_image_def vs_def)
qed

lemma image_columns_at:
  assumes "h \<le> length e" "drop h e = columns_image h cols" "length e < 2 ^ 32"
  shows "columns_at h e cols"
proof -
  let ?n = "length cols"
  define os vs where "os = offsets_start_of h ?n" and "vs = value_start_of h ?n"
  define pre where "pre = take h e @ null_bitmap cols"
  have e: "e = pre @ offset_table (offsets_from vs cols) @ value_bytes cols"
    using append_take_drop_id [of h e] assms(2) by (simp add: columns_image_def vs_def pre_def)
  have pre: "length pre = os" using assms(1) by (simp add: pre_def os_def offsets_start_of_def)
  have vs: "vs = os + 4 * (?n + 1)" by (simp add: vs_def os_def value_start_of_def)
  have len: "length e = vs + sum_list (map value_length cols)" by (subst e) (simp add: pre vs)
  have part: "sum_list (map value_length (take k cols)) \<le> sum_list (map value_length cols)" for k
    by (subst (2) append_take_drop_id [of k cols, symmetric]) (simp only: map_append sum_list_append le_add1)
  have off: "offset_at os e k = vs + sum_list (map value_length (take k cols))" if "k \<le> ?n" for k
  proof -
    have o1: "offsets_from vs cols ! k = vs + sum_list (map value_length (take k cols))" by (rule offsets_from_nth [OF that])
    with part [of k] len assms(3) have "offsets_from vs cols ! k < 2 ^ 32" by linarith
    from offset_table_at [OF _ this, of pre "value_bytes cols"] that show ?thesis by (simp add: o1 pre flip: e)
  qed
  have "seg (offset_at os e k) (offset_at os e (k + 1)) e = v" if "k < ?n" "cols ! k = Some v" for k v
  proof -
    have "cols = take k cols @ Some v # drop (Suc k) cols" using id_take_nth_drop [OF that(1)] that(2) by simp
    then have "value_bytes cols = value_bytes (take k cols) @ v @ value_bytes (drop (Suc k) cols)"
      by (metis (no_types, lifting) concat_append map_append value_bytes_def value_bytes_simps(3))
    then have "e = (pre @ offset_table (offsets_from vs cols) @ value_bytes (take k cols)) @ v @ value_bytes (drop (Suc k) cols)"
      by (subst e) simp
    moreover have "length (pre @ offset_table (offsets_from vs cols) @ value_bytes (take k cols)) = offset_at os e k"
      using off [of k] that(1) by (simp add: pre vs)
    moreover have "offset_at os e (k + 1) = offset_at os e k + length v"
      using off [of k] off [of "k + 1"] that by (simp add: take_Suc_conv_app_nth)
    ultimately show ?thesis by (metis append_eq_conv_conj seg_def add_diff_cancel_left')
  qed
  moreover have "seg h os e = null_bitmap cols"
    using assms(1) pre by (subst e) (simp add: pre_def seg_def)
  moreover have "offset_at os e (k + 1) = offset_at os e k + value_length (cols ! k)" if "k < ?n" for k
    using off [of k] off [of "k + 1"] that by (simp add: take_Suc_conv_app_nth)
  ultimately show ?thesis
    using off [of 0] off [of ?n] len by (simp add: columns_at_def Let_def os_def [symmetric] vs_def [symmetric])
qed

text \<open>The decoder accepts exactly the image of the columns that it returns.\<close>

lemma decode_columns_iff:
  assumes "h \<le> length e" "length e < 2 ^ 32"
  shows "(attempt (validate_layout h e n) (\<lambda>os. collect_columns (column_at h os e n) [0..<n]) = Inr cols)
    = (length cols = n \<and> e = take h e @ columns_image h cols)"
proof -
  have "(e = take h e @ columns_image h cols) = (drop h e = columns_image h cols)"
    using append_take_drop_id [of h e] by (metis same_append_eq)
  then show ?thesis
    unfolding decode_columns_map columns_at_iff using columns_at_image image_columns_at assms by blast
qed

end
