(* ===== verification/RowCodec.thy ===== *)
theory RowCodec
  imports RowColumns
begin

text \<open>
  Row tuples, row records, row-version pointers and blob references: each codec is canonical, and
  every way to obtain a row version keeps its invariant.
\<close>

section \<open>Row tuples\<close>

definition wf_tuple :: "columns \<Rightarrow> bool" where
  "wf_tuple cols = (cols \<noteq> [] \<and> length cols < 2 ^ 16)"

definition tuple_head :: "columns \<Rightarrow> bytes" where
  "tuple_head cols = ROW_TUPLE_MAGIC @ to_le_bytes (word_of_nat (columns_length 16 cols) :: u32)
     @ to_le_bytes (word_of_nat (length cols) :: u16) @ replicate 2 0"

lemma length_ROW_TUPLE_MAGIC [simp]: "length ROW_TUPLE_MAGIC = 8"
  by (simp add: ROW_TUPLE_MAGIC_def)

lemma length_tuple_head [simp]: "length (tuple_head cols) = 16"
  by (simp add: tuple_head_def)

lemma columns_length_ge: "h + 4 \<le> columns_length h cols"
  by (simp add: columns_length_def value_start_of_def offsets_start_of_def)

lemma tuple_frame:
  assumes "length m = 8" "length t = 4" "length c = 2"
  shows "put 12 c (put 8 t (put 0 m (replicate (16 + n) 0))) = (m @ t @ c @ replicate 2 0) @ replicate n 0"
proof -
  have "put 12 c (put 8 t (put 0 m (replicate (16 + n) 0))) = (((m @ t) @ c) @ replicate (2 + n) 0)"
    by (simp add: put_zeros_start put_zeros assms append_assoc [symmetric] del: append_assoc replicate_Suc)
  then show ?thesis by (simp only: replicate_add append_assoc)
qed

lemma tuple_encode_iff:
  "(tuple_encode cols = Inr e)
    = (length cols < 2 ^ 16 \<and> columns_length 16 cols < 2 ^ 32 \<and> e = tuple_head cols @ columns_image 16 cols)"
proof -
  have n: "columns_length 16 cols = 16 + (columns_length 16 cols - 16)" using columns_length_ge [of 16 cols] by simp
  have frame: "put 12 (to_le_bytes (word_of_nat (length cols) :: u16)) (put 8 (to_le_bytes (word_of_nat (columns_length 16 cols) :: u32))
      (put 0 ROW_TUPLE_MAGIC (replicate (columns_length 16 cols) 0)))
    = tuple_head cols @ replicate (columns_length 16 cols - 16) 0"
    unfolding tuple_head_def by (subst (2) n, subst tuple_frame) simp_all
  show ?thesis
    using encode_columns_image [of "tuple_head cols" 16 cols]
    by (auto simp: tuple_encode_def Let_def row_sizes frame)
qed

lemma tuple_view_value_eq: "tuple_view_value e (n, os) = column_at 16 os e n"
  by (rule ext) (simp add: tuple_view_value_def row_sizes)

lemma tuple_decode_iff: "(tuple_decode e = Inr cols) = (wf_tuple cols \<and> tuple_encode cols = Inr e)"
proof -
  let ?n = "unat (from_le_bytes (seg 12 14 e) :: u16)" and ?t = "from_le_bytes (seg 8 12 e) :: u32"
  have dec: "(tuple_decode e = Inr cols)
    = (16 \<le> length e \<and> seg 0 8 e = ROW_TUPLE_MAGIC \<and> seg 14 16 e = [0, 0] \<and> unat ?t = length e \<and> ?n \<noteq> 0
       \<and> attempt (validate_layout 16 e ?n) (\<lambda>os. collect_columns (column_at 16 os e ?n) [0..<?n]) = Inr cols)"
    by (auto simp: tuple_decode_def tuple_view_decode_def tuple_validate_layout_def tuple_view_value_eq row_sizes Let_def
        attempt_eq_Inr not_less split: if_splits)
  have head: "(take 16 e = tuple_head cols)
      = (seg 0 8 e = ROW_TUPLE_MAGIC \<and> seg 14 16 e = [0, 0] \<and> ?t = word_of_nat (columns_length 16 cols)
         \<and> from_le_bytes (seg 12 14 e) = (word_of_nat (length cols) :: u16))" if "16 \<le> length e"
  proof -
    have "take 16 e = seg 0 16 e" by (simp add: seg_def)
    also have "\<dots> = seg 0 8 e @ seg 8 12 e @ seg 12 14 e @ seg 14 16 e" by (simp flip: seg_split)
    finally have parts: "take 16 e = seg 0 8 e @ seg 8 12 e @ seg 12 14 e @ seg 14 16 e" .
    have "(?t = t) = (seg 8 12 e = to_le_bytes t)" for t using that by (intro from_le_bytes_iff) simp_all
    moreover have "(from_le_bytes (seg 12 14 e) = (c :: u16)) = (seg 12 14 e = to_le_bytes c)" for c
      using that by (intro from_le_bytes_iff) simp_all
    ultimately show ?thesis using that unfolding parts
      by (auto simp: tuple_head_def numeral_2_eq_2 append_eq_append_conv)
  qed
  show ?thesis
  proof (intro iffI conjI)
    assume "tuple_decode e = Inr cols"
    with dec have h: "16 \<le> length e" "seg 0 8 e = ROW_TUPLE_MAGIC" "seg 14 16 e = [0, 0]" "unat ?t = length e" "?n \<noteq> 0"
      and cols: "attempt (validate_layout 16 e ?n) (\<lambda>os. collect_columns (column_at 16 os e ?n) [0..<?n]) = Inr cols"
      by blast+
    have small: "length e < 2 ^ 32" using h(4) unat_u32_less [of ?t] by simp
    have n: "length cols = ?n" and e: "e = take 16 e @ columns_image 16 cols"
      using cols unfolding decode_columns_iff [OF h(1) small] by blast+
    have len: "length e = columns_length 16 cols"
      using arg_cong [OF e, of length] h(1) length_columns_image [of 16 cols] by simp
    show "wf_tuple cols" using h(5) n unat_u16_less [of "from_le_bytes (seg 12 14 e)"] by (auto simp: wf_tuple_def)
    have "?t = word_of_nat (columns_length 16 cols)" by (simp flip: len h(4) add: word_of_nat_unat)
    moreover have "from_le_bytes (seg 12 14 e) = (word_of_nat (length cols) :: u16)" by (simp add: n word_of_nat_unat)
    ultimately have "take 16 e = tuple_head cols" using head h(1-3) by blast
    with e n len small show "tuple_encode cols = Inr e"
      using unat_u16_less [of "from_le_bytes (seg 12 14 e)"] by (simp add: tuple_encode_iff)
  next
    assume a: "wf_tuple cols \<and> tuple_encode cols = Inr e"
    then have e: "e = tuple_head cols @ columns_image 16 cols" and small: "columns_length 16 cols < 2 ^ 32"
      and cols: "cols \<noteq> []" "length cols < 2 ^ 16" by (simp_all add: wf_tuple_def tuple_encode_iff)
    have len: "length e = columns_length 16 cols" using length_columns_image [of 16 cols] by (simp add: e)
    have h: "16 \<le> length e" "take 16 e = tuple_head cols" by (simp_all add: e)
    then have parts: "seg 0 8 e = ROW_TUPLE_MAGIC" "seg 14 16 e = [0, 0]" "?t = word_of_nat (columns_length 16 cols)"
      "from_le_bytes (seg 12 14 e) = (word_of_nat (length cols) :: u16)" using head by blast+
    have "unat ?t = length e" "?n = length cols"
      using small cols(2) by (simp_all add: parts(3,4) len unat_word_of_nat)
    moreover have "attempt (validate_layout 16 e (length cols)) (\<lambda>os. collect_columns (column_at 16 os e (length cols)) [0..<length cols]) = Inr cols"
      by (subst decode_columns_iff) (use small len h e in \<open>simp_all\<close>)
    ultimately show "tuple_decode e = Inr cols" unfolding dec using h(1) parts(1,2) cols(1) by simp
  qed
qed

interpretation row_tuple: canonical_codec wf_tuple tuple_encode tuple_decode
  by unfold_locales (auto simp: tuple_decode_iff)

section \<open>Row records\<close>

definition wf_row :: "row_record \<Rightarrow> bool" where
  "wf_row row = (validate_window (row_begin_csn row) (row_end_csn row) = Inr ()
     \<and> (if row_tombstone row then row_values row = [] else wf_tuple (row_values row)))"

definition row_length :: "row_record \<Rightarrow> nat" where
  "row_length row = (if row_tombstone row then 40 else columns_length 40 (row_values row))"

definition raw_end :: "csn option \<Rightarrow> u64" where
  "raw_end end_csn = (case end_csn of None \<Rightarrow> OPEN_END_CSN | Some e \<Rightarrow> get e)"

definition row_head :: "row_record \<Rightarrow> bytes" where
  "row_head row = to_le_bytes (word_of_nat (row_length row) :: u32) @ to_le_bytes (of_bool (row_tombstone row) :: u16)
     @ to_le_bytes (word_of_nat (length (row_values row)) :: u16) @ to_le_bytes (get (row_id row))
     @ to_le_bytes (get (row_begin_csn row)) @ to_le_bytes (raw_end (row_end_csn row))"

definition row_body :: "row_record \<Rightarrow> bytes" where
  "row_body row = (if row_tombstone row then [] else columns_image 40 (row_values row))"

lemma length_row_head [simp]: "length (row_head row) = 40"
  by (simp add: row_head_def)

lemma length_row_body: "40 + length (row_body row) = row_length row"
  using length_columns_image [of 40 "row_values row"] by (simp add: row_body_def row_length_def)

lemma row_frame:
  assumes "length t = 4" "length f = 2" "length c = 2" "length i = 16" "length b = 8" "length d = 8"
  shows "put 32 d (put 24 b (put 8 i (put 4 f (put 0 t (replicate 40 0))))) = t @ f @ replicate 2 0 @ i @ b @ d"
    and "put 32 d (put 24 b (put 8 i (put 6 c (put 0 t (replicate (40 + n) 0)))))
      = (t @ replicate 2 0 @ c @ i @ b @ d) @ replicate n 0"
proof -
  have "put 32 d (put 24 b (put 8 i (put 4 f (put 0 t (replicate 40 0))))) = (((((t @ f) @ replicate 2 0) @ i) @ b) @ d)"
    by (simp add: put_zeros_start put_zeros assms append_assoc [symmetric] del: append_assoc replicate_Suc)
  then show "put 32 d (put 24 b (put 8 i (put 4 f (put 0 t (replicate 40 0))))) = t @ f @ replicate 2 0 @ i @ b @ d" by simp
  have "put 32 d (put 24 b (put 8 i (put 6 c (put 0 t (replicate (40 + n) 0)))))
      = ((((((t @ replicate 2 0) @ c) @ i) @ b) @ d) @ replicate n 0)"
    by (simp add: put_zeros_start put_zeros assms append_assoc [symmetric] del: append_assoc replicate_Suc)
  then show "put 32 d (put 24 b (put 8 i (put 6 c (put 0 t (replicate (40 + n) 0)))))
      = (t @ replicate 2 0 @ c @ i @ b @ d) @ replicate n 0" by simp
qed

lemma row_encode_iff:
  assumes "wf_row row"
  shows "(row_encode row = Inr e) = (row_length row < 2 ^ 32 \<and> e = row_head row @ row_body row)"
proof (cases "row_tombstone row")
  case True
  have "put 32 (to_le_bytes (raw_end (row_end_csn row))) (put 24 (to_le_bytes (get (row_begin_csn row)))
      (put 8 (to_le_bytes (get (row_id row))) (put 4 (to_le_bytes (1 :: u16)) (put 0 (to_le_bytes (40 :: u32)) (replicate 40 0)))))
    = row_head row"
    using assms True unfolding row_head_def row_length_def
    by (subst row_frame(1) [where c = "replicate 2 0"]) (simp_all add: wf_row_def)
  with True assms show ?thesis
    by (auto simp: row_encode_def encode_identity_and_window_def row_sizes wf_row_def row_body_def row_length_def
        Let_def raw_end_def)
next
  case False
  let ?n = "columns_length 40 (row_values row)"
  have n: "?n = 40 + (?n - 40)" using columns_length_ge [of 40 "row_values row"] by simp
  have frame: "put 32 (to_le_bytes (raw_end (row_end_csn row))) (put 24 (to_le_bytes (get (row_begin_csn row)))
      (put 8 (to_le_bytes (get (row_id row))) (put 6 (to_le_bytes (word_of_nat (length (row_values row)) :: u16))
      (put 0 (to_le_bytes (word_of_nat ?n :: u32)) (replicate ?n 0)))))
    = row_head row @ replicate (?n - 40) 0"
    using False unfolding row_head_def row_length_def
    by (subst (2) n, subst row_frame(2) [where f = "replicate 2 0"]) simp_all
  show ?thesis
    using False assms frame encode_columns_image [of "row_head row" 40 "row_values row"]
    by (auto simp: row_encode_def encode_identity_and_window_def row_sizes wf_row_def wf_tuple_def row_body_def
        row_length_def Let_def raw_end_def)
qed

lemma flags_iff: "((f :: u16) AND NOT 1 = 0) = (f = of_bool (f AND 1 \<noteq> 0))"
proof -
  have one: "(f AND 1 \<noteq> 0) = bit f 0" using bit_iff_and_push_bit_not_eq_0 [of f 0] by simp
  have "bit (f AND NOT 1) n = (bit f n \<and> n \<noteq> 0)" for n
    by (auto simp: bit_and_iff bit_not_iff bit_1_iff dest: bit_imp_le_length)
  then have "(f AND NOT 1 = 0) = (\<forall>n. bit f n \<longrightarrow> n = 0)" using bit_eq_iff [of "f AND NOT 1" 0] by auto
  moreover have "(f = of_bool (bit f 0)) = (\<forall>n. bit f n \<longrightarrow> n = 0)"
    unfolding bit_eq_iff [of f "of_bool (bit f 0)"] bit_of_bool_iff
    using bit_imp_le_length [where w = f] by auto
  ultimately show ?thesis by (simp only: one)
qed

lemma raw_end_iff:
  "((if raw = OPEN_END_CSN then Inr None
      else map_err (\<lambda>_. RecordZeroIdentity) (attempt (identity_new ''Csn'' raw) (\<lambda>e. Inr (Some e)))) = Inr end_csn
    \<and> validate_window b end_csn = Inr ())
   = (raw = raw_end end_csn \<and> validate_window b end_csn = Inr ())"
  by (cases end_csn) (auto simp: raw_end_def validate_window_def result_simps split: if_splits)

lemma row_head_iff:
  assumes "40 \<le> length e"
  shows "(take 40 e = row_head row)
    = (from_le_bytes (seg 0 4 e) = (word_of_nat (row_length row) :: u32)
       \<and> from_le_bytes (seg 4 6 e) = (of_bool (row_tombstone row) :: u16)
       \<and> from_le_bytes (seg 6 8 e) = (word_of_nat (length (row_values row)) :: u16)
       \<and> from_le_bytes (seg 8 24 e) = get (row_id row) \<and> from_le_bytes (seg 24 32 e) = get (row_begin_csn row)
       \<and> from_le_bytes (seg 32 40 e) = raw_end (row_end_csn row))"
proof -
  have "take 40 e = seg 0 40 e" by (simp add: seg_def)
  also have "\<dots> = seg 0 4 e @ seg 4 6 e @ seg 6 8 e @ seg 8 24 e @ seg 24 32 e @ seg 32 40 e" by (simp flip: seg_split)
  finally have parts: "take 40 e = seg 0 4 e @ seg 4 6 e @ seg 6 8 e @ seg 8 24 e @ seg 24 32 e @ seg 32 40 e" .
  have "(from_le_bytes (seg 0 4 e) = (w :: u32)) = (seg 0 4 e = to_le_bytes w)"
    "(from_le_bytes (seg 4 6 e) = (x :: u16)) = (seg 4 6 e = to_le_bytes x)"
    "(from_le_bytes (seg 6 8 e) = (x :: u16)) = (seg 6 8 e = to_le_bytes x)"
    "(from_le_bytes (seg 8 24 e) = (y :: u128)) = (seg 8 24 e = to_le_bytes y)"
    "(from_le_bytes (seg 24 32 e) = (z :: u64)) = (seg 24 32 e = to_le_bytes z)"
    "(from_le_bytes (seg 32 40 e) = (z :: u64)) = (seg 32 40 e = to_le_bytes z)" for w x y z
    using assms by (intro from_le_bytes_iff; simp)+
  then show ?thesis unfolding parts row_head_def using assms by (simp add: append_eq_append_conv)
qed

lemma row_view_value_regular:
  "\<not> rv_tombstone v \<Longrightarrow> row_view_value v = column_at 40 (rv_offsets_start v) (rv_bytes v) (rv_column_count v)"
  by (rule ext) (simp add: row_view_value_def row_sizes)

lemma row_decode_parts:
  fixes e
  defines "n \<equiv> unat (from_le_bytes (seg 6 8 e) :: u16)"
  shows "(row_decode e = Inr row)
    = (40 \<le> length e \<and> unat (from_le_bytes (seg 0 4 e) :: u32) = length e
       \<and> from_le_bytes (seg 4 6 e) = (of_bool (row_tombstone row) :: u16)
       \<and> from_le_bytes (seg 8 24 e) = get (row_id row) \<and> from_le_bytes (seg 24 32 e) = get (row_begin_csn row)
       \<and> from_le_bytes (seg 32 40 e) = raw_end (row_end_csn row)
       \<and> validate_window (row_begin_csn row) (row_end_csn row) = Inr ()
       \<and> (if row_tombstone row then row_values row = [] \<and> n = 0 \<and> length e = 40
          else n \<noteq> 0 \<and> attempt (validate_layout 40 e n) (\<lambda>os. collect_columns (column_at 40 os e n) [0..<n]) = Inr (row_values row)))"
proof -
  define f :: u16 where "f = from_le_bytes (seg 4 6 e)"
  let ?decode_end = "\<lambda>raw. if raw = OPEN_END_CSN then Inr None
      else map_err (\<lambda>_. RecordZeroIdentity) (attempt (identity_new ''Csn'' raw) (\<lambda>e. Inr (Some e)))"
  have "(row_decode e = Inr row)
    = (40 \<le> length e \<and> unat (from_le_bytes (seg 0 4 e) :: u32) = length e \<and> f AND NOT 1 = 0
       \<and> from_le_bytes (seg 8 24 e) = get (row_id row) \<and> from_le_bytes (seg 24 32 e) = get (row_begin_csn row)
       \<and> (?decode_end (from_le_bytes (seg 32 40 e)) = Inr (row_end_csn row)
          \<and> validate_window (row_begin_csn row) (row_end_csn row) = Inr ())
       \<and> row_tombstone row = (f AND 1 \<noteq> 0)
       \<and> (if row_tombstone row then row_values row = [] \<and> n = 0 \<and> length e = 40
          else n \<noteq> 0 \<and> attempt (validate_layout 40 e n) (\<lambda>os. collect_columns (column_at 40 os e n) [0..<n]) = Inr (row_values row)))"
    unfolding row_decode_def row_view_decode_def row_sizes Let_def f_def [symmetric] n_def [symmetric]
    unfolding attempt_assoc attempt_if attempt_Inl attempt_Inr row_view.simps
    by (cases row; cases "f AND 1 = 0")
      (auto simp: attempt_eq_Inr map_err_eq_Inr if_Inl_eq_Inr identity_new_Inr not_less row_view_value_regular
        simp del: map_err_simps)
  also have "\<dots> = (40 \<le> length e \<and> unat (from_le_bytes (seg 0 4 e) :: u32) = length e \<and> f = of_bool (row_tombstone row)
       \<and> from_le_bytes (seg 8 24 e) = get (row_id row) \<and> from_le_bytes (seg 24 32 e) = get (row_begin_csn row)
       \<and> from_le_bytes (seg 32 40 e) = raw_end (row_end_csn row)
       \<and> validate_window (row_begin_csn row) (row_end_csn row) = Inr ()
       \<and> (if row_tombstone row then row_values row = [] \<and> n = 0 \<and> length e = 40
          else n \<noteq> 0 \<and> attempt (validate_layout 40 e n) (\<lambda>os. collect_columns (column_at 40 os e n) [0..<n]) = Inr (row_values row)))"
  proof -
    have "(f AND NOT 1 = 0 \<and> row_tombstone row = (f AND 1 \<noteq> 0)) = (f = of_bool (row_tombstone row))"
      using flags_iff [of f] by auto
    then show ?thesis unfolding raw_end_iff by blast
  qed
  finally show ?thesis unfolding f_def .
qed

lemma row_decode_encoded:
  assumes wf: "wf_row row" and enc: "row_encode row = Inr e"
  shows "row_decode e = Inr row"
proof -
  have small: "row_length row < 2 ^ 32" and e: "e = row_head row @ row_body row"
    using enc unfolding row_encode_iff [OF wf] by blast+
  have len: "length e = row_length row" using length_row_body [of row] by (simp add: e)
  have head: "40 \<le> length e" "take 40 e = row_head row" by (simp_all add: e)
  note parts = head(2) [unfolded row_head_iff [OF head(1)]]
  let ?n = "unat (from_le_bytes (seg 6 8 e) :: u16)"
  have n: "?n = length (row_values row)"
    using wf parts by (auto simp: wf_row_def wf_tuple_def unat_word_of_nat split: if_splits)
  have total: "unat (from_le_bytes (seg 0 4 e) :: u32) = length e"
    using parts small by (simp add: len unat_word_of_nat)
  have window: "validate_window (row_begin_csn row) (row_end_csn row) = Inr ()" using wf by (simp add: wf_row_def)
  show ?thesis
  proof (cases "row_tombstone row")
    case True
    with wf n len parts total window head(1) show ?thesis
      unfolding row_decode_parts by (simp add: wf_row_def row_length_def)
  next
    case False
    with wf have ne: "row_values row \<noteq> []" by (simp add: wf_row_def wf_tuple_def)
    have body: "e = take 40 e @ columns_image 40 (row_values row)" using False by (simp add: e row_body_def)
    have "attempt (validate_layout 40 e ?n) (\<lambda>os. collect_columns (column_at 40 os e ?n) [0..<?n]) = Inr (row_values row)"
      unfolding n by (subst decode_columns_iff) (use head(1) small len body in simp_all)
    with False n ne parts total window head(1) show ?thesis unfolding row_decode_parts by simp
  qed
qed

lemma row_encode_decoded:
  assumes "row_decode e = Inr row" shows "wf_row row \<and> row_encode row = Inr e"
proof -
  let ?n = "unat (from_le_bytes (seg 6 8 e) :: u16)"
  note parts = assms [unfolded row_decode_parts]
  have head: "40 \<le> length e" and total: "unat (from_le_bytes (seg 0 4 e) :: u32) = length e" using parts by blast+
  have small: "length e < 2 ^ 32" using total unat_u32_less [of "from_le_bytes (seg 0 4 e)"] by simp
  have n16: "?n < 2 ^ 16" using unat_u16_less [of "from_le_bytes (seg 6 8 e)"] by simp
  have body: "length (row_values row) = ?n \<and> e = take 40 e @ row_body row \<and> wf_row row"
  proof (cases "row_tombstone row")
    case True
    with parts show ?thesis by (simp add: row_body_def wf_row_def)
  next
    case False
    with parts have "attempt (validate_layout 40 e ?n) (\<lambda>os. collect_columns (column_at 40 os e ?n) [0..<?n]) = Inr (row_values row)"
      by simp
    then have "length (row_values row) = ?n" "e = take 40 e @ columns_image 40 (row_values row)"
      unfolding decode_columns_iff [OF head small] by blast+
    with False parts n16 show ?thesis by (auto simp: row_body_def wf_row_def wf_tuple_def)
  qed
  then have n: "length (row_values row) = ?n" and e: "e = take 40 e @ row_body row" and wf: "wf_row row" by blast+
  have len: "length e = row_length row"
    using arg_cong [OF e, of length] head length_row_body [of row] by simp
  have "from_le_bytes (seg 0 4 e) = (word_of_nat (row_length row) :: u32)"
    by (simp add: word_of_nat_unat flip: len total)
  moreover have "from_le_bytes (seg 6 8 e) = (word_of_nat (length (row_values row)) :: u16)" by (simp add: n word_of_nat_unat)
  ultimately have "take 40 e = row_head row" unfolding row_head_iff [OF head] using parts by blast
  with e len small wf show ?thesis by (simp add: row_encode_iff)
qed

interpretation row_codec: canonical_codec wf_row row_encode row_decode
  by unfold_locales (auto simp: row_decode_encoded dest: row_encode_decoded)

section \<open>Pointers and blob references\<close>

lemma length_POINTER_MAGIC [simp]: "length ROW_VERSION_POINTER_MAGIC = 8"
  by (simp add: ROW_VERSION_POINTER_MAGIC_def)

lemma row_pointer_image: "row_pointer_encode page = ROW_VERSION_POINTER_MAGIC @ to_le_bytes (get page)"
  by (simp add: row_pointer_encode_def row_sizes put_zeros_start put_zeros)

interpretation row_pointer: canonical_codec "\<lambda>_. True" "\<lambda>p. Inr (row_pointer_encode p) :: record_error + bytes" row_pointer_decode
proof
  show "row_pointer_decode b = Inr x" if "Inr (row_pointer_encode x) = (Inr b :: record_error + bytes)" for x b
    using that by (auto simp: row_pointer_image row_pointer_decode_def row_sizes seg_def result_simps)
  show "True \<and> Inr (row_pointer_encode x) = (Inr b :: record_error + bytes)" if "row_pointer_decode b = Inr x" for x b
  proof -
    have b: "length b = 16" "seg 0 8 b = ROW_VERSION_POINTER_MAGIC" "from_le_bytes (seg 8 16 b) = get x"
      using that by (auto simp: row_pointer_decode_def row_sizes result_simps split: if_splits)
    have "to_le_bytes (get x) = seg 8 16 b" using b(1) by (intro to_le_bytes_eqI b(3)) simp_all
    moreover have "b = seg 0 8 b @ seg 8 16 b" using seg_all [of b] b(1) by (simp flip: seg_split)
    ultimately show ?thesis using b(2) by (simp add: row_pointer_image)
  qed
qed

lemma blob_reference_image:
  "blob_reference_encode b = to_le_bytes (get (blob_id b)) @ to_le_bytes (blob_logical_length b) @ to_be_bytes (blob_digest b)"
  by (simp add: blob_reference_encode_def row_sizes put_zeros_start put_zeros append_assoc [symmetric] del: append_assoc)

interpretation blob_ref: canonical_codec "\<lambda>_. True" "\<lambda>b. Inr (blob_reference_encode b) :: record_error + bytes" blob_reference_decode
proof
  show "blob_reference_decode e = Inr x" if "Inr (blob_reference_encode x) = (Inr e :: record_error + bytes)" for x e
    using that by (auto simp: blob_reference_image blob_reference_decode_def row_sizes seg_def result_simps)
  show "True \<and> Inr (blob_reference_encode x) = (Inr e :: record_error + bytes)" if "blob_reference_decode e = Inr x" for x e
  proof -
    have b: "length e = 56" "from_le_bytes (seg 0 16 e) = get (blob_id x)" "from_le_bytes (seg 16 24 e) = blob_logical_length x"
      "from_be_bytes (seg 24 56 e) = blob_digest x"
      using that by (auto simp: blob_reference_decode_def row_sizes result_simps split: if_splits)
    have "to_le_bytes (get (blob_id x)) = seg 0 16 e" "to_le_bytes (blob_logical_length x) = seg 16 24 e"
      using b(1) by (intro to_le_bytes_eqI b; simp)+
    moreover have "to_be_bytes (blob_digest x) = seg 24 56 e" using b(1) by (simp flip: b(4))
    moreover have "e = seg 0 16 e @ seg 16 24 e @ seg 24 56 e" using seg_all [of e] b(1) by (simp flip: seg_split)
    ultimately show ?thesis by (simp add: blob_reference_image)
  qed
qed

section \<open>Properties of rows\<close>

text \<open>C35. Row records have one encoding: decoding accepts exactly the bytes that encoding writes for a
  row version whose window is valid and which is a tombstone without columns or a row of 1 to 65535
  columns, with null bits, offsets and lengths that agree to the last bit.\<close>

theorem row_record_canonical:
  "(row_decode e = Inr row)
    = (validate_window (row_begin_csn row) (row_end_csn row) = Inr ()
       \<and> (if row_tombstone row then row_values row = [] else row_values row \<noteq> [] \<and> length (row_values row) < 65536)
       \<and> row_encode row = Inr e)"
  using row_codec.dec_iff [of e row] by (auto simp: wf_row_def wf_tuple_def)

text \<open>Typed row tuples have one encoding, for every list of 1 to 65535 columns whose encoding fits
  32 bits.\<close>

theorem row_tuple_canonical:
  "(tuple_decode e = Inr cols) = (cols \<noteq> [] \<and> length cols < 65536 \<and> tuple_encode cols = Inr e)"
  using row_tuple.dec_iff [of e cols] by (auto simp: wf_tuple_def)

text \<open>The rows a program can get hold of: constructed, closed or decoded.\<close>

inductive row_made :: "row_record \<Rightarrow> bool" where
  new: "row_new i begin_csn end_csn cols = Inr row \<Longrightarrow> row_made row"
| tombstone: "row_new_tombstone i begin_csn end_csn = Inr row \<Longrightarrow> row_made row"
| close: "row_made row \<Longrightarrow> row_close_at row end_csn = Inr row' \<Longrightarrow> row_made row'"
| decoded: "row_decode e = Inr row \<Longrightarrow> row_made row"

lemma row_made_wf: "row_made row \<Longrightarrow> wf_row row"
proof (induction rule: row_made.induct)
  case (new i begin_csn end_csn cols row)
  then show ?case by (auto simp: row_new_def wf_row_def wf_tuple_def result_simps)
next
  case (tombstone i begin_csn end_csn row)
  then show ?case by (auto simp: row_new_tombstone_def wf_row_def result_simps)
next
  case (close row end_csn row')
  then show ?case by (auto simp: row_close_at_def wf_row_def result_simps)
next
  case (decoded e row)
  then show ?case using row_encode_decoded by blast
qed

text \<open>C36. Row versions are well typed for life: however a row version was obtained, from a
  constructor, by closing an open version or by decoding, its window is valid, a tombstone has no
  columns and a regular row has 1 to 65535, and unless it is longer than 32 bits can say, it encodes
  and decodes to itself.\<close>

theorem row_versions_well_typed:
  assumes "row_made row"
  shows "validate_window (row_begin_csn row) (row_end_csn row) = Inr ()
    \<and> (if row_tombstone row then row_values row = [] else row_values row \<noteq> [] \<and> length (row_values row) < 65536)
    \<and> (row_length row < 2 ^ 32 \<longrightarrow> (\<exists>e. row_encode row = Inr e \<and> row_decode e = Inr row))"
proof -
  have wf: "wf_row row" by (rule row_made_wf [OF assms])
  moreover have "\<exists>e. row_encode row = Inr e \<and> row_decode e = Inr row" if "row_length row < 2 ^ 32"
    using that row_encode_iff [OF wf] row_decode_encoded [OF wf] by blast
  ultimately show ?thesis by (auto simp: wf_row_def wf_tuple_def)
qed

definition sample_row :: row_record where
  "sample_row = \<lparr>row_id = nz 7, row_begin_csn = nz 3, row_end_csn = Some (nz 9), row_tombstone = False,
     row_values = [Some [1, 2], None, Some []]\<rparr>"

lemma sample_row_made: "row_made sample_row"
proof -
  let ?open = "sample_row\<lparr>row_end_csn := None\<rparr>"
  have "row_new (nz 7) (nz 3) None [Some [1, 2], None, Some []] = Inr ?open"
    by (simp add: row_new_def sample_row_def validate_window_def)
  moreover have "row_close_at ?open (nz 9) = Inr sample_row"
    by (simp add: row_close_at_def sample_row_def validate_window_def OPEN_END_CSN_def)
  ultimately show ?thesis by (blast intro: row_made.intros)
qed

lemma sample_row_length: "row_length sample_row = 59"
  by (simp add: row_length_def sample_row_def columns_length_def value_start_of_def offsets_start_of_def null_bitmap_length_def)

theorem row_versions_well_typed_witness:
  "row_made sample_row \<and> (\<exists>e. row_encode sample_row = Inr e \<and> row_decode e = Inr sample_row)"
  using row_versions_well_typed [OF sample_row_made] sample_row_made sample_row_length by simp

lemma row_view_layout:
  assumes "row_view_decode e = Inr v" "\<not> rv_tombstone v"
  shows "validate_layout 40 e (rv_column_count v) = Inr (rv_offsets_start v) \<and> rv_bytes v = e"
  using assms
  by (auto simp: row_view_decode_def row_sizes Let_def attempt_eq_Inr split: if_splits)

lemma row_decode_view:
  assumes "row_view_decode e = Inr v"
  shows "\<exists>row. row_decode e = Inr row \<and> (\<forall>index. row_view_value v index = row_value row index)
    \<and> (\<forall>snapshot. row_view_visible_at v snapshot = row_visible_at row snapshot)"
proof (cases "rv_tombstone v")
  case True
  with assms show ?thesis
    by (auto simp: row_decode_def row_view_value_def row_value_def row_view_visible_at_def row_visible_at_def
        split: option.splits)
next
  case False
  let ?n = "rv_column_count v" and ?os = "rv_offsets_start v"
  have v: "validate_layout 40 e ?n = Inr ?os" "rv_bytes v = e" using row_view_layout [OF assms False] by auto
  let ?cols = "map (column_of 40 e ?os) [0..<?n]"
  have "collect_columns (column_at 40 ?os e ?n) [0..<?n] = Inr ?cols"
    using decode_columns_map [of 40 e ?n ?cols] v(1) by simp
  with assms False v have "row_decode e = Inr \<lparr>row_id = rv_row_id v, row_begin_csn = rv_begin_csn v, row_end_csn = rv_end_csn v,
      row_tombstone = False, row_values = ?cols\<rparr>" by (simp add: row_decode_def row_view_value_regular)
  moreover have "row_view_value v k = (if k < ?n then Some (case column_of 40 e ?os k of None \<Rightarrow> NullColumn | Some x \<Rightarrow> BytesColumn x) else None)" for k
    using False v column_at_valid [OF v(1)] by (simp add: row_view_value_regular) (simp add: column_at_def)
  ultimately show ?thesis
    by (auto simp: row_value_def row_view_visible_at_def row_visible_at_def split: option.splits)
qed

lemma row_decode_has_view: "row_decode e = Inr row \<Longrightarrow> \<exists>v. row_view_decode e = Inr v"
  by (auto simp: row_decode_def attempt_eq_Inr)

text \<open>C37. The borrowed view and the owned row are the same row: a view is accepted exactly when the owned
  decoder accepts the bytes, it shows the same value in every column, out of range included, and it is
  visible to the same snapshots.\<close>

theorem row_view_agrees:
  "(\<exists>v. row_view_decode e = Inr v) = (\<exists>row. row_decode e = Inr row)
    \<and> (\<forall>v row. row_view_decode e = Inr v \<longrightarrow> row_decode e = Inr row \<longrightarrow>
        (\<forall>index. row_view_value v index = row_value row index)
        \<and> (\<forall>snapshot. row_view_visible_at v snapshot = row_visible_at row snapshot))"
  using row_decode_view [of e] row_decode_has_view [of e] by (metis sum.inject(2))

theorem row_view_agrees_witness:
  "\<exists>e v. row_encode sample_row = Inr e \<and> row_view_decode e = Inr v \<and> row_view_value v 1 = Some NullColumn
    \<and> row_view_value v 0 = Some (BytesColumn [1, 2]) \<and> row_view_value v 3 = None"
proof -
  obtain e where e: "row_encode sample_row = Inr e" "row_decode e = Inr sample_row"
    using row_encode_iff [OF row_made_wf [OF sample_row_made]] row_decode_encoded [OF row_made_wf [OF sample_row_made]]
      sample_row_length by simp
  then obtain v where v: "row_view_decode e = Inr v" using row_view_agrees [of e] by blast
  with e(2) have "\<forall>index. row_view_value v index = row_value sample_row index" using row_view_agrees [of e] by blast
  with e v show ?thesis by (auto simp: row_value_def sample_row_def)
qed

end
