(* ===== verification/Blobs.thy ===== *)
theory Blobs
  imports Records Crypto Directory OrderedMap
begin

text \<open>
  Immutable content-addressed blobs (\<^verbatim>\<open>crates/hyphae-native-blobs/src/lib.rs\<close>): the blob file format, and
  the store that stages blobs in a temporary directory, publishes them by a rename, reads them back
  verified, traces the references that are read and prunes the ones that are not live. The two
  directories are arguments, and so are the outcomes of the file-system calls.
\<close>

section \<open>Blob files\<close>

definition BLOB_HEADER_SIZE :: nat where "BLOB_HEADER_SIZE = 80"
definition MAX_BLOB_SIZE :: nat where "MAX_BLOB_SIZE = 1073741824"
definition BLOB_MAGIC :: bytes where "BLOB_MAGIC = ascii ''HYBLOB01''"

datatype blob_error =
    BlobIo
  | BlobIdentity native_type_error
  | BlobTooLarge nat
  | BlobInvalidPreamble
  | BlobInvalidLength
  | BlobChecksumMismatch
  | BlobIdentityMismatch
  | BlobUnexpectedDirectoryEntry
  | BlobPublicationTargetExists
  | BlobIdentityCollision
  | ReferenceOutsideBoundary blob_id
  | BlobGenerationExhausted
  | InconsistentGeneration
  | ReferenceTraceActive
  | ReferenceTracePoisoned

definition reference_for :: "crypto \<Rightarrow> bytes \<Rightarrow> blob_error + blob_reference" where
  "reference_for C content =
     (if length content > MAX_BLOB_SIZE then Inl (BlobTooLarge (length content))
      else
        let digest = blake3 C content;
            identity = (from_le_bytes (take 16 (to_be_bytes digest)) :: u128);
            identity = (if identity = 0 then 1 else identity)
        in attempt (map_err BlobIdentity (identity_new ''BlobId'' identity)) (\<lambda>i.
           Inr \<lparr>blob_id = i, blob_logical_length = word_of_nat (length content), blob_digest = digest\<rparr>))"

definition blob_checksum :: "crypto \<Rightarrow> bytes \<Rightarrow> u32" where
  "blob_checksum C encoded = crc32c C (put 40 (replicate 4 0) encoded)"

definition encode_blob :: "crypto \<Rightarrow> blob_reference \<Rightarrow> bytes \<Rightarrow> blob_error + bytes" where
  "encode_blob C reference content =
     (if length content > MAX_BLOB_SIZE \<or> word_of_nat (length content) \<noteq> blob_logical_length reference
        \<or> blake3 C content \<noteq> blob_digest reference
      then Inl BlobIdentityMismatch
      else
        attempt (reference_for C content) (\<lambda>r.
        if r \<noteq> reference then Inl BlobIdentityMismatch
        else
          let encoded = replicate (BLOB_HEADER_SIZE + length content) 0;
              encoded = put 0 BLOB_MAGIC encoded;
              encoded = put 8 (to_le_bytes (1 :: u16)) encoded;
              encoded = put 10 (to_le_bytes (80 :: u16)) encoded;
              encoded = put 16 (to_le_bytes (get (blob_id reference))) encoded;
              encoded = put 32 (to_le_bytes (blob_logical_length reference)) encoded;
              encoded = put 48 (to_be_bytes (blob_digest reference)) encoded;
              encoded = put BLOB_HEADER_SIZE content encoded
          in Inr (put 40 (to_le_bytes (blob_checksum C encoded)) encoded)))"

definition decode_blob :: "crypto \<Rightarrow> bytes \<Rightarrow> blob_error + (blob_reference \<times> bytes)" where
  "decode_blob C encoded =
     (if length encoded < BLOB_HEADER_SIZE then Inl BlobInvalidLength
      else if seg 0 8 encoded \<noteq> BLOB_MAGIC \<or> from_le_bytes (seg 8 10 encoded) \<noteq> (1 :: u16)
        \<or> from_le_bytes (seg 10 12 encoded) \<noteq> (80 :: u16) \<or> list_ex (\<lambda>byte. byte \<noteq> 0) (seg 12 16 encoded)
        \<or> list_ex (\<lambda>byte. byte \<noteq> 0) (seg 44 48 encoded)
      then Inl BlobInvalidPreamble
      else
        let logical_length = unat (from_le_bytes (seg 32 40 encoded) :: u64) in
        if logical_length > MAX_BLOB_SIZE \<or> length encoded \<noteq> BLOB_HEADER_SIZE + logical_length
        then Inl BlobInvalidLength
        else if blob_checksum C encoded \<noteq> from_le_bytes (seg 40 44 encoded) then Inl BlobChecksumMismatch
        else
          attempt (map_err BlobIdentity (identity_new ''BlobId'' (from_le_bytes (seg 16 32 encoded)))) (\<lambda>i.
          let content = drop BLOB_HEADER_SIZE encoded;
              reference = \<lparr>blob_id = i, blob_logical_length = word_of_nat logical_length,
                blob_digest = from_be_bytes (seg 48 80 encoded)\<rparr>
          in attempt (reference_for C content) (\<lambda>r.
             if r \<noteq> reference then Inl BlobIdentityMismatch else Inr (reference, content))))"

section \<open>File names\<close>

definition hex_pair :: "u8 \<Rightarrow> string" where
  "hex_pair byte = [digit_char (unat (drop_bit 4 byte)), digit_char (unat (byte AND 15))]"

definition digest_hex :: "digest \<Rightarrow> string" where
  "digest_hex digest = concat (map hex_pair (to_be_bytes digest))"

definition decode_nibble :: "char \<Rightarrow> u8 option" where
  "decode_nibble c =
     (let v = of_char c in
      if 48 \<le> v \<and> v \<le> (57 :: nat) then Some (word_of_nat (v - 48))
      else if 97 \<le> v \<and> v \<le> 102 then Some (word_of_nat (v - 97 + 10))
      else None)"

fun decode_pairs :: "string \<Rightarrow> bytes option" where
  "decode_pairs (h # l # rest) =
     (case decode_nibble h of
        None \<Rightarrow> None
      | Some high \<Rightarrow> (case checked_mul high 16 of
          None \<Rightarrow> None
        | Some high \<Rightarrow> (case decode_nibble l of
            None \<Rightarrow> None
          | Some low \<Rightarrow> (case checked_add high low of
              None \<Rightarrow> None
            | Some byte \<Rightarrow> map_option (Cons byte) (decode_pairs rest)))))"
| "decode_pairs _ = Some []"

definition parse_digest_hex :: "string \<Rightarrow> digest option" where
  "parse_digest_hex value =
     (if length value \<noteq> 64 then None else map_option from_be_bytes (decode_pairs value))"

definition parse_final_filename :: "string \<Rightarrow> digest option" where
  "parse_final_filename name =
     (case strip_suffix ''.hyblob'' name of None \<Rightarrow> None | Some v \<Rightarrow> parse_digest_hex v)"

definition parse_blob_temporary_filename :: "string \<Rightarrow> digest option" where
  "parse_blob_temporary_filename name =
     (case strip_suffix ''.tmp'' name of None \<Rightarrow> None | Some v \<Rightarrow> parse_digest_hex v)"

definition blob_path :: "digest \<Rightarrow> file_name" where
  "blob_path digest = Utf8 (digest_hex digest @ ''.hyblob'')"

definition blob_temporary_path :: "digest \<Rightarrow> file_name" where
  "blob_temporary_path digest = Utf8 (digest_hex digest @ ''.tmp'')"

section \<open>The store\<close>

type_synonym reference_set = "(digest, blob_reference) ordered_map"

record blob_store =
  bs_blobs :: "(blob_id, blob_reference) ordered_map"
  bs_committed_generation_floor :: u64
  bs_generation :: u64
  bs_recovered_temporary_files :: nat
  bs_reference_trace :: "reference_set option"
  bs_trace_poisoned :: bool

text \<open>The directory of blobs and the temporary directory.\<close>

record blob_files =
  bf_blobs :: directory
  bf_temporary :: directory

definition dir_read :: "fs_outcome \<Rightarrow> directory \<Rightarrow> file_name \<Rightarrow> bytes option" where
  "dir_read io d n =
     (if \<not> read_ok io n then None
      else (case map_of d n of Some (File content) \<Rightarrow> Some content | _ \<Rightarrow> None))"

definition blob_read_handle :: "blob_store \<Rightarrow> blob_store" where
  "blob_read_handle s = s\<lparr>bs_reference_trace := None, bs_trace_poisoned := False\<rparr>"

text \<open>
  \<^verbatim>\<open>create\<close>, on the data directory and the entries of its \<^verbatim>\<open>tmp\<close> directory; the outcomes of its calls
  are numbered.
\<close>

definition blob_create ::
    "(nat \<Rightarrow> fs_outcome) \<Rightarrow> directory \<Rightarrow> directory \<Rightarrow> (blob_error + blob_store) \<times> directory \<times> directory"
where
  "blob_create io data tmp =
     (if dir_exists data (Utf8 ''blobs'') \<or> \<not> create_ok (io 0) then (Inl BlobIo, data, tmp)
      else
        let data = data @ [(Utf8 ''blobs'', NotFile)] in
        (case (if \<not> dir_exists data (Utf8 ''tmp'')
               then if \<not> create_ok (io 1) then (False, data, tmp)
                 else (dir_sync_ok (io 2), data @ [(Utf8 ''tmp'', NotFile)], [])
               else (True, data, tmp)) of
           (False, data, tmp) \<Rightarrow> (Inl BlobIo, data, tmp)
         | (True, data, tmp) \<Rightarrow>
             if dir_exists tmp (Utf8 ''blobs'') \<or> \<not> create_ok (io 3) then (Inl BlobIo, data, tmp)
             else
               let tmp = tmp @ [(Utf8 ''blobs'', NotFile)] in
               if \<not> dir_sync_ok (io 4) \<or> \<not> dir_sync_ok (io 5) then (Inl BlobIo, data, tmp)
               else (Inr \<lparr>bs_blobs = [], bs_committed_generation_floor = 0, bs_generation = 0,
                   bs_recovered_temporary_files = 0, bs_reference_trace = None, bs_trace_poisoned = False\<rparr>,
                 data, tmp)))"

definition insert_reference ::
    "(blob_id, blob_reference) ordered_map \<Rightarrow> blob_reference
      \<Rightarrow> blob_error + (bool \<times> (blob_id, blob_reference) ordered_map)"
where
  "insert_reference blobs reference =
     (case om_get blobs (blob_id reference) of
        Some current \<Rightarrow> if current \<noteq> reference then Inl BlobIdentityCollision else Inr (False, blobs)
      | None \<Rightarrow> Inr (True, om_insert (blob_id reference) reference blobs))"

definition generation_for_count :: "nat \<Rightarrow> blob_error + u64" where
  "generation_for_count count = (if count < 2 ^ 64 then Inr (word_of_nat count) else Inl BlobGenerationExhausted)"

fun scan_blobs ::
    "crypto \<Rightarrow> fs_outcome \<Rightarrow> directory \<Rightarrow> (blob_id, blob_reference) ordered_map
      \<Rightarrow> blob_error + (blob_id, blob_reference) ordered_map"
where
  "scan_blobs C io [] blobs = Inr blobs"
| "scan_blobs C io ((n, e) # d) blobs =
     (case e of
        NotFile \<Rightarrow> Inl BlobUnexpectedDirectoryEntry
      | File content \<Rightarrow>
          (case n of
             NotUtf8 _ \<Rightarrow> Inl BlobUnexpectedDirectoryEntry
           | Utf8 name \<Rightarrow>
               attempt (ok_or BlobUnexpectedDirectoryEntry (parse_final_filename name)) (\<lambda>digest.
               if \<not> read_ok io n then Inl BlobIo
               else
                 attempt (decode_blob C content) (\<lambda>(reference, _).
                 if blob_digest reference \<noteq> digest then Inl BlobIdentityMismatch
                 else
                   attempt (insert_reference blobs reference) (\<lambda>(_, blobs).
                   scan_blobs C io d blobs)))))"

fun scan_temporary :: "directory \<Rightarrow> file_name list \<Rightarrow> blob_error + file_name list" where
  "scan_temporary [] paths = Inr paths"
| "scan_temporary ((n, e) # d) paths =
     (case e of
        NotFile \<Rightarrow> Inl BlobUnexpectedDirectoryEntry
      | File _ \<Rightarrow>
          (case n of
             NotUtf8 _ \<Rightarrow> Inl BlobUnexpectedDirectoryEntry
           | Utf8 name \<Rightarrow>
               attempt (ok_or BlobUnexpectedDirectoryEntry (parse_blob_temporary_filename name)) (\<lambda>_.
               scan_temporary d (paths @ [n]))))"

text \<open>\<open>io\<close> is for the directory of blobs, \<open>tio\<close> for the temporary directory.\<close>

definition open_with_generation_floor ::
    "crypto \<Rightarrow> fs_outcome \<Rightarrow> fs_outcome \<Rightarrow> blob_files \<Rightarrow> u64 \<Rightarrow> (blob_error + blob_store) \<times> blob_files"
where
  "open_with_generation_floor C io tio f committed_generation_floor =
     (case (if \<not> read_dir_ok io then Inl BlobIo
            else attempt (scan_blobs C io (bf_blobs f) []) (\<lambda>blobs.
              if \<not> read_dir_ok tio then Inl BlobIo
              else attempt (scan_temporary (bf_temporary f) []) (\<lambda>paths. Inr (blobs, paths)))) of
        Inl e \<Rightarrow> (Inl e, f)
      | Inr (blobs, paths) \<Rightarrow>
          (case remove_files tio paths (bf_temporary f) of
             (False, t) \<Rightarrow> (Inl BlobIo, f\<lparr>bf_temporary := t\<rparr>)
           | (True, t) \<Rightarrow>
               (if length paths \<noteq> 0 \<and> \<not> dir_sync_ok tio then Inl BlobIo
                else
                  attempt (generation_for_count (length blobs)) (\<lambda>physical_generation.
                  Inr \<lparr>bs_blobs = blobs, bs_committed_generation_floor = committed_generation_floor,
                    bs_generation = max committed_generation_floor physical_generation,
                    bs_recovered_temporary_files = length paths, bs_reference_trace = None, bs_trace_poisoned = False\<rparr>),
                f\<lparr>bf_temporary := t\<rparr>)))"

definition blob_open :: "crypto \<Rightarrow> fs_outcome \<Rightarrow> fs_outcome \<Rightarrow> blob_files \<Rightarrow> (blob_error + blob_store) \<times> blob_files" where
  "blob_open C io tio f = open_with_generation_floor C io tio f 0"

definition blob_generation :: "blob_store \<Rightarrow> blob_error + u64" where
  "blob_generation s =
     attempt (generation_for_count (length (bs_blobs s))) (\<lambda>count.
     if bs_generation s < count then Inl InconsistentGeneration else Inr (bs_generation s))"

definition apply_committed_generation_floor :: "blob_store \<Rightarrow> u64 \<Rightarrow> (blob_error + unit) \<times> blob_store" where
  "apply_committed_generation_floor s floor1 =
     (case generation_for_count (length (bs_blobs s)) of
        Inl e \<Rightarrow> (Inl e, s)
      | Inr physical \<Rightarrow>
          let s = s\<lparr>bs_committed_generation_floor := max (bs_committed_generation_floor s) floor1,
                bs_generation := max (max (bs_generation s) floor1) physical\<rparr>
          in (attempt (blob_generation s) (\<lambda>_. Inr ()), s))"

definition encoded_size :: "blob_reference \<Rightarrow> blob_error + u64" where
  "encoded_size reference = ok_or BlobGenerationExhausted (checked_add 80 (blob_logical_length reference))"

fun sum_encoded_bytes :: "u64 \<Rightarrow> blob_reference list \<Rightarrow> blob_error + u64" where
  "sum_encoded_bytes sum_bytes [] = Inr sum_bytes"
| "sum_encoded_bytes sum_bytes (reference # references) =
     attempt (encoded_size reference) (\<lambda>n.
     attempt (ok_or BlobGenerationExhausted (checked_add sum_bytes n)) (\<lambda>sum_bytes.
     sum_encoded_bytes sum_bytes references))"

text \<open>\<^verbatim>\<open>cfg!(unix)\<close>; the model is of the Unix build, where directories are synchronized.\<close>

definition parent_sync_supported :: bool where
  "parent_sync_supported = True"

text \<open>The count and the bytes of the inventory.\<close>

definition blob_inventory :: "blob_store \<Rightarrow> blob_error + (nat \<times> u64)" where
  "blob_inventory s =
     attempt (sum_encoded_bytes 0 (map snd (bs_blobs s))) (\<lambda>blob_bytes. Inr (length (bs_blobs s), blob_bytes))"

record blob_recovery_evidence =
  br_blob_count :: nat
  br_blob_bytes :: u64
  br_committed_generation_floor :: u64
  br_generation :: u64
  br_recovered_temporary_files :: nat
  br_parent_sync_supported :: bool

definition blob_recovery :: "blob_store \<Rightarrow> blob_error + blob_recovery_evidence" where
  "blob_recovery s =
     attempt (blob_inventory s) (\<lambda>(_, blob_bytes).
     Inr \<lparr>br_blob_count = length (bs_blobs s), br_blob_bytes = blob_bytes,
       br_committed_generation_floor = bs_committed_generation_floor s, br_generation = bs_generation s,
       br_recovered_temporary_files = bs_recovered_temporary_files s, br_parent_sync_supported = parent_sync_supported\<rparr>)"

section \<open>Reference traces\<close>

definition begin_reference_trace :: "blob_store \<Rightarrow> (blob_error + unit) \<times> blob_store" where
  "begin_reference_trace s =
     (if bs_trace_poisoned s then (Inl ReferenceTracePoisoned, s)
      else if bs_reference_trace s \<noteq> None then (Inl ReferenceTraceActive, s)
      else (Inr (), s\<lparr>bs_reference_trace := Some []\<rparr>))"

text \<open>Dropping a trace that is still active discards it; finishing takes the set first.\<close>

definition drop_reference_trace :: "bool \<Rightarrow> blob_store \<Rightarrow> blob_store" where
  "drop_reference_trace active s =
     (if active \<and> \<not> bs_trace_poisoned s then s\<lparr>bs_reference_trace := None\<rparr> else s)"

definition finish_reference_trace :: "blob_store \<Rightarrow> (blob_error + reference_set) \<times> blob_store" where
  "finish_reference_trace s =
     (if bs_trace_poisoned s then (Inl ReferenceTracePoisoned, drop_reference_trace True s)
      else (case bs_reference_trace s of
          None \<Rightarrow> (Inl ReferenceTracePoisoned, drop_reference_trace True s)
        | Some references \<Rightarrow> (Inr references, drop_reference_trace False (s\<lparr>bs_reference_trace := None\<rparr>))))"

definition record_reference :: "blob_store \<Rightarrow> blob_reference \<Rightarrow> (blob_error + unit) \<times> blob_store" where
  "record_reference s reference =
     (if bs_trace_poisoned s then (Inl ReferenceTracePoisoned, s)
      else (case bs_reference_trace s of
          None \<Rightarrow> (Inr (), s)
        | Some references \<Rightarrow> (case om_get references (blob_digest reference) of
              Some current \<Rightarrow> if current \<noteq> reference then (Inl BlobIdentityMismatch, s) else (Inr (), s)
            | None \<Rightarrow> (Inr (), s\<lparr>bs_reference_trace := Some (om_insert (blob_digest reference) reference references)\<rparr>))))"

section \<open>Staging, publishing, reading\<close>

text \<open>A staged blob; its final path is the path of its digest.\<close>

record staged_blob =
  sb_reference :: blob_reference
  sb_temporary_path :: "file_name option"

definition blob_stage ::
    "crypto \<Rightarrow> fs_outcome \<Rightarrow> blob_store \<Rightarrow> blob_files \<Rightarrow> bytes \<Rightarrow> bool \<Rightarrow> (blob_error + staged_blob) \<times> blob_files"
where
  "blob_stage C io s f content synchronize =
     (case reference_for C content of
        Inl e \<Rightarrow> (Inl e, f)
      | Inr reference \<Rightarrow>
          let final_path = blob_path (blob_digest reference) in
          if dir_exists (bf_blobs f) final_path
          then
            (attempt (ok_or BlobIo (dir_read io (bf_blobs f) final_path)) (\<lambda>encoded.
             attempt (decode_blob C encoded) (\<lambda>(found, _).
             if found \<noteq> reference then Inl BlobIdentityMismatch
             else Inr \<lparr>sb_reference = reference, sb_temporary_path = None\<rparr>)), f)
          else if (case om_get (bs_blobs s) (blob_id reference) of None \<Rightarrow> False | Some current \<Rightarrow> current \<noteq> reference)
          then (Inl BlobIdentityCollision, f)
          else
            let temporary_path = blob_temporary_path (blob_digest reference) in
            if dir_exists (bf_temporary f) temporary_path then (Inl BlobPublicationTargetExists, f)
            else (case encode_blob C reference content of
                Inl e \<Rightarrow> (Inl e, f)
              | Inr encoded \<Rightarrow>
                  if \<not> create_ok io then (Inl BlobIo, f)
                  else (case write_fault io of
                      Some k \<Rightarrow> (Inl BlobIo, f\<lparr>bf_temporary := dir_put temporary_path (take k encoded) (bf_temporary f)\<rparr>)
                    | None \<Rightarrow>
                        let f = f\<lparr>bf_temporary := dir_put temporary_path encoded (bf_temporary f)\<rparr> in
                        if synchronize \<and> \<not> file_sync_ok io then (Inl BlobIo, f)
                        else (Inr \<lparr>sb_reference = reference, sb_temporary_path = Some temporary_path\<rparr>, f))))"

text \<open>A rename from the temporary directory into the directory of blobs, of a file that exists.\<close>

definition rename_blob :: "fs_outcome \<Rightarrow> file_name \<Rightarrow> file_name \<Rightarrow> blob_files \<Rightarrow> blob_files option" where
  "rename_blob io a b f =
     (if \<not> rename_ok io then None
      else (case map_of (bf_temporary f) a of
          Some (File content) \<Rightarrow>
            Some \<lparr>bf_blobs = dir_put b content (dir_remove b (bf_blobs f)), bf_temporary = dir_remove a (bf_temporary f)\<rparr>
        | _ \<Rightarrow> None))"

text \<open>The part of \<^verbatim>\<open>publish\<close> that moves the temporary file of a staged blob into place.\<close>

definition place_staged ::
    "fs_outcome \<Rightarrow> fs_outcome \<Rightarrow> blob_files \<Rightarrow> staged_blob \<Rightarrow> bool \<Rightarrow> (blob_error + unit) \<times> blob_files"
where
  "place_staged io tio f staged synchronize =
     (let final_path = blob_path (blob_digest (sb_reference staged)) in
      case sb_temporary_path staged of
        None \<Rightarrow> (Inr (), f)
      | Some temporary_path \<Rightarrow>
          if dir_exists (bf_blobs f) final_path then (Inl BlobPublicationTargetExists, f)
          else (case rename_blob io temporary_path final_path f of
              None \<Rightarrow> (Inl BlobIo, f)
            | Some f \<Rightarrow>
                if synchronize \<and> (\<not> dir_sync_ok io \<or> \<not> dir_sync_ok tio) then (Inl BlobIo, f) else (Inr (), f)))"

definition blob_publish ::
    "fs_outcome \<Rightarrow> fs_outcome \<Rightarrow> blob_store \<Rightarrow> blob_files \<Rightarrow> staged_blob \<Rightarrow> bool
      \<Rightarrow> (blob_error + blob_reference) \<times> blob_store \<times> blob_files"
where
  "blob_publish io tio s f staged synchronize =
     (let reference = sb_reference staged in
      case (case om_get (bs_blobs s) (blob_id reference) of
          Some current \<Rightarrow> if current \<noteq> reference then Inl BlobIdentityCollision else Inr (False, bs_generation s)
        | None \<Rightarrow> attempt (ok_or BlobGenerationExhausted (checked_add (bs_generation s) 1)) (\<lambda>n. Inr (True, n))) of
        Inl e \<Rightarrow> (Inl e, s, f)
      | Inr (is_new, next_generation) \<Rightarrow>
          (case place_staged io tio f staged synchronize of
             (Inl e, f) \<Rightarrow> (Inl e, s, f)
           | (Inr _, f) \<Rightarrow>
               (case insert_reference (bs_blobs s) reference of
                  Inl e \<Rightarrow> (Inl e, s, f)
                | Inr (inserted, blobs) \<Rightarrow>
                    let s = s\<lparr>bs_blobs := blobs\<rparr> in
                    if inserted \<noteq> is_new then (Inl BlobIdentityCollision, s, f)
                    else (Inr reference, s\<lparr>bs_generation := next_generation\<rparr>, f))))"

definition blob_put ::
    "crypto \<Rightarrow> fs_outcome \<Rightarrow> fs_outcome \<Rightarrow> blob_store \<Rightarrow> blob_files \<Rightarrow> bytes \<Rightarrow> bool
      \<Rightarrow> (blob_error + blob_reference) \<times> blob_store \<times> blob_files"
where
  "blob_put C io tio s f content synchronize =
     (case blob_stage C io s f content synchronize of
        (Inl e, f) \<Rightarrow> (Inl e, s, f)
      | (Inr staged, f) \<Rightarrow> blob_publish io tio s f staged synchronize)"

definition blob_read ::
    "crypto \<Rightarrow> fs_outcome \<Rightarrow> blob_store \<Rightarrow> blob_files \<Rightarrow> blob_reference \<Rightarrow> (blob_error + bytes) \<times> blob_store"
where
  "blob_read C io s f reference =
     (if om_get (bs_blobs s) (blob_id reference) \<noteq> Some reference
      then (Inl (ReferenceOutsideBoundary (blob_id reference)), s)
      else (case attempt (ok_or BlobIo (dir_read io (bf_blobs f) (blob_path (blob_digest reference)))) (\<lambda>encoded.
                 attempt (decode_blob C encoded) (\<lambda>(found, content).
                 if found \<noteq> reference then Inl BlobIdentityMismatch else Inr content)) of
          Inl e \<Rightarrow> (Inl e, s)
        | Inr content \<Rightarrow>
            (case record_reference s reference of
               (Inl e, s) \<Rightarrow> (Inl e, s)
             | (Inr _, s) \<Rightarrow> (Inr content, s))))"

section \<open>Pruning\<close>

record blob_prune_receipt =
  bp_candidate_files :: nat
  bp_candidate_bytes :: u64
  bp_removed_files :: nat
  bp_removed_bytes :: u64
  bp_retained_files :: nat
  bp_retained_bytes :: u64
  bp_parent_sync_supported :: bool

fun validate_live_references :: "blob_store \<Rightarrow> reference_set \<Rightarrow> blob_error + unit" where
  "validate_live_references s [] = Inr ()"
| "validate_live_references s ((digest, reference) # live) =
     (if digest \<noteq> blob_digest reference \<or> om_get (bs_blobs s) (blob_id reference) \<noteq> Some reference
      then Inl BlobIdentityMismatch
      else validate_live_references s live)"

definition om_remove :: "'k \<Rightarrow> ('k, 'v) ordered_map \<Rightarrow> ('k, 'v) ordered_map" where
  "om_remove k m = filter (\<lambda>(k', _). k' \<noteq> k) m"

fun prune_blobs ::
    "fs_outcome \<Rightarrow> blob_store \<Rightarrow> blob_files \<Rightarrow> blob_reference list \<Rightarrow> u64
      \<Rightarrow> (blob_error + u64) \<times> blob_store \<times> blob_files"
where
  "prune_blobs io s f [] removed_bytes = (Inr removed_bytes, s, f)"
| "prune_blobs io s f (reference # references) removed_bytes =
     (if om_get (bs_blobs s) (blob_id reference) \<noteq> Some reference then (Inl BlobIdentityMismatch, s, f)
      else
        let path = blob_path (blob_digest reference) in
        if \<not> remove_ok io path \<or> \<not> dir_exists (bf_blobs f) path then (Inl BlobIo, s, f)
        else
          let f = f\<lparr>bf_blobs := dir_remove path (bf_blobs f)\<rparr>;
              s = s\<lparr>bs_blobs := om_remove (blob_id reference) (bs_blobs s)\<rparr>
          in (case attempt (encoded_size reference) (\<lambda>n.
                   ok_or BlobGenerationExhausted (checked_add removed_bytes n)) of
                Inl e \<Rightarrow> (Inl e, s, f)
              | Inr removed_bytes \<Rightarrow> prune_blobs io s f references removed_bytes))"

definition synchronize_namespace :: "fs_outcome \<Rightarrow> blob_error + unit" where
  "synchronize_namespace io = (if dir_sync_ok io then Inr () else Inl BlobIo)"

definition prune_candidates_of :: "blob_store \<Rightarrow> reference_set \<Rightarrow> blob_reference list" where
  "prune_candidates_of s live =
     sort_key blob_digest (filter (\<lambda>reference. om_get live (blob_digest reference) = None) (map snd (bs_blobs s)))"

definition prune_unreferenced ::
    "fs_outcome \<Rightarrow> blob_store \<Rightarrow> blob_files \<Rightarrow> reference_set \<Rightarrow> nat option \<Rightarrow> bool
      \<Rightarrow> (blob_error + blob_prune_receipt) \<times> blob_store \<times> blob_files"
where
  "prune_unreferenced io s f live limit synchronize =
     (let candidates = prune_candidates_of s live in
      case attempt (validate_live_references s live) (\<lambda>_. sum_encoded_bytes 0 candidates) of
        Inl e \<Rightarrow> (Inl e, s, f)
      | Inr candidate_bytes \<Rightarrow>
          let removal_count = min (case limit of None \<Rightarrow> length candidates | Some n \<Rightarrow> n) (length candidates) in
          (case prune_blobs io s f (take removal_count candidates) 0 of
             (Inl e, s, f) \<Rightarrow> (Inl e, s, f)
           | (Inr removed_bytes, s, f) \<Rightarrow>
               (attempt (if synchronize then synchronize_namespace io else Inr ()) (\<lambda>_.
                attempt (blob_inventory s) (\<lambda>(retained_files, retained_bytes).
                Inr \<lparr>bp_candidate_files = length candidates, bp_candidate_bytes = candidate_bytes,
                  bp_removed_files = removal_count, bp_removed_bytes = removed_bytes,
                  bp_retained_files = retained_files, bp_retained_bytes = retained_bytes,
                  bp_parent_sync_supported = parent_sync_supported\<rparr>)), s, f)))"

end
