(* ===== verification/BlobCodec.thy ===== *)
theory BlobCodec
  imports Blobs
begin

text \<open>
  The blob file codec: the image of a content, that the decoder accepts exactly the images, and the
  names of the files.
\<close>

section \<open>References\<close>

definition content_reference :: "crypto \<Rightarrow> bytes \<Rightarrow> blob_reference" where
  "content_reference C content =
     \<lparr>blob_id = nz (from_le_bytes (take 16 (to_be_bytes (blake3 C content)))),
       blob_logical_length = word_of_nat (length content), blob_digest = blake3 C content\<rparr>"

lemma reference_for_iff [result_simps]:
  "(reference_for C content = Inr r) = (length content \<le> 1073741824 \<and> r = content_reference C content)"
  by (auto simp: reference_for_def Let_def identity_new_def content_reference_def MAX_BLOB_SIZE_def nz_def)

lemma content_reference_sel [simp]:
  "blob_digest (content_reference C c) = blake3 C c"
  "blob_logical_length (content_reference C c) = word_of_nat (length c)"
  by (simp_all add: content_reference_def)

lemma content_reference_eta:
  "\<lparr>blob_id = blob_id (content_reference C c), blob_logical_length = word_of_nat (length c), blob_digest = blake3 C c\<rparr>
    = content_reference C c"
  by (simp add: content_reference_def)

section \<open>The image of a content\<close>

definition blob_head :: "crypto \<Rightarrow> bytes \<Rightarrow> bytes" where
  "blob_head C c = BLOB_MAGIC @ to_le_bytes (1 :: u16) @ to_le_bytes (80 :: u16) @ replicate 4 0
     @ to_le_bytes (get (blob_id (content_reference C c))) @ to_le_bytes (word_of_nat (length c) :: u64)"

definition blob_tail :: "crypto \<Rightarrow> bytes \<Rightarrow> bytes" where
  "blob_tail C c = replicate 4 0 @ to_be_bytes (blake3 C c) @ c"

definition blob_check :: "crypto \<Rightarrow> bytes \<Rightarrow> u32" where
  "blob_check C c = crc32c C (blob_head C c @ replicate 4 0 @ blob_tail C c)"

definition blob_image :: "crypto \<Rightarrow> bytes \<Rightarrow> bytes" where
  "blob_image C c = blob_head C c @ to_le_bytes (blob_check C c) @ blob_tail C c"

lemma length_BLOB_MAGIC [simp]: "length BLOB_MAGIC = 8"
  by (simp add: BLOB_MAGIC_def)

lemma length_blob_head [simp]: "length (blob_head C c) = 40"
  by (simp add: blob_head_def)

lemma length_blob_image [simp]: "length (blob_image C c) = 80 + length c"
  by (simp add: blob_image_def blob_tail_def)

lemma blob_checksum_layout:
  "length head = 40 \<Longrightarrow> length ck = 4 \<Longrightarrow> blob_checksum C (head @ ck @ tail) = crc32c C (head @ replicate 4 0 @ tail)"
  by (simp add: blob_checksum_def put_middle)

lemma blob_frame_layout:
  assumes "length (m :: bytes) = 8" "length v = 2" "length h = 2" "length i = 16" "length l = 8" "length d = 32"
  shows "put 80 c (put 48 d (put 32 l (put 16 i (put 10 h (put 8 v (put 0 m (replicate (80 + length c) 0)))))))
    = (m @ v @ h @ replicate 4 0 @ i @ l) @ replicate 4 0 @ replicate 4 0 @ d @ c"
proof -
  have z: "replicate 8 0 = replicate 4 0 @ replicate 4 (0 :: u8)" by (simp flip: replicate_add)
  have "put 80 c (put 48 d (put 32 l (put 16 i (put 10 h (put 8 v (put 0 m (replicate (80 + length c) 0)))))))
    = (((((((m @ v) @ h) @ replicate 4 0) @ i) @ l) @ replicate 8 0) @ d) @ c"
    by (simp add: put_zeros_start put_zeros assms append_assoc [symmetric] del: append_assoc replicate_Suc One_nat_def)
  then show ?thesis by (simp only: z append_assoc)
qed

lemma encode_blob_image: "encode_blob C r c = Inr e \<longleftrightarrow> reference_for C c = Inr r \<and> e = blob_image C c"
proof (cases "reference_for C c = Inr r")
  case True
  then have r: "r = content_reference C c" and len: "length c \<le> 1073741824" by (simp_all add: result_simps)
  have frame: "put 80 c (put 48 (to_be_bytes (blake3 C c)) (put 32 (to_le_bytes (word_of_nat (length c) :: u64))
      (put 16 (to_le_bytes (get (blob_id (content_reference C c)))) (put 10 (to_le_bytes (80 :: u16)) (put 8 (to_le_bytes (1 :: u16))
      (put 0 BLOB_MAGIC (replicate (80 + length c) 0)))))))
    = blob_head C c @ replicate 4 0 @ blob_tail C c"
    unfolding blob_head_def blob_tail_def by (rule blob_frame_layout) simp_all
  have ck: "blob_checksum C (blob_head C c @ replicate 4 0 @ blob_tail C c) = blob_check C c"
    by (subst blob_checksum_layout) (simp_all add: blob_check_def)
  have "put 40 (to_le_bytes (blob_check C c)) (blob_head C c @ replicate 4 0 @ blob_tail C c) = blob_image C c"
    unfolding blob_image_def by (rule put_middle) simp_all
  with True len show ?thesis
    by (auto simp: encode_blob_def r MAX_BLOB_SIZE_def BLOB_HEADER_SIZE_def Let_def frame ck)
next
  case False
  then show ?thesis by (auto simp: encode_blob_def attempt_eq_Inr split: if_splits)
qed

lemma blob_image_parts:
  assumes "e = blob_image C c"
  shows "seg 0 8 e = BLOB_MAGIC" "seg 8 10 e = to_le_bytes (1 :: u16)" "seg 10 12 e = to_le_bytes (80 :: u16)"
    "seg 12 16 e = replicate 4 0" "seg 16 32 e = to_le_bytes (get (blob_id (content_reference C c)))"
    "seg 32 40 e = to_le_bytes (word_of_nat (length c) :: u64)" "seg 40 44 e = to_le_bytes (blob_check C c)"
    "seg 44 48 e = replicate 4 0" "seg 48 80 e = to_be_bytes (blake3 C c)" "drop 80 e = c"
  by (simp_all add: assms blob_image_def blob_head_def blob_tail_def seg_def)

section \<open>The codec is canonical\<close>

lemma decode_blob_image:
  assumes "reference_for C c = Inr r"
  shows "decode_blob C (blob_image C c) = Inr (r, c)"
proof -
  define e where "e = blob_image C c"
  note parts = blob_image_parts [OF e_def]
  have r: "r = content_reference C c" and len: "length c \<le> 1073741824" using assms by (simp_all add: result_simps)
  have u: "unat (word_of_nat (length c) :: u64) = length c" using len by (intro unat_word_of_nat) simp
  have ck: "blob_checksum C e = blob_check C c"
    unfolding e_def blob_image_def by (subst blob_checksum_layout) (simp_all add: blob_check_def)
  have len_e: "length e = 80 + length c" by (simp add: e_def)
  have "decode_blob C e = Inr (r, c)"
    using len assms by (simp add: decode_blob_def BLOB_HEADER_SIZE_def MAX_BLOB_SIZE_def len_e parts u ck list_ex_iff r
        content_reference_eta)
  then show ?thesis by (simp only: e_def)
qed

lemma blob_partition:
  assumes "80 \<le> length e"
  shows "e = (seg 0 8 e @ seg 8 10 e @ seg 10 12 e @ seg 12 16 e @ seg 16 32 e @ seg 32 40 e) @ seg 40 44 e
    @ seg 44 48 e @ seg 48 80 e @ drop 80 e"
proof -
  have "drop 80 e = seg 80 (length e) e" by (simp add: seg_def)
  moreover have "e = seg 0 (length e) e" by simp
  ultimately show ?thesis using assms by (simp flip: seg_split)
qed

lemma decode_blob_sound:
  assumes "decode_blob C e = Inr (r, c)"
  shows "reference_for C c = Inr r \<and> e = blob_image C c"
proof -
  define n where "n = unat (from_le_bytes (seg 32 40 e) :: u64)"
  have ge: "80 \<le> length e" and magic: "seg 0 8 e = BLOB_MAGIC"
    and ver: "(from_le_bytes (seg 8 10 e) :: u16) = 1" "(from_le_bytes (seg 10 12 e) :: u16) = 80"
    and zero: "seg 12 16 e = replicate (length (seg 12 16 e)) 0" "seg 44 48 e = replicate (length (seg 44 48 e)) 0"
    and len: "length e = 80 + n" and ck: "blob_checksum C e = from_le_bytes (seg 40 44 e)"
    and i: "from_le_bytes (seg 16 32 e) = get (blob_id r)"
    and dg: "from_be_bytes (seg 48 80 e) = blob_digest r"
    and c: "c = drop 80 e" and rf: "reference_for C c = Inr r"
    using assms unfolding n_def
    by (auto simp: decode_blob_def Let_def list_ex_iff BLOB_HEADER_SIZE_def attempt_eq_Inr map_err_eq_Inr identity_new_Inr
        list_eq_iff_nth_eq [of _ "replicate _ _"] split: if_splits)
  have r: "r = content_reference C c" using rf by (simp add: result_simps)
  have n: "length c = n" using len c by simp
  have parts: "seg 8 10 e = to_le_bytes (1 :: u16)" "seg 10 12 e = to_le_bytes (80 :: u16)"
    "seg 16 32 e = to_le_bytes (get (blob_id r))" "seg 48 80 e = to_be_bytes (blake3 C c)"
    using ge ver i dg by (auto simp: r simp flip: from_le_bytes_iff from_be_bytes_iff)
  have l: "seg 32 40 e = to_le_bytes (word_of_nat (length c) :: u64)"
    using ge by (simp add: n n_def word_of_nat_unat)
  have e: "e = blob_head C c @ seg 40 44 e @ blob_tail C c"
    using blob_partition [OF ge] zero ge
    by (simp add: blob_head_def blob_tail_def magic parts l r flip: c)
  have "blob_checksum C (blob_head C c @ seg 40 44 e @ blob_tail C c) = blob_check C c"
    using ge by (subst blob_checksum_layout) (simp_all add: blob_check_def)
  then have "blob_checksum C e = blob_check C c" by (simp only: flip: e)
  with ck ge have "seg 40 44 e = to_le_bytes (blob_check C c)" by (simp add: from_le_bytes_iff [symmetric])
  with e rf show ?thesis by (simp add: blob_image_def)
qed

interpretation blob_codec: canonical_codec "\<lambda>_. True" "\<lambda>(r, c). encode_blob C r c" "decode_blob C" for C
  by unfold_locales (auto simp: encode_blob_image decode_blob_image dest: decode_blob_sound)

lemma decode_blob_iff: "(decode_blob C e = Inr (r, c)) = (reference_for C c = Inr r \<and> e = blob_image C c)"
  using blob_codec.dec_iff [of C e "(r, c)"] by (simp add: encode_blob_image)

text \<open>C39. A blob file is read exactly when it is the file that a blob's encoder writes: decoding returns a
  reference and a content precisely if encoding that content under that reference gives these bytes,
  so no byte of a blob file can change unnoticed.\<close>

theorem blob_file_canonical: "(decode_blob C e = Inr (r, c)) = (encode_blob C r c = Inr e)"
  using blob_codec.dec_iff [of C e "(r, c)"] by simp

section \<open>File names\<close>

lemma decode_nibble_alt: "decode_nibble c = map_option word_of_nat (char_digit c)"
  by (simp add: decode_nibble_def char_digit_def Let_def)

lemma char_digit_less: "char_digit c = Some d \<Longrightarrow> d < 16"
  by (auto simp: char_digit_def Let_def split: if_splits)

lemma unat_nibbles: "unat (drop_bit 4 (b :: u8)) = unat b div 16" "unat (b AND 15) = unat b mod 16"
proof -
  have "b AND 15 = take_bit 4 b" by (simp add: take_bit_eq_mask mask_numeral)
  moreover have "unat (take_bit 4 b) = take_bit 4 (unat b)" by (rule unsigned_take_bit_eq)
  ultimately show "unat (b AND 15) = unat b mod 16" by (simp only: take_bit_eq_mod) simp
next
  show "unat (drop_bit 4 b) = unat b div 16" unfolding unat_drop_bit_eq by (simp add: drop_bit_eq_div)
qed

lemma hex_pair_alt: "hex_pair b = [digit_char (unat b div 16), digit_char (unat b mod 16)]"
  by (simp add: hex_pair_def unat_nibbles)

lemma decode_pair:
  "decode_pairs (a # b # s) =
     (case (char_digit a, char_digit b) of
        (Some h, Some l) \<Rightarrow> map_option (Cons (word_of_nat (16 * h + l))) (decode_pairs s)
      | _ \<Rightarrow> None)"
proof (cases "char_digit a"; cases "char_digit b")
  fix h l assume h: "char_digit a = Some h" and l: "char_digit b = Some l"
  have "unat (word_of_nat h :: u8) = h" "unat (word_of_nat l :: u8) = l" "unat (word_of_nat (16 * h) :: u8) = 16 * h"
    using char_digit_less [OF h] char_digit_less [OF l] by (intro unat_word_of_nat; simp)+
  then have "checked_mul (word_of_nat h :: u8) 16 = Some (word_of_nat (16 * h))"
    "checked_add (word_of_nat (16 * h) :: u8) (word_of_nat l) = Some (word_of_nat (16 * h + l))"
    using char_digit_less [OF h] char_digit_less [OF l] by (simp_all add: checked_mul_def checked_add_def)
  with h l show ?thesis by (simp add: decode_nibble_alt)
qed (auto simp: decode_nibble_alt checked_mul_def)

lemma decode_pairs_hex: "decode_pairs (concat (map hex_pair bs)) = Some bs"
  by (induction bs)
    (use unat_byte_less in \<open>simp_all add: hex_pair_alt decode_pair less_mult_imp_div_less word_of_nat_unat del: decode_pairs.simps(1)\<close>)

lemma decode_pairs_Some: "decode_pairs s = Some bs \<Longrightarrow> even (length s) \<Longrightarrow> s = concat (map hex_pair bs)"
proof (induction s arbitrary: bs rule: induct_list012)
  case (3 a b s)
  then obtain h l bs' where hl: "char_digit a = Some h" "char_digit b = Some l" and bs: "bs = word_of_nat (16 * h + l) # bs'"
    and s: "decode_pairs s = Some bs'"
    by (auto simp: decode_pair simp del: decode_pairs.simps(1) split: option.splits)
  note lt = char_digit_less [OF hl(1)] char_digit_less [OF hl(2)]
  have "unat (word_of_nat (16 * h + l) :: u8) = 16 * h + l" using lt by (intro unat_word_of_nat) simp
  then have "hex_pair (word_of_nat (16 * h + l)) = [a, b]"
    using lt hl by (simp add: hex_pair_alt digit_char_char)
  moreover have "s = concat (map hex_pair bs')" using "3.IH"(1) s "3.prems"(2) by simp
  ultimately show ?case by (simp add: bs)
qed auto

lemma length_hex [simp]: "length (concat (map hex_pair bs)) = 2 * length bs"
  by (induction bs) (simp_all add: hex_pair_def)

lemma parse_digest_hex_iff [result_simps]: "(parse_digest_hex s = Some d) = (s = digest_hex d)"
proof
  assume "parse_digest_hex s = Some d"
  then obtain bs where bs: "length s = 64" "decode_pairs s = Some bs" "d = from_be_bytes bs"
    by (auto simp: parse_digest_hex_def split: if_splits)
  then have "s = concat (map hex_pair bs)" by (intro decode_pairs_Some) simp_all
  moreover from this bs(1) have "length bs = 32" by simp
  ultimately show "s = digest_hex d" by (simp add: digest_hex_def bs(3))
next
  assume s: "s = digest_hex d"
  show "parse_digest_hex s = Some d"
    by (simp add: parse_digest_hex_def s digest_hex_def decode_pairs_hex)
qed

lemma parse_final_filename_iff: "(parse_final_filename n = Some d) = (Utf8 n = blob_path d)"
  by (auto simp: parse_final_filename_def blob_path_def result_simps split: option.splits)
    (simp add: strip_suffix_def)

lemma parse_blob_temporary_filename_iff: "(parse_blob_temporary_filename n = Some d) = (Utf8 n = blob_temporary_path d)"
  by (auto simp: parse_blob_temporary_filename_def blob_temporary_path_def result_simps split: option.splits)
    (simp add: strip_suffix_def)

lemma digest_hex_inj [simp]: "(digest_hex d = digest_hex d') = (d = d')"
  using parse_digest_hex_iff [of "digest_hex d" d] parse_digest_hex_iff [of "digest_hex d" d'] by auto

lemma blob_path_inj [simp]: "(blob_path d = blob_path d') = (d = d')"
  by (simp add: blob_path_def)

lemma blob_temporary_path_inj [simp]: "(blob_temporary_path d = blob_temporary_path d') = (d = d')"
  by (simp add: blob_temporary_path_def)

end
