(* ===== verification/BlobStore.thy ===== *)
theory BlobStore
  imports BlobCodec
begin

text \<open>
  The operations of the blob store one by one: what the files and the references satisfy, and what
  a stage, a publication, a prune and an open change, on every outcome of the file-system calls.
\<close>

section \<open>Directories as maps\<close>

lemma dir_get_put [simp]: "\<not> dir_exists d n \<Longrightarrow> map_of (dir_put n c d) = (map_of d)(n \<mapsto> File c)"
  by (auto simp: dir_put_def dir_exists_def map_add_def fun_eq_iff split: option.splits)

lemma dir_get_remove [simp]: "map_of (dir_remove n d) = (map_of d)(n := None)"
  by (induction d) (auto simp: dir_remove_def)

lemma dir_exists_remove [simp]: "dir_exists (dir_remove n d) m = (m \<noteq> n \<and> dir_exists d m)"
  by (simp add: dir_exists_def)

lemma om_get_remove [simp]: "om_get (om_remove k m) = (om_get m)(k := None)"
  by (induction m) (auto simp: om_remove_def)

lemma om_sorted_remove [simp]: "om_sorted m \<Longrightarrow> om_sorted (om_remove k m)"
  by (induction m) (auto simp: om_remove_def)

lemma length_om_insert: "om_sorted m \<Longrightarrow> length (om_insert k v m) = (if om_get m k = None then Suc (length m) else length m)"
  by (induction m) (auto split: if_splits, (force dest: map_of_SomeD)+)

lemma dir_remove_absent [simp]: "\<not> dir_exists d n \<Longrightarrow> dir_remove n d = d"
  by (induction d) (auto simp: dir_remove_def dir_exists_def split: if_splits)

section \<open>What the files hold\<close>

text \<open>A content of the set \<open>U\<close> that is small enough, stored under its digest.\<close>

definition stored :: "crypto \<Rightarrow> bytes set \<Rightarrow> blob_files \<Rightarrow> bytes \<Rightarrow> bool" where
  "stored C U f c = (c \<in> U \<and> length c \<le> 1073741824
     \<and> map_of (bf_blobs f) (blob_path (blake3 C c)) = Some (File (blob_image C c)))"

definition files_ok :: "crypto \<Rightarrow> bytes set \<Rightarrow> blob_files \<Rightarrow> bool" where
  "files_ok C U f =
     (wf_directory (bf_blobs f) \<and> wf_directory (bf_temporary f)
      \<and> (\<forall>n e. map_of (bf_blobs f) n = Some e \<longrightarrow> (\<exists>c. stored C U f c \<and> n = blob_path (blake3 C c)))
      \<and> (\<forall>n e. map_of (bf_temporary f) n = Some e \<longrightarrow> (\<exists>d c. n = blob_temporary_path d \<and> e = File c)))"

definition store_ok :: "crypto \<Rightarrow> bytes set \<Rightarrow> blob_files \<Rightarrow> blob_store \<Rightarrow> bool" where
  "store_ok C U f s =
     (om_sorted (bs_blobs s) \<and> length (bs_blobs s) \<le> unat (bs_generation s)
      \<and> (\<forall>i r. om_get (bs_blobs s) i = Some r \<longrightarrow> blob_id r = i \<and> (\<exists>c. stored C U f c \<and> r = content_reference C c)))"

text \<open>A staged blob has its image in the temporary directory, or reuses a stored content.\<close>

definition staged_blob_ok :: "crypto \<Rightarrow> bytes set \<Rightarrow> blob_files \<Rightarrow> staged_blob \<Rightarrow> bool" where
  "staged_blob_ok C U f t =
     (\<exists>c\<in>U. length c \<le> 1073741824 \<and> sb_reference t = content_reference C c
        \<and> (case sb_temporary_path t of
             None \<Rightarrow> \<exists>c'. stored C U f c' \<and> content_reference C c' = content_reference C c
           | Some p \<Rightarrow> p = blob_temporary_path (blake3 C c) \<and> map_of (bf_temporary f) p = Some (File (blob_image C c))))"

lemma staged_blob_okI:
  "c \<in> U \<Longrightarrow> length c \<le> 1073741824 \<Longrightarrow> stored C U f c' \<Longrightarrow> content_reference C c' = content_reference C c
    \<Longrightarrow> staged_blob_ok C U f \<lparr>sb_reference = content_reference C c, sb_temporary_path = None\<rparr>"
  unfolding staged_blob_ok_def by (intro bexI [of _ c]) auto

section \<open>Staging\<close>

lemma stored_temporary [simp]: "stored C U (f\<lparr>bf_temporary := d\<rparr>) = stored C U f"
  by (simp add: stored_def fun_eq_iff)

lemma files_ok_stage:
  "files_ok C U f \<Longrightarrow> \<not> dir_exists (bf_temporary f) (blob_temporary_path d)
    \<Longrightarrow> files_ok C U (f\<lparr>bf_temporary := dir_put (blob_temporary_path d) x (bf_temporary f)\<rparr>)"
  by (auto simp: files_ok_def wf_dir_put)

lemma store_ok_temporary [simp]: "store_ok C U (f\<lparr>bf_temporary := d\<rparr>) = store_ok C U f"
  by (simp add: store_ok_def fun_eq_iff)

lemma staged_blob_ok_put:
  "staged_blob_ok C U f t \<Longrightarrow> \<not> dir_exists (bf_temporary f) n
    \<Longrightarrow> staged_blob_ok C U (f\<lparr>bf_temporary := dir_put n x (bf_temporary f)\<rparr>) t \<and> sb_temporary_path t \<noteq> Some n"
  by (auto simp: staged_blob_ok_def dir_exists_def split: option.splits)

text \<open>What a stage does: nothing, a temporary file, or a staged blob.\<close>

lemma blob_stage_cases:
  assumes "blob_stage C io s f c sync = (x, f')" "files_ok C U f" "c \<in> U"
  shows "(f' = f \<and> (\<forall>t. x = Inr t \<longrightarrow> sb_temporary_path t = None \<and> staged_blob_ok C U f t \<and> sb_reference t = content_reference C c))
    \<or> (\<exists>d y. \<not> dir_exists (bf_temporary f) (blob_temporary_path d)
        \<and> f' = f\<lparr>bf_temporary := dir_put (blob_temporary_path d) y (bf_temporary f)\<rparr>
        \<and> (\<forall>t. x = Inr t \<longrightarrow> sb_temporary_path t = Some (blob_temporary_path d) \<and> staged_blob_ok C U f' t
             \<and> sb_reference t = content_reference C c))"
proof (cases "reference_for C c")
  case (Inl e)
  with assms(1) show ?thesis by (auto simp: blob_stage_def)
next
  case (Inr r)
  then have len: "length c \<le> 1073741824" and r: "r = content_reference C c" by (simp_all add: result_simps)
  show ?thesis
  proof (cases "dir_exists (bf_blobs f) (blob_path (blake3 C c))")
    case True
    then obtain c' where c': "stored C U f c'" "blake3 C c' = blake3 C c"
      using assms(2) by (auto simp: files_ok_def dir_exists_def)
    then have m: "map_of (bf_blobs f) (blob_path (blake3 C c)) = Some (File (blob_image C c'))"
      and d: "decode_blob C (blob_image C c') = Inr (content_reference C c', c')"
      by (simp_all add: stored_def decode_blob_iff reference_for_iff)
    from assms(1) Inr True have "f' = f" by (simp add: blob_stage_def r Let_def)
    moreover have "sb_temporary_path t = None \<and> staged_blob_ok C U f t \<and> sb_reference t = content_reference C c"
      if "x = Inr t" for t
      using that assms(1,3) Inr True m d c' len
      by (auto simp: blob_stage_def r Let_def attempt_eq_Inr ok_or_eq_Inr dir_read_def staged_blob_okI split: if_splits)
    ultimately show ?thesis by simp
  next
    case False
    with assms(1,3) Inr len show ?thesis
      by (auto simp: blob_stage_def r Let_def encode_blob_image staged_blob_ok_def split: if_splits option.splits sum.splits)
  qed
qed

section \<open>Publishing\<close>

text \<open>The files after the rename of the image of a content into place.\<close>

definition published :: "crypto \<Rightarrow> bytes \<Rightarrow> blob_files \<Rightarrow> blob_files" where
  "published C c f = \<lparr>bf_blobs = dir_put (blob_path (blake3 C c)) (blob_image C c) (bf_blobs f),
     bf_temporary = dir_remove (blob_temporary_path (blake3 C c)) (bf_temporary f)\<rparr>"

lemma stored_published:
  assumes "\<not> dir_exists (bf_blobs f) (blob_path (blake3 C c))"
  shows "stored C U f x \<Longrightarrow> stored C U (published C c f) x"
    and "c \<in> U \<Longrightarrow> length c \<le> 1073741824 \<Longrightarrow> stored C U (published C c f) c"
  using assms by (auto simp: stored_def published_def dir_exists_def)

lemma files_ok_published:
  assumes "files_ok C U f" "\<not> dir_exists (bf_blobs f) (blob_path (blake3 C c))" "c \<in> U" "length c \<le> 1073741824"
  shows "files_ok C U (published C c f)"
proof -
  have wf: "wf_directory (bf_blobs (published C c f))" "wf_directory (bf_temporary (published C c f))"
    using assms by (simp_all add: files_ok_def published_def wf_dir_put wf_dir_remove)
  have "\<exists>x. stored C U (published C c f) x \<and> n = blob_path (blake3 C x)"
    if "map_of (bf_blobs (published C c f)) n = Some e" for n e
  proof (cases "n = blob_path (blake3 C c)")
    case True
    then show ?thesis using stored_published(2) [OF assms(2-4)] by auto
  next
    case False
    then have "map_of (bf_blobs f) n = Some e" using that assms(2) by (simp add: published_def)
    then obtain x where "stored C U f x" "n = blob_path (blake3 C x)" using assms(1) by (auto simp: files_ok_def)
    then show ?thesis using stored_published(1) [OF assms(2)] by blast
  qed
  moreover have "\<exists>d x. n = blob_temporary_path d \<and> e = File x"
    if "map_of (bf_temporary (published C c f)) n = Some e" for n e
    using that assms(1) by (auto simp: published_def files_ok_def split: if_splits)
  ultimately show ?thesis using wf by (auto simp: files_ok_def)
qed

lemma store_ok_files:
  "store_ok C U f s \<Longrightarrow> (\<And>c. stored C U f c \<Longrightarrow> stored C U f' c) \<Longrightarrow> store_ok C U f' s"
  unfolding store_ok_def by blast

lemma store_ok_insert:
  assumes "store_ok C U f s" "om_get (bs_blobs s) (blob_id r) = None" "checked_add (bs_generation s) 1 = Some g"
    and "stored C U f c" "r = content_reference C c"
  shows "store_ok C U f (s\<lparr>bs_blobs := om_insert (blob_id r) r (bs_blobs s), bs_generation := g\<rparr>)"
  using assms by (auto simp: store_ok_def length_om_insert checked_add_Some)

lemma staged_blob_ok_published:
  assumes "staged_blob_ok C U f t" "sb_temporary_path t \<noteq> Some (blob_temporary_path (blake3 C c))"
    "\<not> dir_exists (bf_blobs f) (blob_path (blake3 C c))"
  shows "staged_blob_ok C U (published C c f) t"
  using assms stored_published(1) [OF assms(3)]
  by (fastforce simp: staged_blob_ok_def published_def split: option.splits)

text \<open>What a publication does to the files, and what it does to the references.\<close>

lemma place_staged_cases:
  assumes "place_staged io tio f t sync = (x, f')" "staged_blob_ok C U f t"
  shows "(f' = f \<and> (x = Inr () \<longrightarrow> (\<exists>c. stored C U f c \<and> content_reference C c = sb_reference t)))
    \<or> (\<exists>c\<in>U. length c \<le> 1073741824 \<and> sb_reference t = content_reference C c
        \<and> sb_temporary_path t = Some (blob_temporary_path (blake3 C c))
        \<and> \<not> dir_exists (bf_blobs f) (blob_path (blake3 C c)) \<and> f' = published C c f)"
proof -
  from assms(2) obtain c where c: "c \<in> U" "length c \<le> 1073741824" "sb_reference t = content_reference C c"
    and p: "case sb_temporary_path t of
        None \<Rightarrow> \<exists>c'. stored C U f c' \<and> content_reference C c' = content_reference C c
      | Some p \<Rightarrow> p = blob_temporary_path (blake3 C c) \<and> map_of (bf_temporary f) p = Some (File (blob_image C c))"
    unfolding staged_blob_ok_def by blast
  show ?thesis
  proof (cases "sb_temporary_path t")
    case None
    with assms(1) p c show ?thesis by (simp add: place_staged_def)
  next
    case (Some q)
    with assms(1) p c have "f' = f \<and> x \<noteq> Inr () \<or> \<not> dir_exists (bf_blobs f) (blob_path (blake3 C c)) \<and> f' = published C c f"
      by (auto simp: place_staged_def rename_blob_def published_def Let_def split: if_splits)
    with Some p c show ?thesis by auto
  qed
qed

lemma place_staged_stored:
  assumes "place_staged io tio f t sync = (Inr (), f')" "staged_blob_ok C U f t"
  shows "\<exists>c. stored C U f' c \<and> content_reference C c = sb_reference t"
  using place_staged_cases [OF assms] stored_published(2) by fastforce

text \<open>A publication places the staged blob and registers its reference, or fails and registers nothing.\<close>

lemma blob_publish_cases:
  assumes "blob_publish io tio s f t sync = (x, s', f')"
  obtains (refused) e where "x = Inl e" "s' = s" "f' = f"
  | (failed) e where "x = Inl e" "s' = s" "place_staged io tio f t sync = (Inl e, f')"
  | (known) "x = Inr (sb_reference t)" "s' = s" "place_staged io tio f t sync = (Inr (), f')"
      "om_get (bs_blobs s) (blob_id (sb_reference t)) = Some (sb_reference t)"
  | (new) g where "x = Inr (sb_reference t)" "place_staged io tio f t sync = (Inr (), f')"
      "om_get (bs_blobs s) (blob_id (sb_reference t)) = None" "checked_add (bs_generation s) 1 = Some g"
      "s' = s\<lparr>bs_blobs := om_insert (blob_id (sb_reference t)) (sb_reference t) (bs_blobs s), bs_generation := g\<rparr>"
  using assms
  by (cases "om_get (bs_blobs s) (blob_id (sb_reference t))"; cases "checked_add (bs_generation s) 1")
    (auto simp: blob_publish_def insert_reference_def Let_def split: sum.splits if_splits prod.splits)

lemma place_staged_keeps:
  assumes "place_staged io tio f t sync = (x, f')" "staged_blob_ok C U f t"
  shows "files_ok C U f \<Longrightarrow> files_ok C U f'" and "stored C U f c \<Longrightarrow> stored C U f' c"
    and "staged_blob_ok C U f t' \<Longrightarrow> sb_temporary_path t' \<noteq> sb_temporary_path t \<or> sb_temporary_path t' = None
      \<Longrightarrow> staged_blob_ok C U f' t'"
  using place_staged_cases [OF assms] by (auto simp: files_ok_published stored_published staged_blob_ok_published)

lemma blob_publish_keeps:
  assumes "blob_publish io tio s f t sync = (x, s', f')" "staged_blob_ok C U f t"
  shows "files_ok C U f \<Longrightarrow> files_ok C U f'" and "stored C U f c \<Longrightarrow> stored C U f' c"
    and "staged_blob_ok C U f t' \<Longrightarrow> sb_temporary_path t' \<noteq> sb_temporary_path t \<or> sb_temporary_path t' = None
      \<Longrightarrow> staged_blob_ok C U f' t'"
    and "om_sorted (bs_blobs s) \<Longrightarrow> om_get (bs_blobs s) i = Some r \<Longrightarrow> om_get (bs_blobs s') i = Some r"
  using assms(1) by (cases rule: blob_publish_cases; use place_staged_keeps [OF _ assms(2)] in auto)+

lemma blob_publish_result:
  assumes "blob_publish io tio s f t sync = (Inr r, s', f')" "staged_blob_ok C U f t" "om_sorted (bs_blobs s)"
  shows "r = sb_reference t \<and> om_get (bs_blobs s') (blob_id r) = Some r \<and> (\<exists>c. stored C U f' c \<and> content_reference C c = r)"
  using assms(1) by (cases rule: blob_publish_cases) (use place_staged_stored [OF _ assms(2)] assms(3) in auto)

lemma blob_publish_store_ok:
  assumes "blob_publish io tio s f t sync = (x, s', f')" "store_ok C U f s" "staged_blob_ok C U f t"
  shows "store_ok C U f' s'"
proof -
  have ok: "store_ok C U f' s" using assms(2) blob_publish_keeps(2) [OF assms(1,3)] by (rule store_ok_files)
  from assms(1) show ?thesis
  proof (cases rule: blob_publish_cases)
    case (new g)
    with place_staged_stored [OF new(2) assms(3)] show ?thesis by (auto intro: store_ok_insert [OF ok])
  qed (use ok in simp_all)
qed

section \<open>Pruning\<close>

lemma content_reference_id: "blake3 C c = blake3 C c' \<Longrightarrow> blob_id (content_reference C c) = blob_id (content_reference C c')"
  by (simp add: content_reference_def)

lemma prune_one:
  assumes "store_ok C U f s" "om_get (bs_blobs s) (blob_id r) = Some r"
    and "s' = s\<lparr>bs_blobs := om_remove (blob_id r) (bs_blobs s)\<rparr>"
    and "f' = f\<lparr>bf_blobs := dir_remove (blob_path (blob_digest r)) (bf_blobs f)\<rparr>"
  shows "store_ok C U f' s'" and "files_ok C U f \<Longrightarrow> files_ok C U f'"
    and "stored C U f' c = (stored C U f c \<and> blake3 C c \<noteq> blob_digest r)"
proof -
  show st: "stored C U f' c = (stored C U f c \<and> blake3 C c \<noteq> blob_digest r)" for c
    by (auto simp: stored_def assms(4))
  obtain c where c: "r = content_reference C c" using assms(1,2) unfolding store_ok_def by blast
  have len: "length (om_remove (blob_id r) (bs_blobs s)) \<le> length (bs_blobs s)" by (simp add: om_remove_def)
  have "blob_id q = i \<and> (\<exists>c'. stored C U f' c' \<and> q = content_reference C c')" if q: "om_get (bs_blobs s') i = Some q" for i q
  proof -
    have i: "i \<noteq> blob_id r" "om_get (bs_blobs s) i = Some q" using q by (simp_all add: assms(3) split: if_splits)
    then obtain c' where c': "blob_id q = i" "stored C U f c'" "q = content_reference C c'"
      using assms(1) unfolding store_ok_def by blast
    then have "blake3 C c' \<noteq> blake3 C c" using i(1) content_reference_id [of C c' c] c by blast
    with c' show ?thesis by (auto simp: st c)
  qed
  moreover have "om_sorted (bs_blobs s') \<and> length (bs_blobs s') \<le> unat (bs_generation s')"
    using len assms(1) by (simp add: assms(3) store_ok_def)
  ultimately show "store_ok C U f' s'" unfolding store_ok_def by blast
  assume ok: "files_ok C U f"
  have "\<exists>c. stored C U f' c \<and> n = blob_path (blake3 C c)" if "map_of (bf_blobs f') n = Some e" for n e
  proof -
    have n: "n \<noteq> blob_path (blob_digest r)" "map_of (bf_blobs f) n = Some e"
      using that by (simp_all add: assms(4) split: if_splits)
    then obtain c' where "stored C U f c'" "n = blob_path (blake3 C c')" using ok unfolding files_ok_def by blast
    with n(1) st show ?thesis by auto
  qed
  moreover have "wf_directory (bf_blobs f')" "bf_temporary f' = bf_temporary f"
    using ok by (simp_all add: assms(4) files_ok_def wf_dir_remove)
  ultimately show "files_ok C U f'" using ok unfolding files_ok_def by metis
qed

lemma prune_blobs_ok:
  assumes "prune_blobs io s f rs b = (x, s', f')" "files_ok C U f" "store_ok C U f s"
  shows "files_ok C U f' \<and> store_ok C U f' s' \<and> bf_temporary f' = bf_temporary f
    \<and> (\<forall>c. stored C U f c \<longrightarrow> blake3 C c \<notin> blob_digest ` set rs \<longrightarrow> stored C U f' c)
    \<and> (\<forall>i r. om_get (bs_blobs s) i = Some r \<longrightarrow> r \<notin> set rs \<longrightarrow> om_get (bs_blobs s') i = Some r)"
  using assms
proof (induction rs arbitrary: s f b)
  case (Cons r rs)
  show ?case
  proof (cases "om_get (bs_blobs s) (blob_id r) = Some r \<and> remove_ok io (blob_path (blob_digest r))
      \<and> dir_exists (bf_blobs f) (blob_path (blob_digest r))")
    case True
    define s1 where "s1 = s\<lparr>bs_blobs := om_remove (blob_id r) (bs_blobs s)\<rparr>"
    define f1 where "f1 = f\<lparr>bf_blobs := dir_remove (blob_path (blob_digest r)) (bf_blobs f)\<rparr>"
    note one = prune_one [OF Cons.prems(3) conjunct1 [OF True] s1_def f1_def]
    have keep: "om_get (bs_blobs s1) i = Some q" if "om_get (bs_blobs s) i = Some q" "q \<noteq> r" for i q
      using that True by (auto simp: s1_def)
    have tmp: "bf_temporary f1 = bf_temporary f" by (simp add: f1_def)
    have "(x, s', f') = (x, s1, f1) \<or> (\<exists>b'. prune_blobs io s1 f1 rs b' = (x, s', f'))"
      using Cons.prems(1) True by (auto simp: Let_def s1_def f1_def split: sum.splits)
    then have "files_ok C U f' \<and> store_ok C U f' s' \<and> bf_temporary f' = bf_temporary f1
      \<and> (\<forall>c. stored C U f1 c \<longrightarrow> blake3 C c \<notin> blob_digest ` set rs \<longrightarrow> stored C U f' c)
      \<and> (\<forall>i q. om_get (bs_blobs s1) i = Some q \<longrightarrow> q \<notin> set rs \<longrightarrow> om_get (bs_blobs s') i = Some q)"
      using Cons.IH [OF _ one(2) [OF Cons.prems(2)] one(1)] one(1,2) Cons.prems(2) by blast
    with keep show ?thesis by (simp add: tmp one(3))
  qed (use Cons.prems in \<open>auto simp: Let_def split: if_splits\<close>)
qed simp

lemma prune_unreferenced_cases:
  assumes "prune_unreferenced io s f live limit sync = (x, s', f')"
  obtains (refused) e where "x = Inl e" "s' = s" "f' = f"
  | (pruned) n y where "prune_blobs io s f (take n (prune_candidates_of s live)) 0 = (y, s', f')"
      "validate_live_references s live = Inr ()"
      "n = min (case limit of None \<Rightarrow> length (prune_candidates_of s live) | Some m \<Rightarrow> m) (length (prune_candidates_of s live))"
      "\<And>receipt. x = Inr receipt \<Longrightarrow> bp_removed_files receipt = n \<and> bp_retained_files receipt = length (bs_blobs s')
        \<and> (\<exists>z. y = Inr z)"
proof (cases "attempt (validate_live_references s live) (\<lambda>_. sum_encoded_bytes 0 (prune_candidates_of s live))")
  case (Inl e)
  with assms show ?thesis by (intro refused [of e]) (auto simp: prune_unreferenced_def)
next
  case (Inr b)
  define n where "n = min (case limit of None \<Rightarrow> length (prune_candidates_of s live) | Some m \<Rightarrow> m) (length (prune_candidates_of s live))"
  obtain y s1 f1 where p: "prune_blobs io s f (take n (prune_candidates_of s live)) 0 = (y, s1, f1)"
    by (metis prod_cases3)
  from assms Inr p have "s' = s1" "f' = f1"
    by (simp_all add: prune_unreferenced_def Let_def n_def split: sum.splits)
  moreover have "bp_removed_files receipt = n \<and> bp_retained_files receipt = length (bs_blobs s1) \<and> (\<exists>z. y = Inr z)"
    if "x = Inr receipt" for receipt
    using that assms Inr p
    by (auto simp: prune_unreferenced_def Let_def n_def attempt_eq_Inr blob_inventory_def split: sum.splits)
  ultimately show ?thesis using p Inr n_def by (intro pruned) (auto simp: attempt_eq_Inr)
qed

lemma set_prune_candidates:
  "set (prune_candidates_of s live) = {r \<in> snd ` set (bs_blobs s). om_get live (blob_digest r) = None}"
  by (auto simp: prune_candidates_of_def)

lemma prune_unreferenced_ok:
  assumes "prune_unreferenced io s f live limit sync = (x, s', f')" "files_ok C U f" "store_ok C U f s"
  shows "files_ok C U f' \<and> store_ok C U f' s' \<and> bf_temporary f' = bf_temporary f
    \<and> (\<forall>c. stored C U f c \<longrightarrow> om_get live (blake3 C c) \<noteq> None \<longrightarrow> stored C U f' c)
    \<and> (\<forall>i r. om_get (bs_blobs s) i = Some r \<longrightarrow> om_get live (blob_digest r) \<noteq> None \<longrightarrow> om_get (bs_blobs s') i = Some r)"
  using assms(1)
proof (cases rule: prune_unreferenced_cases)
  case (pruned n y)
  have dead: "om_get live (blob_digest r) = None" if "r \<in> set (take n (prune_candidates_of s live))" for r
    using in_set_takeD [OF that] by (simp add: set_prune_candidates)
  then have "blake3 C c \<notin> blob_digest ` set (take n (prune_candidates_of s live))" if "om_get live (blake3 C c) \<noteq> None" for c
    using that by force
  with dead prune_blobs_ok [OF pruned(1) assms(2,3)] show ?thesis by metis
qed (use assms(2,3) in simp)

section \<open>Opening\<close>

lemma blob_image_inj [simp]: "(blob_image C c = blob_image C c') = (c = c')"
  using blob_image_parts(10) by metis

lemma insert_reference_get:
  assumes "insert_reference m r = Inr (b, m')" "om_sorted m"
  shows "om_sorted m' \<and> om_get m' = (om_get m)(blob_id r \<mapsto> r) \<and> (\<forall>i q. om_get m i = Some q \<longrightarrow> om_get m' i = Some q)"
  using assms by (auto simp: insert_reference_def fun_eq_iff split: option.splits if_splits)

text \<open>The references of the files that the scan finds, and no others.\<close>

lemma scan_blobs_sound:
  assumes "scan_blobs C io d m = Inr m'" "om_sorted m"
  shows "om_sorted m' \<and> (\<forall>i q. om_get m i = Some q \<longrightarrow> om_get m' i = Some q)
    \<and> (\<forall>n e. (n, e) \<in> set d \<longrightarrow> (\<exists>c. length c \<le> 1073741824 \<and> n = blob_path (blake3 C c) \<and> e = File (blob_image C c)
        \<and> om_get m' (blob_id (content_reference C c)) = Some (content_reference C c)))
    \<and> (\<forall>i q. om_get m' i = Some q \<longrightarrow> om_get m i = Some q \<or> (\<exists>c. (blob_path (blake3 C c), File (blob_image C c)) \<in> set d
        \<and> length c \<le> 1073741824 \<and> i = blob_id q \<and> q = content_reference C c))"
  using assms
proof (induction d arbitrary: m)
  case (Cons x d)
  obtain n e where x: "x = (n, e)" by (cases x)
  from Cons.prems(1) obtain name content r c b m1 where e: "e = File content" and n: "n = Utf8 name"
    and r: "parse_final_filename name = Some (blob_digest r)" "decode_blob C content = Inr (r, c)"
    and m1: "insert_reference m r = Inr (b, m1)" and rest: "scan_blobs C io d m1 = Inr m'"
    by (auto simp: x attempt_eq_Inr ok_or_eq_Inr split: entry.splits file_name.splits if_splits)
  have c: "length c \<le> 1073741824" "r = content_reference C c" "content = blob_image C c" "n = blob_path (blake3 C c)"
    using r by (simp_all add: decode_blob_iff reference_for_iff parse_final_filename_iff n)
  note get = insert_reference_get [OF m1 Cons.prems(2)]
  note ih = Cons.IH [OF rest conjunct1 [OF get]]
  have "\<exists>c. length c \<le> 1073741824 \<and> k = blob_path (blake3 C c) \<and> z = File (blob_image C c)
      \<and> om_get m' (blob_id (content_reference C c)) = Some (content_reference C c)" if "(k, z) \<in> set (x # d)" for k z
  proof (cases "(k, z) = (n, e)")
    case True
    moreover have "om_get m' (blob_id r) = Some r" using ih get by simp
    ultimately show ?thesis using c e by blast
  next
    case False
    then show ?thesis using that ih x by auto
  qed
  moreover have "om_get m i = Some q \<or> (\<exists>c. (blob_path (blake3 C c), File (blob_image C c)) \<in> set (x # d)
      \<and> length c \<le> 1073741824 \<and> i = blob_id q \<and> q = content_reference C c)" if "om_get m' i = Some q" for i q
  proof -
    from that ih consider "om_get m1 i = Some q" | c where "(blob_path (blake3 C c), File (blob_image C c)) \<in> set d"
      "length c \<le> 1073741824" "i = blob_id q" "q = content_reference C c" by blast
    then show ?thesis
    proof cases
      case 1
      then have "om_get m i = Some q \<or> i = blob_id r \<and> q = r" using get by (auto split: if_splits)
      then show ?thesis using c x e by auto
    qed auto
  qed
  ultimately show ?case using ih get by blast
qed simp

text \<open>The scan succeeds on images of contents whose identities differ.\<close>

lemma scan_blobs_complete:
  assumes "\<forall>n. read_ok io n" "inj_on (\<lambda>c. blob_id (content_reference C c)) U" "om_sorted m"
    and "\<forall>i q. om_get m i = Some q \<longrightarrow> (\<exists>c\<in>U. i = blob_id q \<and> q = content_reference C c)"
    and "\<forall>(n, e)\<in>set d. \<exists>c\<in>U. length c \<le> 1073741824 \<and> n = blob_path (blake3 C c) \<and> e = File (blob_image C c)"
  shows "\<exists>m'. scan_blobs C io d m = Inr m' \<and> length m' \<le> length m + length d"
  using assms(3-5)
proof (induction d arbitrary: m)
  case (Cons x d)
  from Cons.prems(3) obtain c where c: "c \<in> U" "length c \<le> 1073741824"
    and x: "x = (blob_path (blake3 C c), File (blob_image C c))"
    by (cases x) auto
  let ?r = "content_reference C c"
  have d: "decode_blob C (blob_image C c) = Inr (?r, c)" using c by (simp add: decode_blob_iff reference_for_iff)
  have p: "parse_final_filename (digest_hex (blake3 C c) @ ''.hyblob'') = Some (blake3 C c)"
    by (simp add: parse_final_filename_iff blob_path_def)
  obtain b m1 where m1: "insert_reference m ?r = Inr (b, m1)" "length m1 \<le> Suc (length m)"
  proof (cases "om_get m (blob_id ?r)")
    case None
    then show ?thesis using that Cons.prems(1) by (simp add: insert_reference_def length_om_insert)
  next
    case (Some q)
    then obtain c' where "c' \<in> U" "blob_id ?r = blob_id q" "q = content_reference C c'" using Cons.prems(2) by blast
    then have "q = ?r" using c(1) assms(2) by (metis inj_onD)
    then show ?thesis using that [of False m] Some by (simp add: insert_reference_def)
  qed
  note get = insert_reference_get [OF m1(1) Cons.prems(1)]
  have ids: "\<forall>i q. om_get m1 i = Some q \<longrightarrow> (\<exists>c\<in>U. i = blob_id q \<and> q = content_reference C c)"
    using get Cons.prems(2) c(1) by (metis fun_upd_apply option.inject)
  have "\<forall>(n, e)\<in>set d. \<exists>c\<in>U. length c \<le> 1073741824 \<and> n = blob_path (blake3 C c) \<and> e = File (blob_image C c)"
    using Cons.prems(3) by simp
  then obtain m' where "scan_blobs C io d m1 = Inr m'" "length m' \<le> length m1 + length d"
    using Cons.IH [OF conjunct1 [OF get] ids] by blast
  then show ?case using assms(1) m1 by (simp add: x blob_path_def d p)
qed simp

lemma scan_temporary_files:
  "\<forall>(n, e)\<in>set d. \<exists>g c. n = blob_temporary_path g \<and> e = File c \<Longrightarrow> scan_temporary d ps = Inr (ps @ map fst d)"
proof (induction d arbitrary: ps)
  case (Cons x d)
  then obtain g c where x: "x = (blob_temporary_path g, File c)" by (cases x) auto
  have "parse_blob_temporary_filename (digest_hex g @ ''.tmp'') = Some g"
    by (simp add: parse_blob_temporary_filename_iff blob_temporary_path_def)
  with Cons show ?case by (simp add: x blob_temporary_path_def)
qed simp

text \<open>An open changes the temporary directory only, where it removes files.\<close>

lemma open_cases:
  assumes "open_with_generation_floor C io tio f g = (x, f')"
  obtains t where "f' = f\<lparr>bf_temporary := t\<rparr>" "set t \<subseteq> set (bf_temporary f)"
    "wf_directory (bf_temporary f) \<longrightarrow> wf_directory t"
    "\<forall>s. x = Inr s \<longrightarrow> scan_blobs C io (bf_blobs f) [] = Inr (bs_blobs s) \<and> length (bs_blobs s) \<le> unat (bs_generation s)"
proof -
  have gen: "length bs \<le> unat (max g p)" if "generation_for_count (length bs) = Inr p" for bs :: "(blob_id, blob_reference) ordered_map" and p
    using that by (auto simp: generation_for_count_def unat_word_of_nat max_def word_le_nat_alt split: if_splits)
  let ?scan = "if \<not> read_dir_ok io then Inl BlobIo
    else attempt (scan_blobs C io (bf_blobs f) []) (\<lambda>blobs.
      if \<not> read_dir_ok tio then Inl BlobIo
      else attempt (scan_temporary (bf_temporary f) []) (\<lambda>paths. Inr (blobs, paths)))"
  show ?thesis
  proof (cases ?scan)
    case (Inl e)
    then have "x = Inl e \<and> f' = f" using assms unfolding open_with_generation_floor_def by simp
    then show ?thesis using that [of "bf_temporary f"] by simp
  next
    case (Inr p)
    obtain blobs paths where p: "p = (blobs, paths)" by (cases p)
    obtain ok t where t: "remove_files tio paths (bf_temporary f) = (ok, t)" by (cases "remove_files tio paths (bf_temporary f)")
    have scan: "scan_blobs C io (bf_blobs f) [] = Inr blobs" using Inr by (auto simp: p attempt_eq_Inr split: if_splits)
    have f': "f' = f\<lparr>bf_temporary := t\<rparr>"
      using assms Inr t unfolding open_with_generation_floor_def by (cases ok) (simp_all add: p)
    have "bs_blobs s = blobs \<and> length blobs \<le> unat (bs_generation s)" if "x = Inr s" for s
      using that assms Inr t gen unfolding open_with_generation_floor_def
      by (cases ok) (auto simp: p attempt_eq_Inr split: if_splits)
    then show ?thesis using scan f' remove_files_set [OF t] wf_remove_files [OF t] that [of t] by simp
  qed
qed

end
