(* ===== verification/BlobRuns.thy ===== *)
theory BlobRuns
  imports BlobStore
begin

text \<open>
  The blob store in use: what holds of its files and of its references under every sequence of
  stages, publications, reads, traces, prunes and reopenings, with every call of the file system
  free to fail.
\<close>

section \<open>Steps\<close>

text \<open>
  The state of a process and its files: the open store, if there is one, the files, and the staged
  blobs that are not yet published. A prune keeps the references of \<open>keep\<close> live, and happens while no
  stage that reuses a stored content is outstanding (\<open>stale_stage_loses_blob\<close> shows what happens
  otherwise).
\<close>

type_synonym blob_state = "blob_store option \<times> blob_files \<times> staged_blob list"

inductive blob_step :: "crypto \<Rightarrow> bytes set \<Rightarrow> blob_reference set \<Rightarrow> blob_state \<Rightarrow> blob_state \<Rightarrow> bool"
  for C U keep where
  step_stage: "c \<in> U \<Longrightarrow> blob_stage C io s f c sync = (Inr t, f')
    \<Longrightarrow> blob_step C U keep (Some s, f, ts) (Some s, f', t # ts)"
| step_stage_fails: "c \<in> U \<Longrightarrow> blob_stage C io s f c sync = (Inl e, f')
    \<Longrightarrow> blob_step C U keep (Some s, f, ts) (Some s, f', ts)"
| step_publish: "blob_publish io tio s f t sync = (r, s', f')
    \<Longrightarrow> blob_step C U keep (Some s, f, xs @ t # ys) (Some s', f', xs @ ys)"
| step_read: "blob_read C io s f r = (x, s') \<Longrightarrow> blob_step C U keep (Some s, f, ts) (Some s', f, ts)"
| step_begin_trace: "begin_reference_trace s = (x, s') \<Longrightarrow> blob_step C U keep (Some s, f, ts) (Some s', f, ts)"
| step_finish_trace: "finish_reference_trace s = (x', s') \<Longrightarrow> blob_step C U keep (Some s, f, ts) (Some s', f, ts)"
| step_drop_trace: "blob_step C U keep (Some s, f, ts) (Some (drop_reference_trace True s), f, ts)"
| step_floor: "apply_committed_generation_floor s g = (x'', s') \<Longrightarrow> blob_step C U keep (Some s, f, ts) (Some s', f, ts)"
| step_prune: "prune_unreferenced io s f live limit sync = (x''', s', f')
    \<Longrightarrow> \<forall>r\<in>keep. om_get live (blob_digest r) \<noteq> None \<Longrightarrow> \<forall>t\<in>set ts. sb_temporary_path t \<noteq> None
    \<Longrightarrow> blob_step C U keep (Some s, f, ts) (Some s', f', ts)"
| step_open: "open_with_generation_floor C io tio f g = (Inr s', f')
    \<Longrightarrow> blob_step C U keep (s, f, ts) (Some s', f', [])"
| step_open_fails: "open_with_generation_floor C io tio f g = (Inl e, f')
    \<Longrightarrow> blob_step C U keep (s, f, ts) (None, f', [])"

definition fresh_paths :: "staged_blob list \<Rightarrow> file_name list" where
  "fresh_paths ts = List.map_filter sb_temporary_path ts"

definition state_ok :: "crypto \<Rightarrow> bytes set \<Rightarrow> blob_state \<Rightarrow> bool" where
  "state_ok C U = (\<lambda>(s, f, ts). files_ok C U f \<and> (\<forall>x. s = Some x \<longrightarrow> store_ok C U f x)
     \<and> (\<forall>t\<in>set ts. staged_blob_ok C U f t) \<and> distinct (fresh_paths ts))"

text \<open>The states of a store that was created and used, with contents of \<open>U\<close>.\<close>

inductive blob_reachable :: "crypto \<Rightarrow> bytes set \<Rightarrow> blob_state \<Rightarrow> bool" for C U where
  reach_create: "blob_create io data tmp = (Inr s, data', tmp')
    \<Longrightarrow> blob_reachable C U (Some s, \<lparr>bf_blobs = [], bf_temporary = []\<rparr>, [])"
| reach_step: "blob_reachable C U st \<Longrightarrow> blob_step C U keep st st' \<Longrightarrow> blob_reachable C U st'"

section \<open>The invariant\<close>

text \<open>The operations on traces and generations leave the references alone.\<close>

lemma trace_blobs:
  "record_reference s r = (x, s') \<Longrightarrow> bs_blobs s' = bs_blobs s \<and> bs_generation s' = bs_generation s"
  "begin_reference_trace s = (y, s') \<Longrightarrow> bs_blobs s' = bs_blobs s \<and> bs_generation s' = bs_generation s"
  "finish_reference_trace s = (z, s') \<Longrightarrow> bs_blobs s' = bs_blobs s \<and> bs_generation s' = bs_generation s"
  "bs_blobs (drop_reference_trace b s) = bs_blobs s" "bs_generation (drop_reference_trace b s) = bs_generation s"
  by (auto simp: record_reference_def begin_reference_trace_def finish_reference_trace_def drop_reference_trace_def
      split: option.splits if_splits)

lemma read_blobs: "blob_read C io s f r = (x, s') \<Longrightarrow> bs_blobs s' = bs_blobs s \<and> bs_generation s' = bs_generation s"
  by (auto simp: blob_read_def split: if_splits sum.splits prod.splits dest: trace_blobs(1))

lemma floor_blobs:
  "apply_committed_generation_floor s g = (x, s') \<Longrightarrow> bs_blobs s' = bs_blobs s \<and> bs_generation s \<le> bs_generation s'"
  by (auto simp: apply_committed_generation_floor_def Let_def le_max_iff_disj split: sum.splits)

lemma store_ok_same:
  "store_ok C U f s \<Longrightarrow> bs_blobs s' = bs_blobs s \<Longrightarrow> bs_generation s \<le> bs_generation s' \<Longrightarrow> store_ok C U f s'"
  unfolding store_ok_def word_le_nat_alt by (metis le_trans)

lemma fresh_paths_simps [simp]:
  "fresh_paths [] = []" "fresh_paths (xs @ ys) = fresh_paths xs @ fresh_paths ys"
  "fresh_paths (t # ts) = (case sb_temporary_path t of None \<Rightarrow> [] | Some p \<Rightarrow> [p]) @ fresh_paths ts"
  by (auto simp: fresh_paths_def map_filter_def split: option.splits)

lemma set_fresh_paths: "p \<in> set (fresh_paths ts) \<longleftrightarrow> (\<exists>t\<in>set ts. sb_temporary_path t = Some p)"
  by (induction ts) (auto split: option.splits)

lemma state_ok_stage:
  assumes "blob_stage C io s f c sync = (x, f')" "c \<in> U" "state_ok C U (Some s, f, ts)"
  shows "state_ok C U (Some s, f', (case x of Inl e \<Rightarrow> ts | Inr t \<Rightarrow> t # ts))"
proof -
  have ok: "files_ok C U f" "store_ok C U f s" "\<forall>t\<in>set ts. staged_blob_ok C U f t" "distinct (fresh_paths ts)"
    using assms(3) by (simp_all add: state_ok_def)
  from blob_stage_cases [OF assms(1) ok(1) assms(2)] show ?thesis
  proof (elim disjE exE conjE)
    fix d y assume new: "\<not> dir_exists (bf_temporary f) (blob_temporary_path d)"
      and f': "f' = f\<lparr>bf_temporary := dir_put (blob_temporary_path d) y (bf_temporary f)\<rparr>"
      and t: "\<forall>t. x = Inr t \<longrightarrow> sb_temporary_path t = Some (blob_temporary_path d) \<and> staged_blob_ok C U f' t
        \<and> sb_reference t = content_reference C c"
    have "staged_blob_ok C U f' u \<and> sb_temporary_path u \<noteq> Some (blob_temporary_path d)" if "u \<in> set ts" for u
      unfolding f' using that ok(3) new by (intro staged_blob_ok_put) auto
    then have "\<forall>u\<in>set ts. staged_blob_ok C U f' u" "blob_temporary_path d \<notin> set (fresh_paths ts)"
      by (auto simp: set_fresh_paths)
    moreover have "files_ok C U f'" "store_ok C U f' s" using files_ok_stage [OF ok(1) new, of y] ok(2) by (simp_all add: f')
    moreover have "sb_temporary_path u = Some (blob_temporary_path d)" "staged_blob_ok C U f' u" if "x = Inr u" for u
      using t that by blast+
    ultimately show ?thesis using ok(4) unfolding state_ok_def by (cases x) auto
  next
    assume "f' = f" and t: "\<forall>t. x = Inr t \<longrightarrow> sb_temporary_path t = None \<and> staged_blob_ok C U f t
      \<and> sb_reference t = content_reference C c"
    moreover have "sb_temporary_path u = None" "staged_blob_ok C U f u" if "x = Inr u" for u
      using t that by blast+
    ultimately show ?thesis using ok unfolding state_ok_def by (cases x) auto
  qed
qed

lemma state_ok_publish:
  assumes "blob_publish io tio s f t sync = (x, s', f')" "state_ok C U (Some s, f, xs @ t # ys)"
  shows "state_ok C U (Some s', f', xs @ ys)"
proof -
  have ok: "files_ok C U f" "store_ok C U f s" "staged_blob_ok C U f t" "distinct (fresh_paths (xs @ ys))"
    using assms(2) by (auto simp: state_ok_def)
  have "sb_temporary_path u \<noteq> sb_temporary_path t \<or> sb_temporary_path u = None" if "u \<in> set xs \<union> set ys" for u
    using that assms(2) set_fresh_paths [of _ xs] set_fresh_paths [of _ ys]
    by (cases "sb_temporary_path t") (auto simp: state_ok_def)
  then have "staged_blob_ok C U f' u" if "u \<in> set xs \<union> set ys" for u
    using that assms(2) blob_publish_keeps(3) [OF assms(1) ok(3)] by (auto simp: state_ok_def)
  with ok blob_publish_keeps(1) [OF assms(1) ok(3)] blob_publish_store_ok [OF assms(1) ok(2,3)] show ?thesis
    by (auto simp: state_ok_def)
qed

lemma state_ok_open:
  assumes "open_with_generation_floor C io tio f g = (x, f')" "files_ok C U f"
  shows "state_ok C U ((case x of Inl e \<Rightarrow> None | Inr s \<Rightarrow> Some s), f', [])"
proof -
  from assms(1) obtain t where t: "f' = f\<lparr>bf_temporary := t\<rparr>" "set t \<subseteq> set (bf_temporary f)"
      "wf_directory (bf_temporary f) \<longrightarrow> wf_directory t"
    and s: "\<forall>s. x = Inr s \<longrightarrow> scan_blobs C io (bf_blobs f) [] = Inr (bs_blobs s) \<and> length (bs_blobs s) \<le> unat (bs_generation s)"
    by (rule open_cases)
  have "\<exists>d c. n = blob_temporary_path d \<and> e = File c" if "map_of t n = Some e" for n e
  proof -
    have "(n, e) \<in> set (bf_temporary f)" using map_of_SomeD [OF that] t(2) by blast
    then have "map_of (bf_temporary f) n = Some e" using assms(2) by (simp add: files_ok_def wf_directory_def)
    then show ?thesis using assms(2) unfolding files_ok_def by blast
  qed
  then have files: "files_ok C U f'" using assms(2) t(3) unfolding files_ok_def t(1) by simp
  have "store_ok C U f s" if x: "x = Inr s" for s
  proof -
    note scan = scan_blobs_sound [OF conjunct1 [OF s [rule_format, OF x]], simplified]
    have "blob_id q = i \<and> (\<exists>c. stored C U f c \<and> q = content_reference C c)" if "om_get (bs_blobs s) i = Some q" for i q
    proof -
      from that scan obtain c where c: "(blob_path (blake3 C c), File (blob_image C c)) \<in> set (bf_blobs f)"
        "length c \<le> 1073741824" "i = blob_id q" "q = content_reference C c" by blast
      then have m: "map_of (bf_blobs f) (blob_path (blake3 C c)) = Some (File (blob_image C c))"
        using assms(2) by (simp add: files_ok_def wf_directory_def)
      then obtain c' where "stored C U f c'" "blake3 C c' = blake3 C c" using assms(2) unfolding files_ok_def by fastforce
      with m have "stored C U f c" by (simp add: stored_def)
      with c show ?thesis by blast
    qed
    then show ?thesis using scan s x unfolding store_ok_def by blast
  qed
  with files show ?thesis by (auto simp: state_ok_def t(1) split: sum.splits)
qed

lemma staged_blob_ok_fresh:
  "sb_temporary_path t \<noteq> None \<Longrightarrow> bf_temporary f' = bf_temporary f \<Longrightarrow> staged_blob_ok C U f t \<Longrightarrow> staged_blob_ok C U f' t"
  by (auto simp: staged_blob_ok_def)

lemma state_ok_prune:
  assumes "prune_unreferenced io s f live limit sync = (x, s', f')" "state_ok C U (Some s, f, ts)"
    "\<forall>t\<in>set ts. sb_temporary_path t \<noteq> None"
  shows "state_ok C U (Some s', f', ts)"
proof -
  have "files_ok C U f" "store_ok C U f s" using assms(2) by (simp_all add: state_ok_def)
  note ok = prune_unreferenced_ok [OF assms(1) this]
  have "staged_blob_ok C U f' t" if "t \<in> set ts" for t
    using that assms(2,3) ok by (intro staged_blob_ok_fresh [of t f' f]) (simp_all add: state_ok_def)
  with ok assms(2) show ?thesis by (simp add: state_ok_def)
qed

lemma state_ok_step: "blob_step C U keep st st' \<Longrightarrow> state_ok C U st \<Longrightarrow> state_ok C U st'"
proof (induction rule: blob_step.induct)
  case (step_stage c io s f sync t f' ts)
  then show ?case using state_ok_stage [OF step_stage(2,1)] by simp
next
  case (step_stage_fails c io s f sync e f' ts)
  then show ?case using state_ok_stage [OF step_stage_fails(2,1)] by simp
next
  case (step_publish io tio s f t sync r s' f' xs ys)
  then show ?case by (rule state_ok_publish)
next
  case (step_prune io s f live limit sync x s' f' ts)
  then show ?case by (blast intro: state_ok_prune)
next
  case (step_open io tio f g s' f' s ts)
  then show ?case using state_ok_open [OF step_open(1)] by (simp add: state_ok_def)
next
  case (step_open_fails io tio f g e f' s ts)
  then show ?case using state_ok_open [OF step_open_fails(1)] by (simp add: state_ok_def)
next
  case (step_read io s f r x s' ts)
  then show ?case using read_blobs [OF step_read(1)] store_ok_same [of C U f s s'] by (simp add: state_ok_def)
next
  case (step_floor s g x s' f ts)
  then show ?case using floor_blobs [OF step_floor(1)] store_ok_same [of C U f s s'] by (simp add: state_ok_def)
qed (auto simp: state_ok_def trace_blobs intro: store_ok_same dest: trace_blobs(2,3))

lemma blob_create_empty:
  "blob_create io data tmp = (Inr s, data', tmp') \<Longrightarrow> bs_blobs s = []"
  by (auto simp: blob_create_def Let_def split: if_splits prod.splits bool.splits)

lemma state_ok_reachable: "blob_reachable C U st \<Longrightarrow> state_ok C U st"
proof (induction rule: blob_reachable.induct)
  case (reach_create io data tmp s data' tmp')
  then show ?case
    by (simp add: state_ok_def files_ok_def store_ok_def wf_directory_def blob_create_empty [OF reach_create])
qed (rule state_ok_step)

section \<open>Contents stay\<close>

definition holds :: "crypto \<Rightarrow> bytes set \<Rightarrow> bytes \<Rightarrow> blob_state \<Rightarrow> bool" where
  "holds C U c = (\<lambda>(s, f, _). stored C U f c
     \<and> (\<forall>x. s = Some x \<longrightarrow> om_get (bs_blobs x) (blob_id (content_reference C c)) = Some (content_reference C c)))"

lemma holds_open:
  assumes "open_with_generation_floor C io tio f g = (x, f')" "files_ok C U f" "stored C U f c"
  shows "holds C U c ((case x of Inl e \<Rightarrow> None | Inr s \<Rightarrow> Some s), f', [])"
proof -
  from assms(1) obtain t where t: "f' = f\<lparr>bf_temporary := t\<rparr>"
    and s: "\<forall>s. x = Inr s \<longrightarrow> scan_blobs C io (bf_blobs f) [] = Inr (bs_blobs s) \<and> length (bs_blobs s) \<le> unat (bs_generation s)"
    by (rule open_cases)
  have file_in: "(blob_path (blake3 C c), File (blob_image C c)) \<in> set (bf_blobs f)"
    using assms(3) by (simp add: stored_def map_of_SomeD)
  have "om_get (bs_blobs s) (blob_id (content_reference C c)) = Some (content_reference C c)" if x: "x = Inr s" for s
  proof -
    note scan = scan_blobs_sound [OF conjunct1 [OF s [rule_format, OF x]], simplified]
    from scan file_in obtain c' where "blob_image C c = blob_image C c'"
      "om_get (bs_blobs s) (blob_id (content_reference C c')) = Some (content_reference C c')" by blast
    then show ?thesis by simp
  qed
  with assms(3) show ?thesis by (auto simp: holds_def t split: sum.splits)
qed

lemma holds_stage:
  "blob_stage C io s f c' sync = (x, f') \<Longrightarrow> state_ok C U (Some s, f, ts) \<Longrightarrow> c' \<in> U \<Longrightarrow> holds C U c (Some s, f, ts)
    \<Longrightarrow> holds C U c (Some s, f', ts')"
  using blob_stage_cases [of C io s f c' sync x f' U] by (fastforce simp: holds_def state_ok_def)

lemma holds_step:
  "blob_step C U {content_reference C c} st st' \<Longrightarrow> state_ok C U st \<Longrightarrow> holds C U c st \<Longrightarrow> holds C U c st'"
proof (induction rule: blob_step.induct)
  case (step_publish io tio s f t sync r s' f' xs ys)
  then have "staged_blob_ok C U f t" "om_sorted (bs_blobs s)" by (simp_all add: state_ok_def store_ok_def)
  with step_publish(3) blob_publish_keeps(2,4) [OF step_publish(1)] show ?case by (auto simp: holds_def)
next
  case (step_prune io s f live limit sync x s' f' ts)
  then have "files_ok C U f" "store_ok C U f s" by (simp_all add: state_ok_def)
  from prune_unreferenced_ok [OF step_prune(1) this] step_prune(2,5) show ?case by (auto simp: holds_def)
next
  case (step_open io tio f g s' f' s ts)
  then show ?case using holds_open [OF step_open(1), of U c] by (simp add: state_ok_def holds_def)
next
  case (step_open_fails io tio f g e f' s ts)
  then show ?case using holds_open [OF step_open_fails(1), of U c] by (simp add: state_ok_def holds_def)
next
  case (step_stage c' io s f sync t f' ts)
  then show ?case using holds_stage by blast
next
  case (step_stage_fails c' io s f sync e f' ts)
  then show ?case using holds_stage by blast
qed (auto simp: holds_def trace_blobs dest: read_blobs floor_blobs trace_blobs(2,3))

lemma holds_steps:
  "(blob_step C U {content_reference C c})\<^sup>*\<^sup>* st st' \<Longrightarrow> state_ok C U st \<Longrightarrow> holds C U c st
    \<Longrightarrow> state_ok C U st' \<and> holds C U c st'"
  by (induction rule: rtranclp_induct) (auto intro: holds_step state_ok_step)

section \<open>Reading\<close>

lemma blob_read_Inr:
  "blob_read C io s f r = (Inr c, s') \<Longrightarrow> om_get (bs_blobs s) (blob_id r) = Some r \<and> reference_for C c = Inr r"
  by (auto simp: blob_read_def attempt_eq_Inr decode_blob_iff split: if_splits sum.splits prod.splits)

lemma blob_read_holds:
  assumes "holds C U c (Some s, f, ts)" "read_ok io (blob_path (blake3 C c))"
  shows "fst (blob_read C io (blob_read_handle s) f (content_reference C c)) = Inr c"
proof -
  have "length c \<le> 1073741824" using assms(1) by (simp add: holds_def stored_def)
  then have "decode_blob C (blob_image C c) = Inr (content_reference C c, c)"
    by (simp add: decode_blob_iff reference_for_iff)
  with assms show ?thesis
    by (simp add: blob_read_def holds_def stored_def dir_read_def record_reference_def blob_read_handle_def)
qed

text \<open>C40. A read returns verified content only: whatever the directory holds, what a read returns has the
  length, the BLAKE3 digest and the identity of the reference it was asked for, and that reference is
  registered.\<close>

theorem blob_read_verified:
  assumes "blob_read C io s f r = (Inr c, s')"
  shows "om_get (bs_blobs s) (blob_id r) = Some r \<and> blob_digest r = blake3 C c
    \<and> unat (blob_logical_length r) = length c
    \<and> get (blob_id r) = (let i = from_le_bytes (take 16 (to_be_bytes (blake3 C c))) in if i = 0 then 1 else i)"
proof -
  have r: "length c \<le> 1073741824" "r = content_reference C c"
    using blob_read_Inr [OF assms] by (simp_all add: reference_for_iff)
  have "unat (word_of_nat (length c) :: u64) = length c" using r(1) by (intro unat_word_of_nat) simp
  with blob_read_Inr [OF assms] r show ?thesis by (simp add: content_reference_def Let_def)
qed

text \<open>C8. Stored content survives. After a \<^verbatim>\<open>put\<close> returns a reference, any sequence of stages, publications,
  reads, traces, prunes that keep the reference live and reopenings, with any call of the file system
  failing, leaves a store whose read handle returns exactly the content that was put, as long as no
  two contents in use have the same digest.\<close>

theorem blob_survives:
  assumes "blob_reachable C U (Some s, f, ts)" "inj_on (blake3 C) U" "c \<in> U"
    and "blob_put C io tio s f c sync = (Inr r, s1, f1)"
    and "(blob_step C U {r})\<^sup>*\<^sup>* (Some s1, f1, ts) (Some s2, f2, ts2)"
    and "read_ok rio (blob_path (blob_digest r))"
  shows "fst (blob_read C rio (blob_read_handle s2) f2 r) = Inr c"
proof -
  obtain t f' where st: "blob_stage C io s f c sync = (Inr t, f')" and pub: "blob_publish io tio s f' t sync = (Inr r, s1, f1)"
    using assms(4) by (auto simp: blob_put_def split: prod.splits sum.splits)
  have ok: "state_ok C U (Some s, f, ts)" by (rule state_ok_reachable [OF assms(1)])
  have "state_ok C U (Some s, f', t # ts)" using state_ok_stage [OF st assms(3) ok] by simp
  then have ok1: "state_ok C U (Some s1, f1, ts)" and t: "staged_blob_ok C U f' t" "om_sorted (bs_blobs s)"
    using state_ok_publish [OF pub, of C U "[]" ts] by (simp_all add: state_ok_def store_ok_def)
  have "sb_reference t = content_reference C c"
    using blob_stage_cases [OF st _ assms(3)] ok by (auto simp: state_ok_def)
  with blob_publish_result [OF pub t] obtain c' where r: "r = content_reference C c" and
    c': "stored C U f1 c'" "content_reference C c' = r" "om_get (bs_blobs s1) (blob_id r) = Some r" by auto
  from c'(1,2) have "blake3 C c' = blake3 C c" "c' \<in> U" by (metis r content_reference_sel(1), simp add: stored_def)
  then have "c' = c" using assms(2,3) by (simp add: inj_on_eq_iff)
  with c' r have "holds C U c (Some s1, f1, ts)" by (simp add: holds_def)
  then have "holds C U c (Some s2, f2, ts2)" using holds_steps [OF assms(5) [unfolded r] ok1] by blast
  then show ?thesis using assms(6) by (simp add: r blob_read_holds)
qed

section \<open>Reopening\<close>

lemma files_ok_entries:
  assumes "files_ok C U f"
  shows "\<forall>(n, e)\<in>set (bf_blobs f). \<exists>c\<in>U. length c \<le> 1073741824 \<and> n = blob_path (blake3 C c) \<and> e = File (blob_image C c)"
    and "\<forall>(n, e)\<in>set (bf_temporary f). \<exists>g c. n = blob_temporary_path g \<and> e = File c"
proof -
  have m: "map_of (bf_blobs f) n = Some e" if "(n, e) \<in> set (bf_blobs f)" for n e
    using that assms by (simp add: files_ok_def wf_directory_def)
  have "\<exists>c\<in>U. length c \<le> 1073741824 \<and> n = blob_path (blake3 C c) \<and> e = File (blob_image C c)"
    if e: "(n, e) \<in> set (bf_blobs f)" for n e
  proof -
    obtain c where "stored C U f c" "n = blob_path (blake3 C c)" using m [OF e] assms unfolding files_ok_def by blast
    then show ?thesis using m [OF e] by (auto simp: stored_def)
  qed
  then show "\<forall>(n, e)\<in>set (bf_blobs f). \<exists>c\<in>U. length c \<le> 1073741824 \<and> n = blob_path (blake3 C c) \<and> e = File (blob_image C c)"
    by blast
  have "map_of (bf_temporary f) n = Some e" if "(n, e) \<in> set (bf_temporary f)" for n e
    using that assms by (simp add: files_ok_def wf_directory_def)
  then show "\<forall>(n, e)\<in>set (bf_temporary f). \<exists>g c. n = blob_temporary_path g \<and> e = File c"
    using assms unfolding files_ok_def by blast
qed

lemma open_succeeds:
  assumes "files_ok C U f" "inj_on (\<lambda>c. blob_id (content_reference C c)) U" "length (bf_blobs f) < 2 ^ 64"
  shows "\<exists>s'. open_with_generation_floor C all_ok all_ok f g = (Inr s', f\<lparr>bf_temporary := []\<rparr>)
    \<and> g \<le> bs_generation s'"
proof -
  obtain m where m: "scan_blobs C all_ok (bf_blobs f) [] = Inr m" "length m \<le> length (bf_blobs f)"
    using scan_blobs_complete [OF _ assms(2), of all_ok "[]" "bf_blobs f"] files_ok_entries(1) [OF assms(1)]
    by (auto simp: all_ok_def)
  let ?d = "bf_temporary f"
  have "distinct (map fst ?d)" using assms(1) by (simp add: files_ok_def wf_directory_def)
  then obtain t where t: "remove_files all_ok (map fst ?d) ?d = (True, t)"
    using remove_files_all [of "map fst ?d" all_ok ?d] by (auto simp: all_ok_def)
  have "set t = {(m, e) \<in> set ?d. m \<notin> fst ` set ?d}" using remove_files_set [OF t] by simp
  also have "\<dots> = {}" by (force simp: image_iff)
  finally have "t = []" by simp
  with m t assms(3) scan_temporary_files [OF files_ok_entries(2) [OF assms(1)], of "[]"] show ?thesis
    by (simp add: open_with_generation_floor_def generation_for_count_def) (simp add: all_ok_def)
qed

text \<open>C9. A blob store reopens. Whatever was done to a store, and whichever calls failed on the way, if
  no two contents in use share an identity then an open whose own calls succeed returns a store: it
  empties the temporary directory, registers exactly the references of the stored contents, among
  them all that were registered before, and its generation is at least the committed floor.\<close>

theorem blob_store_reopens:
  assumes "blob_reachable C U (st, f, ts)" "inj_on (\<lambda>c. blob_id (content_reference C c)) U" "length (bf_blobs f) < 2 ^ 64"
  shows "\<exists>s'. open_with_generation_floor C all_ok all_ok f g = (Inr s', f\<lparr>bf_temporary := []\<rparr>) \<and> g \<le> bs_generation s'
    \<and> (\<forall>i r. om_get (bs_blobs s') i = Some r
        \<longleftrightarrow> (\<exists>c\<in>U. length c \<le> 1073741824 \<and> r = content_reference C c \<and> i = blob_id r
             \<and> map_of (bf_blobs f) (blob_path (blake3 C c)) = Some (File (blob_image C c))))
    \<and> (\<forall>s i r. st = Some s \<longrightarrow> om_get (bs_blobs s) i = Some r \<longrightarrow> om_get (bs_blobs s') i = Some r)"
proof -
  have ok: "files_ok C U f" "\<forall>s. st = Some s \<longrightarrow> store_ok C U f s"
    using state_ok_reachable [OF assms(1)] by (simp_all add: state_ok_def)
  obtain s' where s': "open_with_generation_floor C all_ok all_ok f g = (Inr s', f\<lparr>bf_temporary := []\<rparr>)" "g \<le> bs_generation s'"
    using open_succeeds [OF ok(1) assms(2,3)] by blast
  have ok': "store_ok C U f s'" using state_ok_open [OF s'(1) ok(1)] by (simp add: state_ok_def)
  have "om_get (bs_blobs s') i = Some r \<longleftrightarrow> (\<exists>c. stored C U f c \<and> r = content_reference C c \<and> i = blob_id r)" for i r
  proof
    assume "om_get (bs_blobs s') i = Some r"
    then show "\<exists>c. stored C U f c \<and> r = content_reference C c \<and> i = blob_id r" using ok' unfolding store_ok_def by blast
  next
    assume "\<exists>c. stored C U f c \<and> r = content_reference C c \<and> i = blob_id r"
    then show "om_get (bs_blobs s') i = Some r" using holds_open [OF s'(1) ok(1)] by (auto simp: holds_def)
  qed
  note refs = this
  moreover have "om_get (bs_blobs s') i = Some r" if "st = Some s" "om_get (bs_blobs s) i = Some r" for s i r
    using that ok(2) unfolding refs store_ok_def by blast
  ultimately show ?thesis using s' unfolding stored_def by (intro exI [of _ s']) auto
qed

section \<open>What a prune removes\<close>

lemma prune_blobs_exact:
  "prune_blobs io s f rs b = (Inr z, s', f') \<Longrightarrow>
    bs_blobs s' = filter (\<lambda>(i, _). i \<notin> blob_id ` set rs) (bs_blobs s)
    \<and> bf_blobs f' = filter (\<lambda>(n, _). n \<notin> (\<lambda>r. blob_path (blob_digest r)) ` set rs) (bf_blobs f)"
proof (induction rs arbitrary: s f b)
  case (Cons r rs)
  then obtain b' where "prune_blobs io (s\<lparr>bs_blobs := om_remove (blob_id r) (bs_blobs s)\<rparr>)
      (f\<lparr>bf_blobs := dir_remove (blob_path (blob_digest r)) (bf_blobs f)\<rparr>) rs b' = (Inr z, s', f')"
    by (auto simp: Let_def split: if_splits sum.splits)
  from Cons.IH [OF this] show ?case
    by (simp add: om_remove_def dir_remove_def case_prod_unfold conj_commute)
qed (simp add: filter_id_conv case_prod_unfold)

lemma store_ok_entries:
  assumes "store_ok C U f s"
  shows "distinct (map snd (bs_blobs s))" and "(i, r) \<in> set (bs_blobs s) \<Longrightarrow> blob_id r = i \<and> om_get (bs_blobs s) i = Some r"
proof -
  have d: "distinct (map fst (bs_blobs s))"
    using assms by (simp add: store_ok_def om_sorted_def strict_sorted_iff)
  show e: "blob_id r = i \<and> om_get (bs_blobs s) i = Some r" if "(i, r) \<in> set (bs_blobs s)" for i r
    using that d assms unfolding store_ok_def by (metis map_of_is_SomeI)
  have "inj_on snd (set (bs_blobs s))" by (rule inj_onI) (metis e prod.collapse)
  then show "distinct (map snd (bs_blobs s))" using d by (simp add: distinct_map)
qed

lemma length_filter_values:
  assumes "distinct (map snd m)" "distinct xs" "set xs \<subseteq> snd ` set m"
  shows "length xs + length (filter (\<lambda>(_, r). r \<notin> set xs) m) = length m"
proof -
  let ?in = "filter (\<lambda>(_, r). r \<in> set xs) m"
  have "distinct (map snd ?in)" using assms(1) by (induction m) auto
  moreover have "set (map snd ?in) = set xs" using assms(3) by force
  ultimately have "length ?in = length xs" using assms(2) by (metis distinct_card length_map)
  then show ?thesis using sum_length_filter_compl [of "\<lambda>(_, r). r \<in> set xs" m] by (simp add: case_prod_unfold)
qed

text \<open>C38. A prune that succeeds removes exactly what it reports: the first references in digest order, up
  to the limit, that are not live. Their files and their registrations go, every other file and
  registration stays as it was, in place, and the receipt's counts add up to the number of blobs
  before.\<close>

theorem prune_removes_exactly:
  assumes "blob_reachable C U (Some s, f, ts)" "prune_unreferenced io s f live limit sync = (Inr receipt, s', f')"
  shows "let candidates = sort_key blob_digest (filter (\<lambda>r. om_get live (blob_digest r) = None) (map snd (bs_blobs s)));
      dead = (case limit of None \<Rightarrow> candidates | Some n \<Rightarrow> take n candidates)
    in bs_blobs s' = filter (\<lambda>(_, r). r \<notin> set dead) (bs_blobs s)
    \<and> bf_blobs f' = filter (\<lambda>(n, _). \<forall>r\<in>set dead. n \<noteq> blob_path (blob_digest r)) (bf_blobs f)
    \<and> bf_temporary f' = bf_temporary f
    \<and> bp_removed_files receipt = length dead
    \<and> bp_removed_files receipt + bp_retained_files receipt = length (bs_blobs s)"
proof -
  have ok: "files_ok C U f" "store_ok C U f s" using state_ok_reachable [OF assms(1)] by (simp_all add: state_ok_def)
  define candidates where "candidates = sort_key blob_digest (filter (\<lambda>r. om_get live (blob_digest r) = None) (map snd (bs_blobs s)))"
  define dead where "dead = (case limit of None \<Rightarrow> candidates | Some n \<Rightarrow> take n candidates)"
  have cand: "prune_candidates_of s live = candidates" by (simp add: candidates_def prune_candidates_of_def)
  from assms(2) show ?thesis
  proof (cases rule: prune_unreferenced_cases)
    case (pruned n y)
    have dead: "take n candidates = dead" "n = length dead"
      using pruned(3) by (simp_all add: dead_def cand min_def split: option.splits)
    have "prune_blobs io s f dead 0 = (y, s', f')" using pruned(1) by (simp only: cand dead(1))
    then obtain z where p: "prune_blobs io s f dead 0 = (Inr z, s', f')" using pruned(4) [OF refl] by auto
    have sub: "set dead \<subseteq> snd ` set (bs_blobs s)"
      using set_take_subset [of n candidates] dead(1) by (force simp: candidates_def)
    have "(i \<in> blob_id ` set dead) = (r \<in> set dead)" if ir: "(i, r) \<in> set (bs_blobs s)" for i r
    proof
      assume "i \<in> blob_id ` set dead"
      then obtain q j where q: "q \<in> set dead" "i = blob_id q" "(j, q) \<in> set (bs_blobs s)" using sub by force
      then have "q = r" using store_ok_entries(2) [OF ok(2)] ir by (metis option.inject)
      with q show "r \<in> set dead" by simp
    qed (use store_ok_entries(2) [OF ok(2) ir] in auto)
    then have "filter (\<lambda>(i, _). i \<notin> blob_id ` set dead) (bs_blobs s) = filter (\<lambda>(_, r). r \<notin> set dead) (bs_blobs s)"
      by (intro filter_cong refl) auto
    then have blobs: "bs_blobs s' = filter (\<lambda>(_, r). r \<notin> set dead) (bs_blobs s)" using prune_blobs_exact [OF p] by simp
    have dd: "distinct dead"
      using store_ok_entries(1) [OF ok(2)] by (simp add: dead(1) [symmetric] candidates_def distinct_map_filter)
    have "length dead + length (bs_blobs s') = length (bs_blobs s)"
      unfolding blobs by (rule length_filter_values [OF store_ok_entries(1) [OF ok(2)] dd sub])
    moreover have "bf_blobs f' = filter (\<lambda>(n, _). \<forall>r\<in>set dead. n \<noteq> blob_path (blob_digest r)) (bf_blobs f)"
      using prune_blobs_exact [OF p] by (auto intro!: filter_cong)
    moreover have "bf_temporary f' = bf_temporary f" using prune_blobs_ok [OF p ok] by simp
    ultimately show ?thesis
      using blobs pruned(4) [OF refl] dead(2) unfolding Let_def candidates_def [symmetric] dead_def [symmetric] by simp
  qed simp
qed

section \<open>A run\<close>

lemma blob_put_new:
  assumes "length c \<le> 1073741824" "om_get (bs_blobs s) (blob_id (content_reference C c)) = None"
    "checked_add (bs_generation s) 1 = Some g"
    "\<not> dir_exists (bf_blobs f) (blob_path (blake3 C c))" "\<not> dir_exists (bf_temporary f) (blob_temporary_path (blake3 C c))"
  shows "blob_put C all_ok all_ok s f c sync = (Inr (content_reference C c),
    s\<lparr>bs_blobs := om_insert (blob_id (content_reference C c)) (content_reference C c) (bs_blobs s), bs_generation := g\<rparr>,
    f\<lparr>bf_blobs := dir_put (blob_path (blake3 C c)) (blob_image C c) (bf_blobs f)\<rparr>)"
proof -
  have r: "reference_for C c = Inr (content_reference C c)" using assms(1) by (simp add: reference_for_iff)
  then have e: "encode_blob C (content_reference C c) c = Inr (blob_image C c)" by (simp add: encode_blob_image)
  have rm: "dir_remove n (dir_put n x d) = d" if "\<not> dir_exists d n" for n x d
    using dir_remove_absent [OF that] by (simp add: dir_put_def dir_remove_def)
  show ?thesis
    using assms by (simp add: blob_put_def blob_stage_def r e all_ok_def Let_def blob_publish_def place_staged_def
        rename_blob_def insert_reference_def rm)
qed

definition run_store :: blob_store where
  "run_store = \<lparr>bs_blobs = [], bs_committed_generation_floor = 0, bs_generation = 0,
     bs_recovered_temporary_files = 0, bs_reference_trace = None, bs_trace_poisoned = False\<rparr>"

definition run_files :: blob_files where
  "run_files = \<lparr>bf_blobs = [], bf_temporary = []\<rparr>"

lemma run_reachable: "blob_reachable C U (Some run_store, run_files, [])"
  unfolding run_files_def
  by (rule reach_create [of "\<lambda>_. all_ok" "[]" "[]"])
    (simp add: blob_create_def all_ok_def dir_exists_def run_store_def)

text \<open>The state after putting one content into a new store.\<close>

lemma run_put:
  assumes "length c \<le> 1073741824"
  shows "\<exists>s f. blob_put C all_ok all_ok run_store run_files c True = (Inr (content_reference C c), s, f)
    \<and> blob_reachable C {c} (Some s, f, []) \<and> bs_blobs s = [(blob_id (content_reference C c), content_reference C c)]
    \<and> bf_blobs f = [(blob_path (blake3 C c), File (blob_image C c))] \<and> bf_temporary f = []"
proof -
  have "checked_add (bs_generation run_store) 1 = Some 1" by (simp add: run_store_def checked_add_def)
  note new = blob_put_new [OF assms _ this, of C run_files True]
  define s where "s = run_store\<lparr>bs_blobs := [(blob_id (content_reference C c), content_reference C c)], bs_generation := 1\<rparr>"
  define f where "f = run_files\<lparr>bf_blobs := [(blob_path (blake3 C c), File (blob_image C c))]\<rparr>"
  have put: "blob_put C all_ok all_ok run_store run_files c True = (Inr (content_reference C c), s, f)"
    and sf: "bs_blobs s = [(blob_id (content_reference C c), content_reference C c)]"
      "bf_blobs f = [(blob_path (blake3 C c), File (blob_image C c))]" "bf_temporary f = []"
    using new by (simp_all add: s_def f_def run_store_def run_files_def dir_exists_def dir_put_def)
  from put obtain t f' where st: "blob_stage C all_ok run_store run_files c True = (Inr t, f')"
    and pub: "blob_publish all_ok all_ok run_store f' t True = (Inr (content_reference C c), s, f)"
    by (auto simp: blob_put_def split: prod.splits sum.splits)
  have "blob_step C {c} {} (Some run_store, run_files, []) (Some run_store, f', [t])"
    using step_stage [OF _ st] by simp
  moreover have "blob_step C {c} {} (Some run_store, f', [t]) (Some s, f, [])"
    using step_publish [OF pub, of C "{c}" "{}" "[]" "[]"] by simp
  ultimately have "blob_reachable C {c} (Some s, f, [])"
    using run_reachable [of C "{c}"] by (blast intro: reach_step)
  with put sf show ?thesis by blast
qed

theorem blob_read_verified_witness:
  "\<exists>s f s'. blob_read sum_crypto all_ok s f (content_reference sum_crypto [1, 2, 3]) = (Inr [1, 2, 3], s')
    \<and> blob_digest (content_reference sum_crypto [1, 2, 3]) = blake3 sum_crypto [1, 2, 3]"
proof -
  let ?c = "[1, 2, 3]" and ?r = "content_reference sum_crypto [1, 2, 3]"
  obtain s :: blob_store and f :: blob_files where sf: "bs_blobs s = [(blob_id ?r, ?r)]"
    "bf_blobs f = [(blob_path (blake3 sum_crypto ?c), File (blob_image sum_crypto ?c))]"
    using run_put [of ?c sum_crypto] by auto
  then have "holds sum_crypto UNIV ?c (Some s, f, [])" by (simp add: holds_def stored_def)
  from blob_read_holds [OF this, of all_ok] obtain s' where
    "blob_read sum_crypto all_ok (blob_read_handle s) f ?r = (Inr ?c, s')"
    by (cases "blob_read sum_crypto all_ok (blob_read_handle s) f ?r") (auto simp: all_ok_def)
  with blob_read_verified [OF this] show ?thesis by blast
qed

theorem blob_survives_witness:
  "\<exists>s1 f1 s2 f2 r. blob_put sum_crypto all_ok all_ok run_store run_files [1, 2, 3] True = (Inr r, s1, f1)
    \<and> open_with_generation_floor sum_crypto all_ok all_ok f1 7 = (Inr s2, f2)
    \<and> fst (blob_read sum_crypto all_ok (blob_read_handle s2) f2 r) = Inr [1, 2, 3]"
proof -
  let ?c = "[1, 2, 3]" and ?U = "{[1, 2, 3]} :: bytes set"
  let ?r = "content_reference sum_crypto ?c"
  obtain s1 f1 where put: "blob_put sum_crypto all_ok all_ok run_store run_files ?c True = (Inr ?r, s1, f1)"
    and f1: "bf_blobs f1 = [(blob_path (blake3 sum_crypto ?c), File (blob_image sum_crypto ?c))]"
    and reach: "blob_reachable sum_crypto ?U (Some s1, f1, [])"
    using run_put [of ?c sum_crypto] by auto
  have "files_ok sum_crypto ?U f1" using state_ok_reachable [OF reach] by (simp add: state_ok_def)
  then obtain s2 f2 where op: "open_with_generation_floor sum_crypto all_ok all_ok f1 7 = (Inr s2, f2)"
    using open_succeeds [of sum_crypto ?U f1 7] f1 by auto
  have "(blob_step sum_crypto ?U {?r})\<^sup>*\<^sup>* (Some s1, f1, []) (Some s2, f2, [])"
    using step_open [OF op] by (rule r_into_rtranclp)
  from blob_survives [OF run_reachable _ _ put this, of all_ok] put op show ?thesis by (auto simp: all_ok_def)
qed

theorem blob_store_reopens_witness:
  "\<exists>s f s'. blob_reachable sum_crypto {[1, 2, 3]} (Some s, f, []) \<and> bs_blobs s \<noteq> []
    \<and> open_with_generation_floor sum_crypto all_ok all_ok f 7 = (Inr s', f\<lparr>bf_temporary := []\<rparr>)
    \<and> (\<forall>i r. om_get (bs_blobs s) i = Some r \<longrightarrow> om_get (bs_blobs s') i = Some r)"
proof -
  obtain s f where reach: "blob_reachable sum_crypto {[1, 2, 3]} (Some s, f, [])" and "bs_blobs s \<noteq> []" "length (bf_blobs f) = 1"
    using run_put [of "[1, 2, 3]" sum_crypto] by auto
  with blob_store_reopens [OF reach, of 7] show ?thesis by auto
qed

theorem prune_removes_exactly_witness:
  "\<exists>s f s' f' receipt. blob_reachable sum_crypto {[1, 2, 3]} (Some s, f, []) \<and> length (bs_blobs s) = 1
    \<and> prune_unreferenced all_ok s f [] None True = (Inr receipt, s', f')
    \<and> bp_removed_files receipt = 1 \<and> bs_blobs s' = [] \<and> bf_blobs f' = []"
proof -
  let ?c = "[1, 2, 3]" and ?r = "content_reference sum_crypto [1, 2, 3]"
  obtain s f where reach: "blob_reachable sum_crypto {?c} (Some s, f, [])" and s: "bs_blobs s = [(blob_id ?r, ?r)]"
    and f: "bf_blobs f = [(blob_path (blake3 sum_crypto ?c), File (blob_image sum_crypto ?c))]"
    using run_put [of ?c sum_crypto] by auto
  have "\<exists>receipt s' f'. prune_unreferenced all_ok s f [] None True = (Inr receipt, s', f')"
    by (simp add: prune_unreferenced_def prune_candidates_of_def s f encoded_size_def checked_add_def Let_def
        synchronize_namespace_def blob_inventory_def om_remove_def dir_exists_def all_ok_def)
  then obtain receipt s' f' where p: "prune_unreferenced all_ok s f [] None True = (Inr receipt, s', f')" by blast
  from prune_removes_exactly [OF reach p] have "bp_removed_files receipt = 1 \<and> bs_blobs s' = [] \<and> bf_blobs f' = []"
    by (simp add: s f)
  moreover have "length (bs_blobs s) = 1" by (simp add: s)
  ultimately show ?thesis using reach p by blast
qed

text \<open>
  A staged blob that reuses a stored content has no temporary file and does not hold on to the store.
  If a prune removes the file in between, publishing it registers a reference and reports success,
  and every read of the reference fails.
\<close>

theorem stale_stage_loses_blob:
  assumes "bs_blobs s = []" "bs_reference_trace s = None" "checked_add (bs_generation s) 1 = Some g" "bf_blobs f = []"
  shows "\<exists>s'. blob_publish io tio s f \<lparr>sb_reference = r, sb_temporary_path = None\<rparr> sync = (Inr r, s', f)
    \<and> fst (blob_read C rio s' f r) = Inl BlobIo"
  using assms
  by (simp add: blob_publish_def place_staged_def insert_reference_def Let_def blob_read_def dir_read_def)

theorem stale_stage_occurs:
  "\<exists>s f t s' f' receipt. blob_reachable sum_crypto {[1, 2, 3]} (Some s, f, [])
    \<and> blob_stage sum_crypto all_ok s f [1, 2, 3] True = (Inr t, f) \<and> sb_temporary_path t = None
    \<and> prune_unreferenced all_ok s f [] None True = (Inr receipt, s', f') \<and> bs_blobs s' = [] \<and> bf_blobs f' = []"
proof -
  let ?c = "[1, 2, 3]" and ?r = "content_reference sum_crypto [1, 2, 3]"
  obtain s f where reach: "blob_reachable sum_crypto {?c} (Some s, f, [])" and s: "bs_blobs s = [(blob_id ?r, ?r)]"
    and f: "bf_blobs f = [(blob_path (blake3 sum_crypto ?c), File (blob_image sum_crypto ?c))]"
    using run_put [of ?c sum_crypto] by auto
  have d: "reference_for sum_crypto ?c = Inr ?r" "decode_blob sum_crypto (blob_image sum_crypto ?c) = Inr (?r, ?c)"
    by (simp_all add: decode_blob_iff reference_for_iff)
  have "\<exists>receipt s' f'. prune_unreferenced all_ok s f [] None True = (Inr receipt, s', f') \<and> bs_blobs s' = [] \<and> bf_blobs f' = []"
    by (simp add: prune_unreferenced_def prune_candidates_of_def s f encoded_size_def checked_add_def Let_def
        synchronize_namespace_def blob_inventory_def om_remove_def dir_remove_def dir_exists_def all_ok_def)
  moreover have "blob_stage sum_crypto all_ok s f ?c True = (Inr \<lparr>sb_reference = ?r, sb_temporary_path = None\<rparr>, f)"
    by (simp add: blob_stage_def d f dir_exists_def dir_read_def all_ok_def)
  ultimately show ?thesis using reach by fastforce
qed

text \<open>
  Publishing such a staged blob makes no call of the file system, whatever it is asked to synchronize:
  its outcome does not depend on any of the outcomes.
\<close>

theorem reusable_publish_never_synchronizes:
  assumes "sb_temporary_path t = None"
  shows "blob_publish io tio s f t True = blob_publish io' tio' s f t False"
proof -
  have place: "place_staged io tio f t True = place_staged io' tio' f t False"
    using assms by (simp add: place_staged_def)
  show ?thesis unfolding blob_publish_def place ..
qed

end
