(* ===== verification/Spec2Isabelle.thy ===== *)
theory Spec2Isabelle
  imports ScalarOrder MvccCoordinator WalRecovery WalRetentionStore ManifestRecovery BufferPool RowCodec BlobRuns
begin

text \<open>
  \<^bold>\<open>The native substrate of Hyphae.\<close> The repository is a database whose native engine is a stack of
  Rust crates under \<^verbatim>\<open>src/crates\<close>. This library models the lower layers of the stack, each function
  by a definition that follows its statements, and proves what the layers promise to each other.

  \<^bold>\<open>Parts and theories.\<close>
  \<^item> \<^verbatim>\<open>hyphae-native-types\<close>: identities and lineage (\<^verbatim>\<open>Identities\<close>), logical types and their descriptors
    (\<^verbatim>\<open>LogicalTypes\<close>), memcomparable byte strings (\<^verbatim>\<open>MemComparable\<close>), canonical floats (\<^verbatim>\<open>Floats\<close>),
    scalar values with their storage and ordered codecs (\<^verbatim>\<open>Scalars\<close>, \<^verbatim>\<open>ScalarCodec\<close>; proofs in
    \<^verbatim>\<open>ScalarStorage\<close>, \<^verbatim>\<open>ScalarOrder\<close>).
  \<^item> \<^verbatim>\<open>hyphae-native-mvcc\<close>: conflict table, root sets, snapshots, single and group commits (\<^verbatim>\<open>Mvcc\<close>; proofs
    in \<^verbatim>\<open>MvccConflicts\<close>, \<^verbatim>\<open>MvccCoordinator\<close>).
  \<^item> \<^verbatim>\<open>hyphae-native-wal\<close>: records and blocks (\<^verbatim>\<open>Wal\<close>, \<^verbatim>\<open>WalCodec\<close>), the writer, opening and resetting
    (\<^verbatim>\<open>WalFile\<close>, \<^verbatim>\<open>WalLog\<close>, \<^verbatim>\<open>WalRecovery\<close>), retention anchors and their store (\<^verbatim>\<open>WalRetention\<close>,
    \<^verbatim>\<open>WalRetentionStore\<close>).
  \<^item> \<^verbatim>\<open>hyphae-native-manifest\<close>: root manifests (\<^verbatim>\<open>Manifest\<close>, \<^verbatim>\<open>ManifestCodec\<close>) and the store of their
    chain (\<^verbatim>\<open>ManifestStore\<close>, \<^verbatim>\<open>ManifestRecovery\<close>).
  \<^item> \<^verbatim>\<open>hyphae-native-pages\<close>: pages, the page file and the buffer pool (\<^verbatim>\<open>Pages\<close>; the codec in \<^verbatim>\<open>PageCodec\<close>,
    the file as a state machine in \<^verbatim>\<open>PageFile\<close>, the pool beside it in \<^verbatim>\<open>BufferPool\<close>).
  \<^item> \<^verbatim>\<open>hyphae-native-records\<close>: row versions, typed tuples, views and references (\<^verbatim>\<open>Records\<close>; the column
    layout in \<^verbatim>\<open>RowColumns\<close>, the codecs in \<^verbatim>\<open>RowCodec\<close>).
  \<^item> \<^verbatim>\<open>hyphae-native-blobs\<close>: content-addressed blob files and their store (\<^verbatim>\<open>Blobs\<close>; the codec in
    \<^verbatim>\<open>BlobCodec\<close>, the operations in \<^verbatim>\<open>BlobStore\<close>, the store as a state machine in \<^verbatim>\<open>BlobRuns\<close>).

  \<^bold>\<open>Shared theories.\<close> \<^verbatim>\<open>Prelude\<close> (results with early return, checked arithmetic, slices and in-place
  writes), \<^verbatim>\<open>Endian\<close> (byte order), \<^verbatim>\<open>WordOrder\<close> (signed orders), \<^verbatim>\<open>Codec\<close> (the contracts of codecs as
  locales), \<^verbatim>\<open>OrderedMap\<close> (\<^verbatim>\<open>BTreeMap\<close>), \<^verbatim>\<open>Directory\<close> (directories and fixed-width file names), \<^verbatim>\<open>FileReads\<close>
  (reads at an offset), \<^verbatim>\<open>Crypto\<close> (the hash functions).

  \<^bold>\<open>Conventions.\<close> Bytes are \<open>8 word list\<close>, integers are words of their width, lengths are \<open>nat\<close>,
  \<^verbatim>\<open>[u8; 32]\<close> digests are 256-bit words. \<^verbatim>\<open>Result\<close> is a sum with the error on the left, and the \<^verbatim>\<open>?\<close>
  operator is \<open>attempt\<close>. CRC32C, BLAKE3 and \<^verbatim>\<open>serde_json\<close> are parameters. A file is its content with
  the length that is synchronized; every file-system call takes its outcome as an argument, so a
  theorem that quantifies over outcomes covers every failure. The theorems on blobs that need
  different contents to have different digests say so for the contents in use.

  \<^bold>\<open>What is shown.\<close> Codecs are canonical or characterised exactly; ordered encodings preserve the order
  of values; commits are serial, conflict-free and isolated; acknowledged log records survive
  crashes; the stores of anchors and manifests hold what their operations reported, and their
  directories open again to that chain or one operation that reported an error ahead of it, after
  any sequence of operations with any failures (the executions keep a history of the reports);
  synchronized pages survive crashes, a rollback undoes an unpublished
  tail, and the buffer pool never shows a page that the file does not hold; row versions keep their
  type however they are obtained, and borrowed views agree with owned rows; stored blobs stay
  readable, verified and prunable exactly.

  \<^bold>\<open>Bounds.\<close> Recursion is structural or measured; no definition takes fuel. The nesting bound of
  descriptors and the size limits of values are those of the code. The executions of the blob
  store do not prune while a stage that reuses stored content is outstanding, and those of the
  manifest store stage below the last generation; \<^verbatim>\<open>BlobRuns\<close> and \<^verbatim>\<open>ManifestRecovery\<close> show what goes
  wrong otherwise.

  \<^bold>\<open>Not modelled.\<close> The copy-on-write B-tree and the catalog, which use the pages, records and types
  above and are left out for their size; the crates above the substrate (runtime, product, protocol, daemon, servers and
  clients, the earlier storage engine), floating point arithmetic (vector distances, ranking,
  embeddings) and the durability of directory entries across a crash of the host.
\<close>

end
